(* ===== verification/Prelude.thy ===== *)
theory Prelude
  imports Main "HOL-Library.Word"
begin

text \<open>
  Shared vocabulary of the collector library: the machine types, the byte order and memory
  primitives the sources take from \<open>endian.h\<close> and \<open>memcpy\<close>, the unordered containers of
  \<open>Hash.h\<close> and \<open>Containers.h\<close> as association lists searched with an explicit key equality,
  and the lemmas on lists, options and words that more than one component uses.

  The host is little-endian, as on the x86-64, aarch64 and ppc64le builds: \<open>htonl\<close> and
  \<open>htonll\<close> reverse the bytes of a word. What the components need of them is only that they
  are involutions that commute with the bitwise operations, which the identity of a
  big-endian host satisfies as well.
\<close>

unbundle bit_operations_syntax

section \<open>Types and collections\<close>

type_synonym u8 = "8 word"
type_synonym u16 = "16 word"
type_synonym u32 = "32 word"
type_synonym u64 = "64 word"
type_synonym u64x2 = "u64 \<times> u64"

named_theorems byte_order \<open>laws of the byte order conversions\<close>
named_theorems um_simps \<open>evaluation of the container operations\<close>
named_theorems bits_view \<open>reading a word as the list of its bits\<close>

section \<open>Byte order and memory\<close>

definition bswap64 :: "u64 \<Rightarrow> u64" where
  "bswap64 x =
     push_bit 56 (take_bit 8 x) OR
     push_bit 48 (take_bit 8 (drop_bit 8 x)) OR
     push_bit 40 (take_bit 8 (drop_bit 16 x)) OR
     push_bit 32 (take_bit 8 (drop_bit 24 x)) OR
     push_bit 24 (take_bit 8 (drop_bit 32 x)) OR
     push_bit 16 (take_bit 8 (drop_bit 40 x)) OR
     push_bit 8 (take_bit 8 (drop_bit 48 x)) OR
     take_bit 8 (drop_bit 56 x)"

definition bswap32 :: "u32 \<Rightarrow> u32" where
  "bswap32 x =
     push_bit 24 (take_bit 8 x) OR
     push_bit 16 (take_bit 8 (drop_bit 8 x)) OR
     push_bit 8 (take_bit 8 (drop_bit 16 x)) OR
     take_bit 8 (drop_bit 24 x)"

definition htonll :: "u64 \<Rightarrow> u64" where
  "htonll x = bswap64 x"

definition ntohll :: "u64 \<Rightarrow> u64" where
  "ntohll x = bswap64 x"

definition htonl :: "u32 \<Rightarrow> u32" where
  "htonl x = bswap32 x"

definition ntohl :: "u32 \<Rightarrow> u32" where
  "ntohl x = bswap32 x"

text \<open>A word read from consecutive bytes of memory, lowest address first.\<close>

fun le_word :: "u8 list \<Rightarrow> u64" where
  "le_word [] = 0"
| "le_word (b # bs) = ucast b OR push_bit 8 (le_word bs)"

text \<open>The bytes of a word in memory, lowest address first.\<close>

definition le_bytes :: "u64 \<Rightarrow> u8 list" where
  "le_bytes w = map (\<lambda>i. ucast (drop_bit (8 * i) w)) [0, 1, 2, 3, 4, 5, 6, 7]"

text \<open>\<open>memcmp(p, q, n) > 0\<close> on the first bytes of two buffers.\<close>

fun memcmp_gt :: "nat \<Rightarrow> u8 list \<Rightarrow> u8 list \<Rightarrow> bool" where
  "memcmp_gt (Suc n) (x # xs) (y # ys) = (if x = y then memcmp_gt n xs ys else y < x)"
| "memcmp_gt _ _ _ = False"

lemma less8_cases:
  "q < (8::nat) \<Longrightarrow> q = 0 \<or> q = 1 \<or> q = 2 \<or> q = 3 \<or> q = 4 \<or> q = 5 \<or> q = 6 \<or> q = 7"
  by arith

lemma split_byte_index:
  assumes "n < 8 * m"
  obtains q r where "q < m" "r < (8::nat)" "n = 8 * q + r"
proof (rule that)
  show "n div 8 < m" using assms by (simp add: less_mult_imp_div_less mult.commute)
  show "n mod 8 < 8" by simp
  show "n = 8 * (n div 8) + n mod 8" by simp
qed

lemma bit_bswap64:
  assumes "q < 8" "r < 8"
  shows "bit (bswap64 x) (8 * q + r) \<longleftrightarrow> bit x (8 * (7 - q) + r)"
  using less8_cases [OF assms(1)] assms(2)
  by (elim disjE;
      simp add: bswap64_def bit_or_iff bit_push_bit_iff bit_take_bit_iff bit_drop_bit_eq)

lemma bit_bswap32:
  assumes "q < 4" "r < 8"
  shows "bit (bswap32 x) (8 * q + r) \<longleftrightarrow> bit x (8 * (3 - q) + r)"
proof -
  from assms(1) have "q = 0 \<or> q = 1 \<or> q = 2 \<or> q = 3" by arith
  then show ?thesis using assms(2)
    by (elim disjE;
        simp add: bswap32_def bit_or_iff bit_push_bit_iff bit_take_bit_iff bit_drop_bit_eq)
qed

lemma bswap64_involution: "bswap64 (bswap64 x) = x"
proof (rule bit_word_eqI)
  fix n assume "n < LENGTH(64)"
  then have "n < 8 * 8" by simp
  then obtain q r where "q < 8" "r < 8" "n = 8 * q + r" by (rule split_byte_index)
  then show "bit (bswap64 (bswap64 x)) n \<longleftrightarrow> bit x n"
    using bit_bswap64 [of q r "bswap64 x"] bit_bswap64 [of "7 - q" r x] by simp
qed

lemma bswap64_and: "bswap64 (x AND y) = bswap64 x AND bswap64 y"
proof (rule bit_word_eqI)
  fix n assume "n < LENGTH(64)"
  then have "n < 8 * 8" by simp
  then obtain q r where "q < 8" "r < 8" "n = 8 * q + r" by (rule split_byte_index)
  then show "bit (bswap64 (x AND y)) n \<longleftrightarrow> bit (bswap64 x AND bswap64 y) n"
    by (simp add: bit_and_iff bit_bswap64)
qed

lemma bswap32_involution: "bswap32 (bswap32 x) = x"
proof (rule bit_word_eqI)
  fix n assume "n < LENGTH(32)"
  then have "n < 8 * 4" by simp
  then obtain q r where "q < 4" "r < 8" "n = 8 * q + r" by (rule split_byte_index)
  then show "bit (bswap32 (bswap32 x)) n \<longleftrightarrow> bit x n"
    using bit_bswap32 [of q r "bswap32 x"] bit_bswap32 [of "3 - q" r x] by simp
qed

lemma ntohll_htonll [simp, byte_order]: "ntohll (htonll x) = x"
  by (simp add: ntohll_def htonll_def bswap64_involution)

lemma htonll_ntohll [simp, byte_order]: "htonll (ntohll x) = x"
  by (simp add: ntohll_def htonll_def bswap64_involution)

lemma ntohl_htonl [simp, byte_order]: "ntohl (htonl x) = x"
  by (simp add: ntohl_def htonl_def bswap32_involution)

lemma ntohll_and [byte_order]: "ntohll (x AND y) = ntohll x AND ntohll y"
  by (simp add: ntohll_def bswap64_and)

lemma ntohll_inject [simp]: "ntohll x = ntohll y \<longleftrightarrow> x = y"
  by (metis htonll_ntohll)

lemma ntohll_eq_iff [byte_order]: "x = htonll y \<longleftrightarrow> ntohll x = y"
  by (metis htonll_ntohll ntohll_htonll)

lemma ntohll_zero [simp]: "ntohll 0 = 0"
  by (simp add: ntohll_def bswap64_def)

lemma ntohll_eq_zero [simp]: "ntohll x = 0 \<longleftrightarrow> x = 0"
  by (metis ntohll_inject ntohll_zero)

lemma u8_bit_high [bits_view]: "8 \<le> n \<Longrightarrow> \<not> bit (b :: u8) n"
  using bit_imp_le_length [of b n] by auto

lemma u64_bit_high [bits_view]: "64 \<le> n \<Longrightarrow> \<not> bit (w :: u64) n"
  using bit_imp_le_length [of w n] by auto

lemma bit_le_word_gen:
  "r < 8 \<Longrightarrow> q < length bs \<Longrightarrow> length bs \<le> 8 \<Longrightarrow> bit (le_word bs) (8 * q + r) = bit (bs ! q) r"
proof (induction bs arbitrary: q)
  case (Cons b bs)
  show ?case
  proof (cases q)
    case 0
    then show ?thesis using Cons.prems by (simp add: bit_or_iff bit_push_bit_iff bit_unsigned_iff)
  next
    case (Suc q')
    then have "8 * q + r - 8 = 8 * q' + r" "8 * q + r < 64" using Cons.prems by auto
    then show ?thesis using Cons Suc by (simp add: bit_or_iff bit_push_bit_iff bit_unsigned_iff u8_bit_high)
  qed
qed simp

lemma le_bytes_le_word: 
  assumes "length bs = 8" shows "le_bytes (le_word bs) = bs"
proof -
  obtain a b c d e f g h where bs: "bs = [a,b,c,d,e,f,g,h]"
    using assms by (auto simp: numeral_eq_Suc length_Suc_conv)
  show ?thesis unfolding bs
    by (simp add: le_bytes_def, intro conjI; rule bit_word_eqI;
        simp add: bit_or_iff bit_push_bit_iff bit_drop_bit_eq bit_unsigned_iff u8_bit_high)
qed

lemma le_word_le_bytes: "le_word (le_bytes w) = w"
proof (rule bit_word_eqI)
  fix n assume "n < LENGTH(64)"
  then have "n < 8 * 8" by simp
  then obtain q r where q: "q < 8" "r < 8" "n = 8 * q + r" by (rule split_byte_index)
  show "bit (le_word (le_bytes w)) n = bit w n"
    using less8_cases [OF q(1)] q(2) unfolding q(3)
    by (elim disjE;
      simp add: le_bytes_def bit_or_iff bit_push_bit_iff bit_drop_bit_eq bit_unsigned_iff u8_bit_high)
qed

section \<open>Unordered containers\<close>

text \<open>
  \<open>UnorderedMap<K, V, E>\<close> is a list of entries searched with the key equality \<open>E\<close>, the
  first argument of every operation. A new element goes to the end; the order in which the
  source iterates is unspecified, so no property below depends on it. The container
  requirements of the standard ask that the equality is an equivalence on the keys in use:
  that is the contract of the locale \<open>key_equality\<close>, stated for a set of keys, since the
  equalities of the sources are not equivalences on all values of their types.
\<close>

type_synonym ('k, 'v) umap = "('k \<times> 'v) list"

definition um_keys :: "('k, 'v) umap \<Rightarrow> 'k set" where
  "um_keys m = fst ` set m"

fun um_find :: "('k \<Rightarrow> 'k \<Rightarrow> bool) \<Rightarrow> 'k \<Rightarrow> ('k, 'v) umap \<Rightarrow> ('k \<times> 'v) option" where
  "um_find eq k [] = None"
| "um_find eq k (e # m) = (if eq k (fst e) then Some e else um_find eq k m)"

definition um_lookup :: "('k \<Rightarrow> 'k \<Rightarrow> bool) \<Rightarrow> 'k \<Rightarrow> ('k, 'v) umap \<Rightarrow> 'v option" where
  "um_lookup eq k m = map_option snd (um_find eq k m)"

definition um_contains :: "('k \<Rightarrow> 'k \<Rightarrow> bool) \<Rightarrow> ('k, 'v) umap \<Rightarrow> 'k \<Rightarrow> bool" where
  "um_contains eq m k = (um_find eq k m \<noteq> None)"

text \<open>\<open>insert\<close> and \<open>emplace\<close>: nothing happens when an equal key is stored.\<close>

definition um_insert :: "('k \<Rightarrow> 'k \<Rightarrow> bool) \<Rightarrow> 'k \<Rightarrow> 'v \<Rightarrow> ('k, 'v) umap \<Rightarrow> ('k, 'v) umap \<times> bool" where
  "um_insert eq k v m =
     (case um_find eq k m of None \<Rightarrow> (m @ [(k, v)], True) | Some _ \<Rightarrow> (m, False))"

text \<open>\<open>it->second = v\<close> on the iterator found for a key.\<close>

fun um_update :: "('k \<Rightarrow> 'k \<Rightarrow> bool) \<Rightarrow> 'k \<Rightarrow> ('v \<Rightarrow> 'v) \<Rightarrow> ('k, 'v) umap \<Rightarrow> ('k, 'v) umap" where
  "um_update eq k f [] = []"
| "um_update eq k f (e # m) =
     (if eq k (fst e) then (fst e, f (snd e)) # m else e # um_update eq k f m)"

text \<open>\<open>erase\<close> of the iterator found for a key.\<close>

fun um_erase :: "('k \<Rightarrow> 'k \<Rightarrow> bool) \<Rightarrow> 'k \<Rightarrow> ('k, 'v) umap \<Rightarrow> ('k, 'v) umap" where
  "um_erase eq k [] = []"
| "um_erase eq k (e # m) = (if eq k (fst e) then m else e # um_erase eq k m)"

text \<open>\<open>m[k] = v\<close>.\<close>

definition um_put :: "('k \<Rightarrow> 'k \<Rightarrow> bool) \<Rightarrow> 'k \<Rightarrow> 'v \<Rightarrow> ('k, 'v) umap \<Rightarrow> ('k, 'v) umap" where
  "um_put eq k v m = um_update eq k (\<lambda>_. v) (fst (um_insert eq k v m))"

text \<open>No two entries have equal keys.\<close>

fun um_distinct :: "('k \<Rightarrow> 'k \<Rightarrow> bool) \<Rightarrow> ('k, 'v) umap \<Rightarrow> bool" where
  "um_distinct eq [] = True"
| "um_distinct eq (e # m) = ((\<forall>e' \<in> set m. \<not> eq (fst e) (fst e')) \<and> um_distinct eq m)"

lemma um_lookup_Nil [simp]: "um_lookup eq k [] = None"
  by (simp add: um_lookup_def)

lemma um_lookup_Cons [simp]:
  "um_lookup eq k (e # m) = (if eq k (fst e) then Some (snd e) else um_lookup eq k m)"
  by (simp add: um_lookup_def)

lemma um_find_None_iff: "um_find eq k m = None \<longleftrightarrow> (\<forall>e \<in> set m. \<not> eq k (fst e))"
  by (induction m) auto

lemma um_find_SomeD: "um_find eq k m = Some e \<Longrightarrow> e \<in> set m \<and> eq k (fst e)"
  by (induction m) (auto split: if_splits)

lemma um_contains_lookup: "um_contains eq m k \<longleftrightarrow> um_lookup eq k m \<noteq> None"
  by (simp add: um_contains_def um_lookup_def)

lemma um_lookup_None_iff: "um_lookup eq k m = None \<longleftrightarrow> (\<forall>e \<in> set m. \<not> eq k (fst e))"
  by (simp add: um_lookup_def um_find_None_iff)

lemma um_lookup_append:
  "um_lookup eq k (m @ m') = (case um_lookup eq k m of None \<Rightarrow> um_lookup eq k m' | Some v \<Rightarrow> Some v)"
  by (induction m) auto

lemma um_lookup_SomeD: "um_lookup eq k m = Some v \<Longrightarrow> \<exists>k'. (k', v) \<in> set m \<and> eq k k'"
  by (induction m) (auto split: if_splits)

lemma um_keys_Nil [simp]: "um_keys [] = {}"
  by (simp add: um_keys_def)

lemma um_keys_Cons [simp]: "um_keys (e # m) = insert (fst e) (um_keys m)"
  by (simp add: um_keys_def)

lemma um_keys_append [simp]: "um_keys (m @ m') = um_keys m \<union> um_keys m'"
  by (auto simp: um_keys_def)

lemma um_keys_insert: "um_keys (fst (um_insert eq k v m)) \<subseteq> insert k (um_keys m)"
  by (auto simp: um_insert_def split: option.splits)

lemma um_keys_update [simp]: "um_keys (um_update eq k f m) = um_keys m"
  by (induction m) auto

lemma um_keys_erase: "um_keys (um_erase eq k m) \<subseteq> um_keys m"
  by (induction m) auto

lemma um_keys_filter: "um_keys (filter P m) \<subseteq> um_keys m"
  by (auto simp: um_keys_def)

lemma um_keys_map_value [simp]: "um_keys (map (\<lambda>(k, v). (k, f k v)) m) = um_keys m"
  by (force simp: um_keys_def)

lemma um_distinct_filter: "um_distinct eq m \<Longrightarrow> um_distinct eq (filter P m)"
  by (induction m) auto

lemma um_distinct_erase: "um_distinct eq m \<Longrightarrow> um_distinct eq (um_erase eq k m)"
proof (induction m)
  case (Cons e m)
  have "set (um_erase eq k m) \<subseteq> set m" by (induction m) auto
  with Cons show ?case by auto
qed simp

lemma um_distinct_alt: "um_distinct eq m = sorted_wrt (\<lambda>x y. \<not> eq x y) (map fst m)"
  by (induction m) auto

lemma um_distinct_keys_cong:
  "map fst m = map fst m' \<Longrightarrow> um_distinct eq m = um_distinct eq m'"
  by (simp add: um_distinct_alt)

lemma map_fst_um_update [simp]: "map fst (um_update eq k f m) = map fst m"
  by (induction m) auto

lemma um_distinct_update [simp]: "um_distinct eq (um_update eq k f m) = um_distinct eq m"
  by (rule um_distinct_keys_cong) simp

lemma um_distinct_map_value [simp]:
  "um_distinct eq (map (\<lambda>(k, v). (k, f k v)) m) = um_distinct eq m"
  by (rule um_distinct_keys_cong) (simp add: case_prod_beta comp_def)

lemma um_lookup_map_value:
  "um_lookup eq k (map (\<lambda>(k, v). (k, f v)) m) = map_option f (um_lookup eq k m)"
  by (induction m) auto

text \<open>The contract a key type owes the container.\<close>

locale key_equality =
  fixes eq :: "'k \<Rightarrow> 'k \<Rightarrow> bool" and C :: "'k set"
  assumes eq_refl: "x \<in> C \<Longrightarrow> eq x x"
    and eq_sym: "x \<in> C \<Longrightarrow> y \<in> C \<Longrightarrow> eq x y \<Longrightarrow> eq y x"
    and eq_trans: "x \<in> C \<Longrightarrow> y \<in> C \<Longrightarrow> z \<in> C \<Longrightarrow> eq x y \<Longrightarrow> eq y z \<Longrightarrow> eq x z"
begin

lemma eq_cong:
  assumes "x \<in> C" "y \<in> C" "z \<in> C" "eq x y"
  shows "eq x z \<longleftrightarrow> eq y z"
proof
  assume "eq x z"
  then show "eq y z" using eq_trans [OF assms(2,1,3) eq_sym [OF assms(1,2,4)]] by simp
next
  assume "eq y z"
  then show "eq x z" using eq_trans [OF assms(1,2,3,4)] by simp
qed

lemma eq_cong_right:
  assumes "x \<in> C" "y \<in> C" "z \<in> C" "eq x y"
  shows "eq z x \<longleftrightarrow> eq z y"
proof
  assume "eq z x"
  then show "eq z y" using eq_trans [OF assms(3,1,2)] assms(4) by simp
next
  assume "eq z y"
  then show "eq z x" using eq_trans [OF assms(3,2,1)] eq_sym [OF assms(1,2,4)] by simp
qed

lemma lookup_cong:
  assumes "k \<in> C" "k' \<in> C" "um_keys m \<subseteq> C" "eq k k'"
  shows "um_lookup eq k m = um_lookup eq k' m"
  using assms(3)
proof (induction m)
  case (Cons e m)
  then have "eq k (fst e) = eq k' (fst e)" using assms by (intro eq_cong) auto
  with Cons show ?case by simp
qed simp

lemma lookup_insert:
  assumes "k \<in> C" "x \<in> C" "um_keys m \<subseteq> C"
  shows "um_lookup eq x (fst (um_insert eq k v m)) =
    (if eq x k then Some (case um_lookup eq k m of None \<Rightarrow> v | Some w \<Rightarrow> w) else um_lookup eq x m)"
proof (cases "um_find eq k m")
  case None
  then have "um_lookup eq k m = None" by (simp add: um_lookup_def)
  moreover have "eq x k \<Longrightarrow> um_lookup eq x m = None"
    using lookup_cong [OF assms(2,1,3)] \<open>um_lookup eq k m = None\<close> by simp
  ultimately show ?thesis using None by (auto simp: um_insert_def um_lookup_append split: option.split)
next
  case (Some e)
  then have "um_lookup eq k m = Some (snd e)" by (simp add: um_lookup_def)
  with Some show ?thesis using lookup_cong [OF assms(2,1,3)] by (auto simp: um_insert_def)
qed

lemma lookup_update:
  assumes "k \<in> C" "x \<in> C" "um_keys m \<subseteq> C"
  shows "um_lookup eq x (um_update eq k f m) =
    (if eq x k then map_option f (um_lookup eq x m) else um_lookup eq x m)"
  using assms(3)
proof (induction m)
  case (Cons e m)
  then have e: "fst e \<in> C" by simp
  show ?case
  proof (cases "eq k (fst e)")
    case True
    then have "eq x k \<longleftrightarrow> eq x (fst e)"
      using eq_cong_right [OF assms(1) e assms(2)] by simp
    with True show ?thesis by simp
  next
    case False
    then have "eq x k \<Longrightarrow> \<not> eq x (fst e)"
      using eq_cong [OF assms(2,1) e] by simp
    with False Cons show ?thesis by auto
  qed
qed simp

lemma lookup_put:
  assumes "k \<in> C" "x \<in> C" "um_keys m \<subseteq> C"
  shows "um_lookup eq x (um_put eq k v m) = (if eq x k then Some v else um_lookup eq x m)"
proof -
  have "um_keys (fst (um_insert eq k v m)) \<subseteq> C"
    using um_keys_insert [of eq k v m] assms by auto
  then show ?thesis
    using assms by (simp add: um_put_def lookup_update lookup_insert)
qed

lemma lookup_eq_iff:
  assumes "um_distinct eq m" "um_keys m \<subseteq> C" "k \<in> C"
  shows "um_lookup eq k m = Some v \<longleftrightarrow> (\<exists>k'. (k', v) \<in> set m \<and> eq k k')"
  using assms(1,2)
proof (induction m)
  case (Cons e m)
  have IH: "um_lookup eq k m = Some v \<longleftrightarrow> (\<exists>k'. (k', v) \<in> set m \<and> eq k k')"
    using Cons by simp
  show ?case
  proof (cases "eq k (fst e)")
    case True
    have "(k', v) \<notin> set m" if "eq k k'" for k'
    proof
      assume in_m: "(k', v) \<in> set m"
      then have "k' \<in> C" using Cons.prems(2) by (force simp: um_keys_def)
      moreover have "fst e \<in> C" using Cons.prems(2) by simp
      ultimately have "eq (fst e) k'"
        using eq_cong [OF assms(3) _ _ True] that by blast
      with in_m Cons.prems(1) show False by auto
    qed
    with True show ?thesis by (cases e) auto
  next
    case False
    with IH show ?thesis by (cases e) auto
  qed
qed simp

lemma lookup_member:
  assumes "um_distinct eq m" "um_keys m \<subseteq> C" "(k, v) \<in> set m"
  shows "um_lookup eq k m = Some v"
proof -
  have "k \<in> C" using assms(2,3) by (force simp: um_keys_def)
  then show ?thesis using assms(3) eq_refl lookup_eq_iff [OF assms(1,2)] by blast
qed

lemma lookup_filter:
  assumes "um_distinct eq m" "um_keys m \<subseteq> C" "k \<in> C"
    and "\<And>k k' v. k \<in> C \<Longrightarrow> k' \<in> C \<Longrightarrow> eq k k' \<Longrightarrow> P (k, v) = P (k', v)"
  shows "um_lookup eq k (filter P m) =
    (case um_lookup eq k m of None \<Rightarrow> None | Some v \<Rightarrow> if P (k, v) then Some v else None)"
  using assms(1,2)
proof (induction m)
  case (Cons e m)
  have e: "fst e \<in> C" using Cons.prems(2) by simp
  show ?case
  proof (cases "eq k (fst e)")
    case True
    have P: "P e = P (k, snd e)" using assms(4) [OF assms(3) e True, of "snd e"] by simp
    have "\<not> eq k (fst e')" if "e' \<in> set m" for e'
    proof
      assume "eq k (fst e')"
      moreover have "fst e' \<in> C" using that Cons.prems(2) by (force simp: um_keys_def)
      ultimately have "eq (fst e) (fst e')" using eq_cong [OF assms(3) e _ True] by simp
      with that Cons.prems(1) show False by auto
    qed
    then have "um_lookup eq k (filter P m) = None" by (simp add: um_lookup_None_iff)
    with True P show ?thesis by simp
  next
    case False
    with Cons show ?thesis by simp
  qed
qed simp

lemma distinct_insert:
  assumes "um_distinct eq m" "um_keys m \<subseteq> C" "k \<in> C"
  shows "um_distinct eq (fst (um_insert eq k v m))"
proof (cases "um_find eq k m")
  case None
  then have none: "\<forall>e \<in> set m. \<not> eq k (fst e)" by (simp add: um_find_None_iff)
  have "um_distinct eq (m @ [(k, v)])"
    using assms(1,2) none
  proof (induction m)
    case (Cons e m)
    then have "\<not> eq (fst e) k" using eq_sym [of "fst e" k] assms(3) by auto
    with Cons show ?case by auto
  qed simp
  with None show ?thesis by (simp add: um_insert_def)
next
  case (Some e)
  with assms show ?thesis by (simp add: um_insert_def)
qed

lemma distinct_put:
  assumes "um_distinct eq m" "um_keys m \<subseteq> C" "k \<in> C"
  shows "um_distinct eq (um_put eq k v m)"
  using distinct_insert [OF assms] by (simp add: um_put_def)

lemma keys_put:
  assumes "um_keys m \<subseteq> C" "k \<in> C"
  shows "um_keys (um_put eq k v m) \<subseteq> C"
  using um_keys_insert [of eq k v m] assms by (auto simp: um_put_def)

end

text \<open>Keys compared by value: strings, process ids, socket inodes, enumerators.\<close>

interpretation value_keys: key_equality "(=)" UNIV
  by unfold_locales auto

end
