(* ===== verification/CxxLib.thy ===== *)
theory CxxLib
  imports Prelude
begin

text \<open>
  The parts of the C and C++ standard libraries that the sources use on strings: character
  classes of the C locale, searching and slicing of \<open>std::string_view\<close>, and the decimal
  conversions \<open>std::stol\<close> and \<open>std::stoi\<close>. A string is a list of characters; \<open>npos\<close> is
  \<open>None\<close>.
\<close>

section \<open>Character classes\<close>

definition cc :: "char \<Rightarrow> nat" where
  "cc c = of_char c"

definition c_isspace :: "char \<Rightarrow> bool" where
  "c_isspace c = (cc c = 32 \<or> (9 \<le> cc c \<and> cc c \<le> 13))"

definition c_isdigit :: "char \<Rightarrow> bool" where
  "c_isdigit c = (48 \<le> cc c \<and> cc c \<le> 57)"

definition c_isupper :: "char \<Rightarrow> bool" where
  "c_isupper c = (65 \<le> cc c \<and> cc c \<le> 90)"

definition c_islower :: "char \<Rightarrow> bool" where
  "c_islower c = (97 \<le> cc c \<and> cc c \<le> 122)"

definition c_isalnum :: "char \<Rightarrow> bool" where
  "c_isalnum c = (c_isdigit c \<or> c_isupper c \<or> c_islower c)"

definition c_isxdigit :: "char \<Rightarrow> bool" where
  "c_isxdigit c = (c_isdigit c \<or> (65 \<le> cc c \<and> cc c \<le> 70) \<or> (97 \<le> cc c \<and> cc c \<le> 102))"

definition c_tolower :: "char \<Rightarrow> char" where
  "c_tolower c = (if c_isupper c then char_of (cc c + 32) else c)"

definition c_toupper :: "char \<Rightarrow> char" where
  "c_toupper c = (if c_islower c then char_of (cc c - 32) else c)"

definition newline :: char where
  "newline = char_of (10 :: nat)"

definition nul :: char where
  "nul = char_of (0 :: nat)"

definition dquote :: char where
  "dquote = char_of (34 :: nat)"

section \<open>Searching and slicing\<close>

text \<open>\<open>s.find(c, pos)\<close>.\<close>

fun find_char :: "char \<Rightarrow> string \<Rightarrow> nat option" where
  "find_char c [] = None"
| "find_char c (x # xs) = (if x = c then Some 0 else map_option Suc (find_char c xs))"

definition find_char_from :: "char \<Rightarrow> nat \<Rightarrow> string \<Rightarrow> nat option" where
  "find_char_from c pos s =
     (if pos \<le> length s then map_option (\<lambda>i. i + pos) (find_char c (drop pos s)) else None)"

fun is_prefix :: "string \<Rightarrow> string \<Rightarrow> bool" where
  "is_prefix [] s = True"
| "is_prefix (p # ps) [] = False"
| "is_prefix (p # ps) (x # xs) = (p = x \<and> is_prefix ps xs)"

text \<open>\<open>s.find(needle)\<close>, \<open>s.find(needle, pos)\<close> and \<open>s.rfind(needle)\<close>.\<close>

fun find_str :: "string \<Rightarrow> string \<Rightarrow> nat option" where
  "find_str p [] = (if p = [] then Some 0 else None)"
| "find_str p (x # xs) = (if is_prefix p (x # xs) then Some 0 else map_option Suc (find_str p xs))"

definition find_str_from :: "string \<Rightarrow> nat \<Rightarrow> string \<Rightarrow> nat option" where
  "find_str_from p pos s =
     (if pos \<le> length s then map_option (\<lambda>i. i + pos) (find_str p (drop pos s)) else None)"

fun rfind_str :: "string \<Rightarrow> string \<Rightarrow> nat option" where
  "rfind_str p [] = (if p = [] then Some 0 else None)"
| "rfind_str p (x # xs) =
     (case rfind_str p xs of
        Some i \<Rightarrow> Some (Suc i)
      | None \<Rightarrow> if is_prefix p (x # xs) then Some 0 else None)"

text \<open>\<open>s.substr(pos, n)\<close> for a position inside the string, and \<open>s.remove_suffix(n)\<close>.\<close>

definition substr :: "string \<Rightarrow> nat \<Rightarrow> nat \<Rightarrow> string" where
  "substr s pos n = take n (drop pos s)"

definition remove_suffix :: "nat \<Rightarrow> string \<Rightarrow> string" where
  "remove_suffix n s = take (length s - n) s"

section \<open>Decimal conversion\<close>

datatype cxx_exception = Invalid_argument | Out_of_range | Bad_optional_access | Json_exception

definition digit_value :: "char \<Rightarrow> nat" where
  "digit_value c = cc c - 48"

definition digits_value :: "string \<Rightarrow> nat" where
  "digits_value ds = foldl (\<lambda>acc d. 10 * acc + digit_value d) 0 ds"

text \<open>\<open>strtol(s, &end, 10)\<close> as \<open>std::stol\<close> uses it, for a result type of \<open>w\<close> bits.\<close>

definition sto_signed :: "nat \<Rightarrow> string \<Rightarrow> cxx_exception + int" where
  "sto_signed w s =
     (let s1 = dropWhile c_isspace s;
          neg = (s1 \<noteq> [] \<and> hd s1 = CHR ''-'');
          s2 = (if s1 \<noteq> [] \<and> (hd s1 = CHR ''-'' \<or> hd s1 = CHR ''+'') then tl s1 else s1);
          ds = takeWhile c_isdigit s2;
          v = (if neg then - int (digits_value ds) else int (digits_value ds))
      in if ds = [] then Inl Invalid_argument
         else if v < - (2 ^ (w - 1)) \<or> v \<ge> 2 ^ (w - 1) then Inl Out_of_range
         else Inr v)"

definition stol :: "string \<Rightarrow> cxx_exception + int" where
  "stol s = sto_signed 64 s"

definition stoi :: "string \<Rightarrow> cxx_exception + int" where
  "stoi s = sto_signed 32 s"

section \<open>Laws\<close>

lemma find_char_None_iff: "find_char c s = None \<longleftrightarrow> c \<notin> set s"
  by (induction s) auto

lemma find_char_SomeD:
  "find_char c s = Some i \<Longrightarrow> i < length s \<and> s ! i = c \<and> c \<notin> set (take i s)"
  by (induction s arbitrary: i) (auto split: if_splits simp: nth_Cons split: nat.splits)

lemma is_prefix_iff: "is_prefix p s \<longleftrightarrow> take (length p) s = p"
  by (induction p s rule: is_prefix.induct) auto

lemma length_remove_suffix [simp]: "length (remove_suffix n s) = length s - n"
  by (simp add: remove_suffix_def)

lemma sto_signed_bounds:
  "sto_signed w s = Inr v \<Longrightarrow> - (2 ^ (w - 1)) \<le> v \<and> v < 2 ^ (w - 1)"
  by (auto simp: sto_signed_def Let_def split: if_splits)

section \<open>Faults\<close>

text \<open>
  What can end a computation early: an exception that leaves it, undefined behaviour, and the
  exit that a log message of level \<open>FATAL\<close> makes. A fallible operation returns a sum, with
  the fault on the left.
\<close>

datatype cxx_fault = Throws cxx_exception | Undefined_behaviour | Fatal_exit

definition res_bind :: "'e + 'a \<Rightarrow> ('a \<Rightarrow> 'e + 'b) \<Rightarrow> 'e + 'b" where
  "res_bind m f = (case m of Inl e \<Rightarrow> Inl e | Inr x \<Rightarrow> f x)"

definition lift_exception :: "cxx_exception + 'a \<Rightarrow> cxx_fault + 'a" where
  "lift_exception m = (case m of Inl e \<Rightarrow> Inl (Throws e) | Inr x \<Rightarrow> Inr x)"

lemma res_bind_simps [simp]:
  "res_bind (Inr x) f = f x" "res_bind (Inl e) f = Inl e"
  by (simp_all add: res_bind_def)

lemma lift_exception_simps [simp]:
  "lift_exception (Inr x) = Inr x" "lift_exception (Inl e) = Inl (Throws e)"
  by (simp_all add: lift_exception_def)

lemma res_bind_Inr_iff: "res_bind m f = Inr y \<longleftrightarrow> (\<exists>x. m = Inr x \<and> f x = Inr y)"
  by (cases m) simp_all

section \<open>Decimal printing and lines\<close>

fun show_nat :: "nat \<Rightarrow> string" where
  "show_nat n = (if n < 10 then [char_of (48 + n)] else show_nat (n div 10) @ [char_of (48 + n mod 10)])"

definition show_int :: "int \<Rightarrow> string" where
  "show_int i = (if i < 0 then CHR ''-'' # show_nat (nat (- i)) else show_nat (nat i))"

declare show_nat.simps [simp del]

lemma digit_char:
  assumes "d < 10"
  shows "c_isdigit (char_of (48 + d))" "digit_value (char_of (48 + d)) = d"
  using assms by (simp_all add: c_isdigit_def digit_value_def cc_def)

lemma digits_value_snoc: "digits_value (ds @ [d]) = 10 * digits_value ds + digit_value d"
  by (simp add: digits_value_def)

lemma show_nat_digits: "list_all c_isdigit (show_nat n) \<and> show_nat n \<noteq> [] \<and> digits_value (show_nat n) = n"
proof (induction n rule: show_nat.induct)
  case (1 n)
  show ?case
  proof (cases "n < 10")
    case True
    then show ?thesis using digit_char [OF True]
      by (subst (1 2 3) show_nat.simps) (simp add: digits_value_def)
  next
    case False
    then show ?thesis using 1 [OF False] digit_char [of "n mod 10"]
      by (subst (1 2 3) show_nat.simps) (simp add: digits_value_snoc)
  qed
qed

lemma sto_signed_digits:
  assumes "list_all c_isdigit ds" "ds \<noteq> []" "rest = [] \<or> \<not> c_isdigit (hd rest)" "digits_value ds < 2 ^ (w - 1)"
  shows "sto_signed w (ds @ rest) = Inr (int (digits_value ds))"
proof -
  obtain d ds' where ds: "ds = d # ds'" using assms(2) by (cases ds) auto
  have "dropWhile c_isspace (ds @ rest) = ds @ rest" "d \<noteq> CHR ''-''" "d \<noteq> CHR ''+''"
    using assms(1) ds by (auto simp: c_isspace_def c_isdigit_def cc_def)
  moreover have "takeWhile c_isdigit (ds @ rest) = ds"
    using assms(1,3) by (cases rest) (auto simp: list_all_iff takeWhile_append2)
  moreover have "int (digits_value ds) < 2 ^ (w - 1)"
    using assms(4) by (metis of_nat_less_iff of_nat_numeral of_nat_power)
  moreover have "- (2 ^ (w - 1)) \<le> int (digits_value ds)" by (rule order_trans [of _ 0]) simp_all
  ultimately show ?thesis using assms(2) ds by (simp add: sto_signed_def Let_def not_less)
qed

text \<open>\<open>std::getline\<close> until it fails: a last line without a newline counts, if it is not empty.\<close>

fun getlines :: "string \<Rightarrow> string list" where
  "getlines [] = []"
| "getlines (c # cs) =
     (if c = newline then [] # getlines cs
      else (case getlines cs of
              [] \<Rightarrow> [[c]]
            | l # ls \<Rightarrow> (c # l) # ls))"

end
