(* ===== verification/NetworkConnection.thy ===== *)
theory NetworkConnection
  imports Prelude CxxLib
begin

text \<open>
  The data model of \<open>NetworkConnection.h\<close> and \<open>NetworkConnection.cpp\<close>: addresses, CIDR
  networks, endpoints, connections, the port heuristic and the private networks.

  An address keeps its two 64-bit words in network byte order, as the code does; the bytes of
  \<open>data_\<close> in memory are therefore the bytes of the address. \<open>addr_path\<close> reads an address
  as the list of its 128 bits, most significant first, and is the view in which the lemmas
  about masks, \<open>Contains\<close> and the radix tree are stated.
\<close>

section \<open>Addresses\<close>

datatype Family = UNKNOWN | IPV4 | IPV6

record Address =
  addr_data :: u64x2
  addr_family :: Family

definition Address_Length :: "Family \<Rightarrow> nat" where
  "Address_Length family =
     (case family of IPV4 \<Rightarrow> 4 | IPV6 \<Rightarrow> 16 | UNKNOWN \<Rightarrow> 0)"

definition Address_of_family :: "Family \<Rightarrow> Address" where
  "Address_of_family family = \<lparr>addr_data = (0, 0), addr_family = family\<rparr>"

definition Address_default :: Address where
  "Address_default = Address_of_family UNKNOWN"

text \<open>The argument is in network byte order.\<close>

definition Address_of_ipv4 :: "u32 \<Rightarrow> Address" where
  "Address_of_ipv4 ipv4 =
     \<lparr>addr_data = (htonll (push_bit 32 (ucast (ntohl ipv4))), 0), addr_family = IPV4\<rparr>"

definition Address_of_octets :: "u8 \<Rightarrow> u8 \<Rightarrow> u8 \<Rightarrow> u8 \<Rightarrow> Address" where
  "Address_of_octets a b c d =
     Address_of_ipv4 (htonl (push_bit 24 (ucast a) OR push_bit 16 (ucast b) OR
                             push_bit 8 (ucast c) OR ucast d))"

text \<open>\<open>memcpy\<close> of the first \<open>Length(family)\<close> bytes over a zeroed address.\<close>

definition Address_of_bytes :: "Family \<Rightarrow> u8 list \<Rightarrow> Address" where
  "Address_of_bytes family data =
     (let bs = take (Address_Length family) data @ replicate (16 - Address_Length family) 0
      in \<lparr>addr_data = (le_word (take 8 bs), le_word (take 8 (drop 8 bs))),
          addr_family = family\<rparr>)"

definition Address_of_words :: "Family \<Rightarrow> u64x2 \<Rightarrow> Address" where
  "Address_of_words family data = \<lparr>addr_data = data, addr_family = family\<rparr>"

text \<open>Four network-encoded 32-bit words, laid out in memory one after the other.\<close>

definition Address_of_ipv6_u32 :: "u32 \<Rightarrow> u32 \<Rightarrow> u32 \<Rightarrow> u32 \<Rightarrow> Address" where
  "Address_of_ipv6_u32 w0 w1 w2 w3 =
     \<lparr>addr_data = (ucast w0 OR push_bit 32 (ucast w1), ucast w2 OR push_bit 32 (ucast w3)),
      addr_family = IPV6\<rparr>"

definition Address_of_ipv6 :: "u64 \<Rightarrow> u64 \<Rightarrow> Address" where
  "Address_of_ipv6 ipv6_high ipv6_low =
     \<lparr>addr_data = (ipv6_high, ipv6_low), addr_family = IPV6\<rparr>"

definition Address_length :: "Address \<Rightarrow> nat" where
  "Address_length a = Address_Length (addr_family a)"

text \<open>The bytes of \<open>data_\<close> in memory.\<close>

definition Address_bytes :: "Address \<Rightarrow> u8 list" where
  "Address_bytes a = le_bytes (fst (addr_data a)) @ le_bytes (snd (addr_data a))"

definition Address_eq :: "Address \<Rightarrow> Address \<Rightarrow> bool" where
  "Address_eq a other = (addr_family a = addr_family other \<and> addr_data a = addr_data other)"

definition Family_index :: "Family \<Rightarrow> nat" where
  "Family_index f = (case f of UNKNOWN \<Rightarrow> 0 | IPV4 \<Rightarrow> 1 | IPV6 \<Rightarrow> 2)"

definition Address_gt :: "Address \<Rightarrow> Address \<Rightarrow> bool" where
  "Address_gt a that =
     (if addr_family a \<noteq> addr_family that
      then Family_index (addr_family a) > Family_index (addr_family that)
      else memcmp_gt (Address_length a) (Address_bytes a) (Address_bytes that))"

definition Address_IsNull :: "Address \<Rightarrow> bool" where
  "Address_IsNull a = (fst (addr_data a) = 0 \<and> snd (addr_data a) = 0)"

definition Address_ToV6 :: "Address \<Rightarrow> Address" where
  "Address_ToV6 a =
     (case addr_family a of
        IPV6 \<Rightarrow> a
      | IPV4 \<Rightarrow>
          (let low = htonll (0x0000ffff00000000 OR drop_bit 32 (ntohll (fst (addr_data a))))
           in Address_of_ipv6 0 low)
      | UNKNOWN \<Rightarrow> Address_default)"

definition Address_IsLocal :: "Address \<Rightarrow> bool" where
  "Address_IsLocal a =
     (case addr_family a of
        IPV4 \<Rightarrow> (fst (addr_data a) AND htonll 0xff00000000000000) = htonll 0x7f00000000000000
      | IPV6 \<Rightarrow>
          (if fst (addr_data a) \<noteq> 0 then False
           else snd (addr_data a) = htonll 1 \<or>
                (snd (addr_data a) AND htonll 0xffffffffff000000) = htonll 0x0000ffff7f000000)
      | UNKNOWN \<Rightarrow> False)"

definition Address_IsCanonicalExternalIp :: "Address \<Rightarrow> bool" where
  "Address_IsCanonicalExternalIp addr =
     (case addr_family addr of
        IPV4 \<Rightarrow> (fst (addr_data addr) AND htonll 0xffffffff00000000) = htonll 0xffffffff00000000
      | IPV6 \<Rightarrow> fst (addr_data addr) = 0xffffffffffffffff \<and> snd (addr_data addr) = 0xffffffffffffffff
      | UNKNOWN \<Rightarrow> False)"

section \<open>Networks\<close>

record IPNet =
  net_address :: Address
  net_mask :: u64x2
  net_bits :: nat
  net_is_addr :: bool

text \<open>\<open>~(~0 >> bits_left)\<close>: the \<open>bits_left\<close> most significant bits.\<close>

definition last_mask :: "nat \<Rightarrow> u64" where
  "last_mask bits_left = NOT (drop_bit bits_left (NOT 0))"

text \<open>
  The loop of the constructor over the words of the address: whole words are copied in
  network order, the last partial word is stored in host order, the rest stays zero.
\<close>

fun IPNet_mask_loop :: "nat \<Rightarrow> u64 list \<Rightarrow> u64 list" where
  "IPNet_mask_loop bits_left [] = []"
| "IPNet_mask_loop bits_left (w # ws) =
     (if bits_left \<ge> 64 then w # IPNet_mask_loop (bits_left - 64) ws
      else if bits_left > 0 then (ntohll w AND last_mask bits_left) # map (\<lambda>_. 0) ws
      else map (\<lambda>_. 0) (w # ws))"

definition IPNet_mk :: "Address \<Rightarrow> nat \<Rightarrow> bool \<Rightarrow> IPNet" where
  "IPNet_mk address bits is_addr =
     (let bits' = (if bits > Address_Length (addr_family address) * 8
                   then Address_Length (addr_family address) * 8 else bits);
          m = IPNet_mask_loop bits' [fst (addr_data address), snd (addr_data address)]
      in \<lparr>net_address = address, net_mask = (m ! 0, m ! 1), net_bits = bits',
          net_is_addr = is_addr\<rparr>)"

definition IPNet_default :: IPNet where
  "IPNet_default = IPNet_mk Address_default 0 False"

definition IPNet_of_address :: "Address \<Rightarrow> IPNet" where
  "IPNet_of_address address = IPNet_mk address (8 * Address_length address) True"

definition IPNet_family :: "IPNet \<Rightarrow> Family" where
  "IPNet_family n = addr_family (net_address n)"

definition IPNet_net_mask_array :: "IPNet \<Rightarrow> u64x2" where
  "IPNet_net_mask_array n =
     (if net_bits n < 64 then (NOT (drop_bit (net_bits n) 0xFFFFFFFFFFFFFFFF), 0)
      else if net_bits n = 128 then (0xFFFFFFFFFFFFFFFF, 0xFFFFFFFFFFFFFFFF)
      else (0xFFFFFFFFFFFFFFFF, NOT (drop_bit (net_bits n mod 64) 0xFFFFFFFFFFFFFFFF)))"

fun IPNet_Contains_loop :: "nat \<Rightarrow> u64 list \<Rightarrow> u64 list \<Rightarrow> bool" where
  "IPNet_Contains_loop bitsLeft (a # as) (m # ms) =
     (if bitsLeft \<ge> 64 then (if a \<noteq> m then False else IPNet_Contains_loop (bitsLeft - 64) as ms)
      else if bitsLeft > 0 then (ntohll a AND last_mask bitsLeft) = m
      else True)"
| "IPNet_Contains_loop bitsLeft _ _ = True"

definition IPNet_Contains :: "IPNet \<Rightarrow> Address \<Rightarrow> bool" where
  "IPNet_Contains n address =
     (if addr_family address \<noteq> addr_family (net_address n) then False
      else IPNet_Contains_loop (net_bits n)
             [fst (addr_data address), snd (addr_data address)]
             [fst (net_mask n), snd (net_mask n)])"

definition IPNet_IsNull :: "IPNet \<Rightarrow> bool" where
  "IPNet_IsNull n = (net_bits n = 0 \<and> Address_IsNull (net_address n))"

definition IPNet_eq :: "IPNet \<Rightarrow> IPNet \<Rightarrow> bool" where
  "IPNet_eq n other =
     (if net_bits n \<noteq> net_bits other then False
      else if net_is_addr n then Address_eq (net_address n) (net_address other)
      else net_mask n = net_mask other)"

definition IPNet_gt :: "IPNet \<Rightarrow> IPNet \<Rightarrow> bool" where
  "IPNet_gt n that =
     (if net_bits n \<noteq> net_bits that then net_bits n > net_bits that
      else Address_gt (net_address n) (net_address that))"

section \<open>Endpoints and connections\<close>

record Endpoint =
  ep_network :: IPNet
  ep_port :: u16

definition Endpoint_default :: Endpoint where
  "Endpoint_default = \<lparr>ep_network = IPNet_default, ep_port = 0\<rparr>"

definition Endpoint_of_address :: "Address \<Rightarrow> u16 \<Rightarrow> Endpoint" where
  "Endpoint_of_address address port = \<lparr>ep_network = IPNet_of_address address, ep_port = port\<rparr>"

definition Endpoint_of_network :: "IPNet \<Rightarrow> u16 \<Rightarrow> Endpoint" where
  "Endpoint_of_network network port = \<lparr>ep_network = network, ep_port = port\<rparr>"

definition Endpoint_eq :: "Endpoint \<Rightarrow> Endpoint \<Rightarrow> bool" where
  "Endpoint_eq e other =
     (ep_port e = ep_port other \<and> IPNet_eq (ep_network e) (ep_network other))"

definition Endpoint_address :: "Endpoint \<Rightarrow> Address" where
  "Endpoint_address e = net_address (ep_network e)"

definition Endpoint_IsNull :: "Endpoint \<Rightarrow> bool" where
  "Endpoint_IsNull e = (ep_port e = 0 \<and> IPNet_IsNull (ep_network e))"

text \<open>
  The enumerators of \<open>L4Proto\<close> and their underlying values. A flags byte can carry any
  7-bit value, and \<open>static_cast\<close> keeps values that name no enumerator.
\<close>

datatype L4Proto = L4_UNKNOWN | TCP | UDP | ICMP | L4_other u8

definition L4Proto_value :: "L4Proto \<Rightarrow> u8" where
  "L4Proto_value p =
     (case p of L4_UNKNOWN \<Rightarrow> 0 | TCP \<Rightarrow> 1 | UDP \<Rightarrow> 2 | ICMP \<Rightarrow> 3 | L4_other v \<Rightarrow> v)"

definition L4Proto_of_value :: "u8 \<Rightarrow> L4Proto" where
  "L4Proto_of_value v =
     (if v = 0 then L4_UNKNOWN else if v = 1 then TCP else if v = 2 then UDP
      else if v = 3 then ICMP else L4_other v)"

record Connection =
  conn_container :: string
  conn_local :: Endpoint
  conn_remote :: Endpoint
  conn_flags :: u8

definition Connection_mk :: "string \<Rightarrow> Endpoint \<Rightarrow> Endpoint \<Rightarrow> L4Proto \<Rightarrow> bool \<Rightarrow> Connection" where
  "Connection_mk container local remote l4proto is_server =
     \<lparr>conn_container = container, conn_local = local, conn_remote = remote,
      conn_flags = push_bit 1 (L4Proto_value l4proto) OR (if is_server then 1 else 0)\<rparr>"

definition Connection_is_server :: "Connection \<Rightarrow> bool" where
  "Connection_is_server c = ((conn_flags c AND 0x1) \<noteq> 0)"

definition Connection_l4proto :: "Connection \<Rightarrow> L4Proto" where
  "Connection_l4proto c = L4Proto_of_value (drop_bit 1 (conn_flags c))"

definition Connection_eq :: "Connection \<Rightarrow> Connection \<Rightarrow> bool" where
  "Connection_eq c other =
     (conn_container c = conn_container other \<and> Endpoint_eq (conn_local c) (conn_local other) \<and>
      Endpoint_eq (conn_remote c) (conn_remote other) \<and> conn_flags c = conn_flags other)"

text \<open>
  The originator of a container endpoint is a shared pointer to a process: a pointer is the
  identity of the object, with the attributes its accessors return.
\<close>

record Process =
  proc_ref :: nat
  proc_pid :: u64
  proc_comm :: string
  proc_exe_path :: string
  proc_args :: string

record ContainerEndpoint =
  cep_container :: string
  cep_endpoint :: Endpoint
  cep_l4proto :: L4Proto
  cep_originator :: "Process option"

definition ContainerEndpoint_eq :: "ContainerEndpoint \<Rightarrow> ContainerEndpoint \<Rightarrow> bool" where
  "ContainerEndpoint_eq c other =
     (cep_container c = cep_container other \<and>
      Endpoint_eq (cep_endpoint c) (cep_endpoint other) \<and>
      cep_l4proto c = cep_l4proto other \<and>
      map_option proc_ref (cep_originator c) = map_option proc_ref (cep_originator other))"

definition IsRelevantConnection :: "Connection \<Rightarrow> bool" where
  "IsRelevantConnection conn = (\<not> Address_IsLocal (Endpoint_address (conn_remote conn)))"

definition IsRelevantEndpoint :: "Endpoint \<Rightarrow> bool" where
  "IsRelevantEndpoint ep = (\<not> Address_IsLocal (Endpoint_address ep))"

definition IsEphemeralPort :: "u16 \<Rightarrow> nat" where
  "IsEphemeralPort port =
     (if port \<ge> 49152 then 4
      else if port \<ge> 32768 then 3
      else if port \<ge> 1025 \<and> port \<le> 5000 then 2
      else if port = 1024 then 1
      else 0)"

section \<open>Private networks\<close>

definition PrivateIPv4Networks :: "IPNet list" where
  "PrivateIPv4Networks =
     [IPNet_mk (Address_of_octets 10 0 0 0) 8 False,
      IPNet_mk (Address_of_octets 100 64 0 0) 10 False,
      IPNet_mk (Address_of_octets 169 254 0 0) 16 False,
      IPNet_mk (Address_of_octets 172 16 0 0) 12 False,
      IPNet_mk (Address_of_octets 192 168 0 0) 16 False]"

definition PrivateIPv6Networks :: "IPNet list" where
  "PrivateIPv6Networks =
     IPNet_mk (Address_of_ipv6 (htonll 0xfd00000000000000) 0) 8 False #
     map (\<lambda>ipv4_net. IPNet_mk (Address_ToV6 (net_address ipv4_net)) (net_bits ipv4_net + 96) False)
       PrivateIPv4Networks"

definition PrivateNetworks_of :: "Family \<Rightarrow> IPNet list" where
  "PrivateNetworks_of family =
     (case family of
        IPV4 \<Rightarrow> PrivateIPv4Networks
      | IPV6 \<Rightarrow> PrivateIPv6Networks
      | UNKNOWN \<Rightarrow> [])"

definition PrivateNetworks :: "IPNet list" where
  "PrivateNetworks = PrivateIPv4Networks @ PrivateIPv6Networks"

definition Address_IsPublic :: "Address \<Rightarrow> bool" where
  "Address_IsPublic a = list_all (\<lambda>net. \<not> IPNet_Contains net a) (PrivateNetworks_of (addr_family a))"

section \<open>Parsing\<close>

text \<open>
  \<open>getaddrinfo\<close> is the resolver of the C library: for a string it gives the return code and,
  when \<open>addrinfo\<close> and \<open>ai_addr\<close> are set, the \<open>ai_addrlen\<close> bytes of the socket address.
  The socket address is written over the bytes \<open>stack\<close> of an uninitialised variable.
\<close>

type_synonym getaddrinfo_t = "string \<Rightarrow> int \<times> u8 list option"

definition AF_INET :: nat where "AF_INET = 2"

definition AF_INET6 :: nat where "AF_INET6 = 10"

definition ss_family :: "u8 list \<Rightarrow> nat" where
  "ss_family sockaddr = unat (sockaddr ! 0) + 256 * unat (sockaddr ! 1)"

definition parse_address :: "getaddrinfo_t \<Rightarrow> string \<Rightarrow> u8 list \<Rightarrow> bool \<times> u8 list" where
  "parse_address getaddrinfo address sockaddr =
     (let (rc, ai_addr) = getaddrinfo address; success = (rc = 0)
      in case ai_addr of
           Some bytes \<Rightarrow> (success, bytes @ drop (length bytes) sockaddr)
         | None \<Rightarrow> (False, sockaddr))"

definition get_family :: "u8 list \<Rightarrow> Family" where
  "get_family sockaddr =
     (if ss_family sockaddr = AF_INET then IPV4
      else if ss_family sockaddr = AF_INET6 then IPV6 else UNKNOWN)"

text \<open>\<open>sin_addr\<close> is at offset 4 of \<open>sockaddr_in\<close>, \<open>sin6_addr\<close> at offset 8 of \<open>sockaddr_in6\<close>.\<close>

definition get_raw_address :: "u8 list \<Rightarrow> u8 list option" where
  "get_raw_address sockaddr =
     (if ss_family sockaddr = AF_INET then Some (drop 4 sockaddr)
      else if ss_family sockaddr = AF_INET6 then Some (drop 8 sockaddr) else None)"

definition Address_parse :: "getaddrinfo_t \<Rightarrow> u8 list \<Rightarrow> string \<Rightarrow> Address option" where
  "Address_parse getaddrinfo stack address_string =
     (let (ok, sockaddr) = parse_address getaddrinfo address_string stack
      in if ok then
           (case get_raw_address sockaddr of
              None \<Rightarrow> None
            | Some raw_address \<Rightarrow> Some (Address_of_bytes (get_family sockaddr) (take 16 raw_address)))
         else None)"

definition IPNet_parse :: "getaddrinfo_t \<Rightarrow> u8 list \<Rightarrow> string \<Rightarrow> IPNet option" where
  "IPNet_parse getaddrinfo stack ipnet_string =
     (let parsed =
        (case find_char (CHR ''/'') ipnet_string of
           None \<Rightarrow> Some (0, ipnet_string)
         | Some slash \<Rightarrow>
             (case stol (drop (slash + 1) ipnet_string) of
                Inl _ \<Rightarrow> None
              | Inr v \<Rightarrow> Some (word_of_int v :: u32,
                               remove_suffix (length ipnet_string - slash) ipnet_string)))
      in case parsed of
           None \<Rightarrow> None
         | Some (prefix_length, address_string) \<Rightarrow>
             (case Address_parse getaddrinfo stack address_string of
                None \<Rightarrow> None
              | Some address \<Rightarrow> Some (IPNet_mk address (unat prefix_length) (prefix_length \<noteq> 0))))"

section \<open>The bit view\<close>

text \<open>The bits of a word, most significant first; the bits of an address; a network prefix.\<close>

definition word_path :: "u64 \<Rightarrow> bool list" where
  "word_path w = map (\<lambda>i. bit w (63 - i)) [0..<64]"

definition addr_path :: "Address \<Rightarrow> bool list" where
  "addr_path a = word_path (ntohll (fst (addr_data a))) @ word_path (ntohll (snd (addr_data a)))"

definition net_path :: "IPNet \<Rightarrow> bool list" where
  "net_path n = take (net_bits n) (addr_path (net_address n))"

text \<open>The networks the constructors produce.\<close>

definition wf_net :: "IPNet \<Rightarrow> bool" where
  "wf_net n = (n = IPNet_mk (net_address n) (net_bits n) (net_is_addr n))"

lemma length_word_path [simp]: "length (word_path w) = 64"
  by (simp add: word_path_def)

lemma length_addr_path [simp]: "length (addr_path a) = 128"
  by (simp add: addr_path_def)

lemma nth_word_path [bits_view]: "i < 64 \<Longrightarrow> word_path w ! i = bit w (63 - i)"
  by (simp add: word_path_def)

lemma word_path_inject [simp]: "word_path w = word_path v \<longleftrightarrow> w = v"
proof
  assume eq: "word_path w = word_path v"
  show "w = v"
  proof (rule bit_word_eqI)
    fix n assume "n < LENGTH(64)"
    then have "63 - n < 64" "63 - (63 - n) = n" by auto
    then show "bit w n = bit v n"
      using eq nth_word_path [of "63 - n" w] nth_word_path [of "63 - n" v] by simp
  qed
qed simp

lemma bit_last_mask [bits_view]:
  "bit (last_mask k) n \<longleftrightarrow> n < 64 \<and> 64 \<le> n + k"
  by (auto simp: last_mask_def bit_not_iff bit_drop_bit_eq bit_mask_iff)

text \<open>Masking two words with the same prefix mask compares their prefixes.\<close>

lemma and_last_mask_eq_iff [bits_view]:
  assumes "k \<le> 64"
  shows "w AND last_mask k = v AND last_mask k \<longleftrightarrow> take k (word_path w) = take k (word_path v)"
proof -
  have "w AND last_mask k = v AND last_mask k \<longleftrightarrow> (\<forall>n < 64. 64 \<le> n + k \<longrightarrow> bit w n = bit v n)"
    by (auto simp: bit_eq_iff bit_and_iff bit_last_mask)
  also have "\<dots> \<longleftrightarrow> (\<forall>i < k. bit w (63 - i) = bit v (63 - i))"
  proof safe
    fix i assume "\<forall>n<64. 64 \<le> n + k \<longrightarrow> bit w n = bit v n" "i < k"
    then show "bit w (63 - i) \<Longrightarrow> bit v (63 - i)" "bit v (63 - i) \<Longrightarrow> bit w (63 - i)"
      using assms by auto
  next
    fix n assume h: "\<forall>i<k. bit w (63 - i) = bit v (63 - i)" "n < 64" "64 \<le> n + k"
    then have "63 - n < k" "63 - (63 - n) = n" by auto
    then show "bit w n \<Longrightarrow> bit v n" "bit v n \<Longrightarrow> bit w n" using h by metis+
  qed
  also have "\<dots> \<longleftrightarrow> take k (word_path w) = take k (word_path v)"
    using assms by (auto simp: list_eq_iff_nth_eq nth_word_path)
  finally show ?thesis .
qed

lemma Address_Length_le: "Address_Length f \<le> 16"
  by (cases f) (auto simp: Address_Length_def)

lemma net_bits_mk: "net_bits (IPNet_mk a b i) = min b (8 * Address_Length (addr_family a))"
  by (simp add: IPNet_mk_def Let_def min_def mult.commute)

lemma net_address_mk [simp]: "net_address (IPNet_mk a b i) = a"
  by (simp add: IPNet_mk_def Let_def)

lemma net_is_addr_mk [simp]: "net_is_addr (IPNet_mk a b i) = i"
  by (simp add: IPNet_mk_def Let_def)

lemma wf_net_mk [simp]: "wf_net (IPNet_mk a b i)"
  unfolding wf_net_def net_address_mk net_is_addr_mk net_bits_mk
  by (simp add: IPNet_mk_def Let_def min_def mult.commute del: IPNet_mask_loop.simps)

lemma wf_net_bits_le: "wf_net n \<Longrightarrow> net_bits n \<le> 8 * Address_Length (IPNet_family n)"
  by (metis IPNet_family_def min.cobounded2 net_bits_mk wf_net_def)

lemma wf_net_bits_128: "wf_net n \<Longrightarrow> net_bits n \<le> 128"
  using wf_net_bits_le [of n] Address_Length_le [of "IPNet_family n"] by simp

lemma length_net_path: "wf_net n \<Longrightarrow> length (net_path n) = net_bits n"
  using wf_net_bits_128 [of n] by (simp add: net_path_def)

text \<open>What the loop of the constructor leaves in \<open>mask_\<close>.\<close>

lemma IPNet_mask_loop_two:
  "IPNet_mask_loop b [d0, d1] =
     (if b \<ge> 128 then [d0, d1]
      else if b > 64 then [d0, ntohll d1 AND last_mask (b - 64)]
      else if b = 64 then [d0, 0]
      else if b > 0 then [ntohll d0 AND last_mask b, 0]
      else [0, 0])"
  by auto

lemma wf_net_mask:
  assumes "wf_net n"
  shows "[fst (net_mask n), snd (net_mask n)] =
    IPNet_mask_loop (net_bits n) [fst (addr_data (net_address n)), snd (addr_data (net_address n))]"
proof -
  obtain a b i where n: "n = IPNet_mk a b i" using assms by (auto simp: wf_net_def)
  show ?thesis unfolding n
    by (simp add: IPNet_mk_def Let_def IPNet_mask_loop_two del: IPNet_mask_loop.simps)
qed

lemma word_path_ntohll_eq: "d = e \<longleftrightarrow> word_path (ntohll d) = word_path (ntohll e)"
  by simp

lemma take_addr_path:
  "take b (addr_path a) =
     (if b \<ge> 64 then word_path (ntohll (fst (addr_data a))) @
                     take (b - 64) (word_path (ntohll (snd (addr_data a))))
      else take b (word_path (ntohll (fst (addr_data a)))))"
  by (simp add: addr_path_def)

text \<open>\<open>Contains\<close>, on the words of the address, is prefix equality on its bits.\<close>

lemma Contains_loop_iff:
  assumes "b \<le> 128"
  shows "IPNet_Contains_loop b [fst (addr_data x), snd (addr_data x)]
           (IPNet_mask_loop b [fst (addr_data a), snd (addr_data a)]) \<longleftrightarrow>
         take b (addr_path x) = take b (addr_path a)"
proof -
  consider "b = 128" | "64 < b" "b < 128" | "b = 64" | "0 < b" "b < 64" | "b = 0"
    using assms by linarith
  moreover have "\<not> 64 \<le> b - 64" if "b < 128" using that by simp
  ultimately show ?thesis
    by cases
       (use assms in \<open>simp_all add: IPNet_mask_loop_two take_addr_path and_last_mask_eq_iff
          append_eq_append_conv del: IPNet_mask_loop.simps\<close>)
qed

lemma Contains_iff_prefix:
  assumes "wf_net n"
  shows "IPNet_Contains n a \<longleftrightarrow>
    addr_family a = IPNet_family n \<and> take (net_bits n) (addr_path a) = net_path n"
proof -
  have "IPNet_Contains_loop (net_bits n) [fst (addr_data a), snd (addr_data a)]
          [fst (net_mask n), snd (net_mask n)] \<longleftrightarrow>
        take (net_bits n) (addr_path a) = net_path n"
    unfolding wf_net_mask [OF assms] net_path_def
    by (rule Contains_loop_iff [OF wf_net_bits_128 [OF assms]])
  then show ?thesis by (simp add: IPNet_Contains_def IPNet_family_def)
qed

section \<open>Octets\<close>

definition byte_path :: "u8 \<Rightarrow> bool list" where
  "byte_path b = map (\<lambda>i. bit b (7 - i)) [0..<8]"

lemma length_byte_path [simp]: "length (byte_path b) = 8"
  by (simp add: byte_path_def)


lemma nth_concat_bytes:
  "q < length bs \<Longrightarrow> r < 8 \<Longrightarrow> concat (map byte_path bs) ! (8 * q + r) = bit (bs ! q) (7 - r)"
proof (induction bs arbitrary: q)
  case (Cons b bs)
  then show ?case by (cases q) (auto simp: nth_append byte_path_def)
qed simp

lemma length_concat_bytes [simp]: "length (concat (map byte_path bs)) = 8 * length bs"
  by (induction bs) auto

lemma word_path_le_word:
  assumes "length bs = 8"
  shows "word_path (ntohll (le_word bs)) = concat (map byte_path bs)"
proof (rule nth_equalityI)
  fix i assume "i < length (word_path (ntohll (le_word bs)))"
  then have "i < 8 * 8" by simp
  then obtain q r where q: "q < 8" "r < 8" "i = 8 * q + r" by (rule split_byte_index)
  then have i: "63 - i = 8 * (7 - q) + (7 - r)" by auto
  have "bit (ntohll (le_word bs)) (8 * (7 - q) + (7 - r)) = bit (le_word bs) (8 * q + (7 - r))"
    using q bit_bswap64 [of "7 - q" "7 - r" "le_word bs"] unfolding ntohll_def by simp
  also have "\<dots> = bit (bs ! q) (7 - r)" using q assms by (intro bit_le_word_gen) auto
  finally show "word_path (ntohll (le_word bs)) ! i = concat (map byte_path bs) ! i"
    using q assms i by (simp add: nth_word_path nth_concat_bytes)
qed (simp add: assms)

lemma addr_path_bytes:
  assumes "length bs = Address_Length f"
  shows "addr_path (Address_of_bytes f bs) = concat (map byte_path bs) @ replicate (128 - 8 * Address_Length f) False"
proof -
  let ?p = "bs @ replicate (16 - Address_Length f) 0"
  have len: "length ?p = 16" using assms Address_Length_le [of f] by simp
  have "addr_path (Address_of_bytes f bs) = concat (map byte_path (take 8 ?p)) @ concat (map byte_path (take 8 (drop 8 ?p)))"
    using assms len by (simp add: addr_path_def Address_of_bytes_def Let_def word_path_le_word)
  also have "\<dots> = concat (map byte_path (take 8 ?p @ take 8 (drop 8 ?p)))"
    by (simp only: map_append concat_append)
  also have "take 8 ?p @ take 8 (drop 8 ?p) = ?p"
    using len by (simp only: take_all length_drop append_take_drop_id)
  also have "concat (map byte_path ?p) = concat (map byte_path bs) @ concat (map byte_path (replicate (16 - Address_Length f) 0))"
    by (simp only: map_append concat_append)
  also have "concat (map byte_path (replicate k 0)) = replicate (8 * k) False" for k
  proof (induction k)
    case (Suc k)
    have "byte_path 0 = replicate 8 False" by (simp add: byte_path_def map_replicate_const)
    with Suc show ?case by (simp flip: replicate_add)
  qed simp
  finally show ?thesis by (simp add: algebra_simps)
qed

lemma byte_path_inject [simp]: "byte_path a = byte_path b \<longleftrightarrow> a = b"
proof
  assume eq: "byte_path a = byte_path b"
  have nth: "byte_path x ! i = bit x (7 - i)" if "i < 8" for x i using that by (simp add: byte_path_def)
  show "a = b"
  proof (rule bit_word_eqI)
    fix n assume "n < LENGTH(8)"
    then have "7 - n < 8" "7 - (7 - n) = n" by auto
    then show "bit a n = bit b n" using eq nth [of "7 - n"] by metis
  qed
qed simp

lemma octets_bytes: "Address_of_octets a b c d = Address_of_bytes IPV4 [a, b, c, d]"
proof -
  let ?h = "push_bit 24 (ucast a) OR push_bit 16 (ucast b) OR push_bit 8 (ucast c) OR ucast d :: u32"
  have "htonll (push_bit 32 (ucast ?h)) = le_word [a, b, c, d, 0, 0, 0, 0]"
  proof (rule bit_word_eqI)
    fix n assume "n < LENGTH(64)"
    then have "n < 8 * 8" by simp
    then obtain q r where q: "q < 8" "r < 8" "n = 8 * q + r" by (rule split_byte_index)
    show "bit (htonll (push_bit 32 (ucast ?h))) n = bit (le_word [a, b, c, d, 0, 0, 0, 0]) n"
      using less8_cases [OF q(1)] q(2) unfolding q(3) htonll_def bit_bswap64 [OF q(1,2)]
      by (elim disjE;
        simp add: bit_or_iff bit_push_bit_iff bit_drop_bit_eq bit_unsigned_iff u8_bit_high)
  qed
  moreover have "le_word [0, 0, 0, 0, 0, 0, 0, 0] = 0" by simp
  ultimately show ?thesis
   by (simp add: Address_of_octets_def Address_of_ipv4_def Address_of_bytes_def Address_Length_def numeral_eq_Suc
     del: le_word.simps)
qed

lemma take_byte_path_eq_iff:
  assumes "k \<le> 8"
  shows "take k (byte_path a) = take k (byte_path b) \<longleftrightarrow> drop_bit (8 - k) a = drop_bit (8 - k) b"
proof -
  have "take k (byte_path a) = take k (byte_path b) \<longleftrightarrow> (\<forall>i<k. bit a (7 - i) = bit b (7 - i))"
    using assms by (auto simp: list_eq_iff_nth_eq byte_path_def)
  also have "\<dots> \<longleftrightarrow> (\<forall>n. bit a (8 - k + n) = bit b (8 - k + n))"
  proof safe
    fix n assume h: "\<forall>i<k. bit a (7 - i) = bit b (7 - i)"
    have "bit a (8 - k + n) = bit b (8 - k + n)"
    proof (cases "8 - k + n < 8")
      case True
      then have "k - 1 - n < k" "7 - (k - 1 - n) = 8 - k + n" using assms by auto
      then show ?thesis using h by metis
    qed (simp add: u8_bit_high)
    then show "bit a (8 - k + n) \<Longrightarrow> bit b (8 - k + n)" "bit b (8 - k + n) \<Longrightarrow> bit a (8 - k + n)"
      by auto
  next
    fix i assume h: "\<forall>n. bit a (8 - k + n) = bit b (8 - k + n)" "i < k"
    then have "8 - k + (k - 1 - i) = 7 - i" using assms by auto
    then show "bit a (7 - i) \<Longrightarrow> bit b (7 - i)" "bit b (7 - i) \<Longrightarrow> bit a (7 - i)"
      using h(1) by metis+
  qed
  also have "\<dots> \<longleftrightarrow> drop_bit (8 - k) a = drop_bit (8 - k) b"
  proof
    assume h: "\<forall>n. bit a (8 - k + n) = bit b (8 - k + n)"
    show "drop_bit (8 - k) a = drop_bit (8 - k) b"
      by (rule bit_word_eqI) (simp add: bit_drop_bit_eq h)
  next
    assume "drop_bit (8 - k) a = drop_bit (8 - k) b"
    then show "\<forall>n. bit a (8 - k + n) = bit b (8 - k + n)"
      by (metis bit_drop_bit_eq comp_apply)
  qed
  finally show ?thesis .
qed

lemma addr_path_octets:
  "addr_path (Address_of_octets a b c d) =
     byte_path a @ byte_path b @ byte_path c @ byte_path d @ replicate 96 False"
  by (simp add: octets_bytes addr_path_bytes Address_Length_def)

lemma family_octets [simp]: "addr_family (Address_of_octets a b c d) = IPV4"
  by (simp add: Address_of_octets_def Address_of_ipv4_def)

lemma Contains_mk_v4:
  assumes "k \<le> 32" "addr_family a = IPV4" "addr_family x = IPV4"
  shows "IPNet_Contains (IPNet_mk a k i) x \<longleftrightarrow> take k (addr_path x) = take k (addr_path a)"
  using assms by (simp add: Contains_iff_prefix net_path_def net_bits_mk IPNet_family_def Address_Length_def)

lemma u8_drop_bit_eq_1:
  "drop_bit k (b :: u8) = 1 \<longleftrightarrow> unat b div 2 ^ k = 1"
proof -
  have "drop_bit k b = 1 \<longleftrightarrow> unat (drop_bit k b) = unat (1 :: u8)"
    by (rule word_unat_eq_iff)
  also have "unat (drop_bit k b) = drop_bit k (unat b)"
    by (rule unat_drop_bit_eq)
  finally show ?thesis by (simp only: drop_bit_eq_div unsigned_1)
qed

lemma u8_ranges:
  "drop_bit 6 b = (1 :: u8) \<longleftrightarrow> 64 \<le> b \<and> b \<le> 127"
  "drop_bit 4 b = (1 :: u8) \<longleftrightarrow> 16 \<le> b \<and> b \<le> 31"
  unfolding u8_drop_bit_eq_1 by (simp_all add: word_le_nat_alt) arith+

lemma IsPublic_octets:
  "Address_IsPublic (Address_of_octets a b c d) \<longleftrightarrow>
     \<not> (a = 10 \<or> a = 100 \<and> 64 \<le> b \<and> b \<le> 127 \<or> a = 169 \<and> b = 254 \<or>
        a = 172 \<and> 16 \<le> b \<and> b \<le> 31 \<or> a = 192 \<and> b = 168)"
  using take_byte_path_eq_iff [of 2 b 64] take_byte_path_eq_iff [of 4 b 16]
  by (simp add: Address_IsPublic_def PrivateNetworks_of_def PrivateIPv4Networks_def Contains_mk_v4
      addr_path_octets u8_ranges)

section \<open>IPv4-mapped addresses\<close>

lemma bit_mapped_prefix: "bit (0x0000ffff00000000 :: u64) n \<longleftrightarrow> 32 \<le> n \<and> n < 48"
proof -
  have "(0x0000ffff00000000 :: u64) = push_bit 32 (mask 16)" by (simp add: mask_eq_exp_minus_1)
  then have "bit (0x0000ffff00000000 :: u64) n = bit (push_bit 32 (mask 16) :: u64) n" by (rule arg_cong)
  also have "\<dots> \<longleftrightarrow> 32 \<le> n \<and> n < 48" unfolding bit_push_bit_iff bit_mask_iff by auto
  finally show ?thesis .
qed

lemma word_path_or_mapped:
  assumes "\<And>n. bit m n \<longleftrightarrow> 32 \<le> n \<and> n < 48"
  shows "word_path (m OR drop_bit 32 v) =
        replicate 16 False @ replicate 16 True @ take 32 (word_path v)"
  by (rule nth_equalityI)
     (auto simp: nth_word_path nth_append bit_or_iff bit_drop_bit_eq assms u64_bit_high)


lemma addr_path_ToV6:
  assumes "addr_family a = IPV4"
  shows "addr_path (Address_ToV6 a) =
    replicate 80 False @ replicate 16 True @ take 32 (addr_path a)"
proof -
  let ?v = "ntohll (fst (addr_data a))"
  have "word_path (0x0000ffff00000000 OR drop_bit 32 ?v) =
        replicate 16 False @ replicate 16 True @ take 32 (word_path ?v)"
    by (rule word_path_or_mapped) (rule bit_mapped_prefix)
  moreover have "word_path 0 = replicate 64 False"
    by (simp add: word_path_def map_replicate_const)
  ultimately show ?thesis using assms
    by (simp add: Address_ToV6_def Let_def Address_of_ipv6_def addr_path_def replicate_add [symmetric] flip: append_assoc)
qed

lemma family_ToV6: "addr_family a = IPV4 \<Longrightarrow> addr_family (Address_ToV6 a) = IPV6"
  by (simp add: Address_ToV6_def Let_def Address_of_ipv6_def)

lemma Contains_ToV6:
  assumes "addr_family a = IPV4" "addr_family x = IPV4" "k \<le> 32"
  shows "IPNet_Contains (IPNet_mk (Address_ToV6 a) (k + 96) i) (Address_ToV6 x) \<longleftrightarrow>
         IPNet_Contains (IPNet_mk a k j) x"
proof -
  have "take (k + 96) (addr_path (Address_ToV6 y)) =
        replicate 80 False @ replicate 16 True @ take k (addr_path y)" if "addr_family y = IPV4" for y
    using that assms(3) by (simp add: addr_path_ToV6 min_def)
  then show ?thesis using assms
    by (simp add: Contains_iff_prefix net_path_def net_bits_mk IPNet_family_def Address_Length_def family_ToV6 min_absorb1)
qed

lemma not_Contains_ula:
  assumes "addr_family x = IPV4"
  shows "\<not> IPNet_Contains (IPNet_mk (Address_of_ipv6 (htonll 0xfd00000000000000) 0) 8 False) (Address_ToV6 x)"
proof -
  have "hd (take 8 (addr_path (Address_ToV6 x))) = False"
    using assms by (simp add: addr_path_ToV6 numeral_eq_Suc)
  moreover have "hd (take 8 (addr_path (Address_of_ipv6 (htonll 0xfd00000000000000) 0)))"
    by (simp add: addr_path_def Address_of_ipv6_def hd_append hd_conv_nth nth_word_path flip: length_0_conv)
  ultimately have "take 8 (addr_path (Address_ToV6 x)) \<noteq>
      take 8 (addr_path (Address_of_ipv6 (htonll 0xfd00000000000000) 0))" by metis
  moreover have "addr_family (Address_of_ipv6 (htonll 0xfd00000000000000) 0) = IPV6"
    by (simp add: Address_of_ipv6_def)
  ultimately show ?thesis
    by (simp add: Contains_iff_prefix net_path_def net_bits_mk Address_Length_def)
qed

lemma private_v4_shape:
  assumes "n \<in> set PrivateIPv4Networks"
  shows "n = IPNet_mk (net_address n) (net_bits n) False \<and> addr_family (net_address n) = IPV4 \<and>
    net_bits n \<le> 32"
  using assms by (auto simp: PrivateIPv4Networks_def net_bits_mk Address_Length_def)

lemma private_v4_ToV6:
  assumes "n \<in> set PrivateIPv4Networks" "addr_family x = IPV4"
  shows "IPNet_Contains (IPNet_mk (Address_ToV6 (net_address n)) (net_bits n + 96) False) (Address_ToV6 x) =
    IPNet_Contains n x"
  using private_v4_shape [OF assms(1)] assms(2) Contains_ToV6 [of "net_address n" x "net_bits n" False False]
  by simp

lemma IsPublic_ToV6:
  assumes "addr_family a = IPV4"
  shows "Address_IsPublic (Address_ToV6 a) = Address_IsPublic a"
  using assms
  by (simp add: Address_IsPublic_def PrivateNetworks_of_def PrivateIPv6Networks_def
     family_ToV6 not_Contains_ula list_all_iff private_v4_ToV6)

lemma take_word_path_byte: "take 8 (word_path (push_bit 56 (ucast (b :: u8)))) = byte_path b"
  by (rule nth_equalityI)
     (auto simp: nth_word_path byte_path_def bit_push_bit_iff bit_unsigned_iff)

lemma IsLocal_v4:
  assumes "addr_family a = IPV4"
  shows "Address_IsLocal a \<longleftrightarrow> take 8 (addr_path a) = byte_path 127"
proof -
  let ?v = "ntohll (fst (addr_data a))"
  have m: "0xff00000000000000 = last_mask 8" by (simp add: last_mask_def mask_eq_exp_minus_1)
  have "Address_IsLocal a \<longleftrightarrow> ?v AND 0xff00000000000000 = 0x7f00000000000000"
    using assms by (simp add: Address_IsLocal_def byte_order)
  also have "\<dots> \<longleftrightarrow> ?v AND last_mask 8 = 0x7f00000000000000 AND last_mask 8"
    unfolding m [symmetric] by simp
  also have "\<dots> \<longleftrightarrow> take 8 (word_path ?v) = take 8 (word_path 0x7f00000000000000)"
    by (rule and_last_mask_eq_iff) simp
  also have "take 8 (word_path 0x7f00000000000000) = byte_path 127"
    using take_word_path_byte [of 127] by simp
  finally show ?thesis by (simp add: take_addr_path)
qed

lemma IsLocal_mapped:
  assumes "fst (addr_data b) = 0" "addr_family b = IPV6"
  shows "Address_IsLocal b \<longleftrightarrow> snd (addr_data b) = htonll 1 \<or>
    take 104 (addr_path b) = replicate 80 False @ replicate 16 True @ byte_path 127"
proof -
  let ?v = "ntohll (snd (addr_data b))"
  have m: "0xffffffffff000000 = last_mask 40" by (simp add: last_mask_def mask_eq_exp_minus_1)
  have "?v AND 0xffffffffff000000 = 0x0000ffff7f000000 \<longleftrightarrow>
        ?v AND last_mask 40 = 0x0000ffff7f000000 AND last_mask 40"
    unfolding m [symmetric] by simp
  also have "\<dots> \<longleftrightarrow> take 40 (word_path ?v) = take 40 (word_path 0x0000ffff7f000000)"
    by (rule and_last_mask_eq_iff) simp
  also have "take 40 (word_path 0x0000ffff7f000000) = replicate 16 False @ replicate 16 True @ byte_path 127"
    using word_path_or_mapped [OF bit_mapped_prefix, of "push_bit 56 (ucast (127 :: u8))"]
      take_word_path_byte [of 127]
    by simp
  finally have "?v AND 0xffffffffff000000 = 0x0000ffff7f000000 \<longleftrightarrow>
    take 40 (word_path ?v) = replicate 16 False @ replicate 16 True @ byte_path 127" .
  moreover have "word_path 0 = replicate 64 False"
    by (simp add: word_path_def map_replicate_const)
  moreover have "(replicate 80 False :: bool list) = replicate 64 False @ replicate 16 False"
    by (simp flip: replicate_add)
  ultimately show ?thesis using assms
    by (simp add: Address_IsLocal_def byte_order take_addr_path)
qed

lemma IsLocal_ToV6:
  assumes "addr_family a = IPV4"
  shows "Address_IsLocal (Address_ToV6 a) = Address_IsLocal a"
proof -
  let ?b = "Address_ToV6 a"
  let ?w = "0x0000ffff00000000 OR drop_bit 32 (ntohll (fst (addr_data a)))"
  have b: "?b = Address_of_ipv6 0 (htonll ?w)" using assms by (simp add: Address_ToV6_def)
  have "bit ?w 32" by (simp add: bit_or_iff)
  then have "?w \<noteq> 1" by (auto simp: bit_1_iff)
  then have "snd (addr_data ?b) \<noteq> htonll 1" by (simp add: b Address_of_ipv6_def byte_order)
  moreover have "take 104 (addr_path ?b) = replicate 80 False @ replicate 16 True @ take 8 (addr_path a)"
    using assms by (simp add: addr_path_ToV6)
  ultimately show ?thesis
    using assms by (subst IsLocal_mapped) (simp_all add: family_ToV6 IsLocal_v4 b Address_of_ipv6_def)
qed

section \<open>Key equality\<close>

text \<open>
  \<open>IPNet::operator==\<close> compares addresses when its left operand is an address and masks
  otherwise, so it is an equivalence only where the two operands agree on \<open>is_addr_\<close>
  whenever they agree on the prefix length. \<open>net_carrier K\<close> is such a set: \<open>K\<close> tells for
  which prefix lengths networks are addresses. Connections read from the system hold
  addresses only (\<open>K = (\<lambda>_. True)\<close>).
\<close>

definition net_carrier :: "(nat \<Rightarrow> bool) \<Rightarrow> IPNet set" where
  "net_carrier K = {n. net_is_addr n = K (net_bits n)}"

interpretation net_keys: key_equality IPNet_eq "net_carrier K" for K
  by unfold_locales (auto simp: IPNet_eq_def Address_eq_def net_carrier_def split: if_splits)

definition conn_carrier :: "(nat \<Rightarrow> bool) \<Rightarrow> (nat \<Rightarrow> bool) \<Rightarrow> Connection set" where
  "conn_carrier L R = {c. ep_network (conn_local c) \<in> net_carrier L \<and> ep_network (conn_remote c) \<in> net_carrier R}"

interpretation conn_keys: key_equality Connection_eq "conn_carrier L R" for L R
  by unfold_locales
     (auto simp: Connection_eq_def Endpoint_eq_def conn_carrier_def
       intro: net_keys.eq_refl net_keys.eq_sym net_keys.eq_trans)

definition cep_carrier :: "(nat \<Rightarrow> bool) \<Rightarrow> ContainerEndpoint set" where
  "cep_carrier K = {c. ep_network (cep_endpoint c) \<in> net_carrier K}"

interpretation cep_keys: key_equality ContainerEndpoint_eq "cep_carrier K" for K
  by unfold_locales
     (auto simp: ContainerEndpoint_eq_def Endpoint_eq_def cep_carrier_def
       intro: net_keys.eq_refl net_keys.eq_sym net_keys.eq_trans)

lemma net_eq_refl [simp]: "IPNet_eq n n" "Endpoint_eq e e" "Connection_eq c c" "ContainerEndpoint_eq x x"
  by (simp_all add: IPNet_eq_def Address_eq_def Endpoint_eq_def Connection_eq_def ContainerEndpoint_eq_def)

text \<open>A connection of a client in container c1 to 1.2.3.4, port 80, for examples.\<close>

definition example_conn :: Connection where
  "example_conn = Connection_mk ''c1'' (Endpoint_of_address (Address_of_octets 10 0 0 1) 40000)
     (Endpoint_of_address (Address_of_octets 1 2 3 4) 80) TCP False"

lemma example_conn_carrier: "example_conn \<in> conn_carrier (\<lambda>_. True) (\<lambda>_. True)"
  by (simp add: example_conn_def Connection_mk_def Endpoint_of_address_def IPNet_of_address_def
      conn_carrier_def net_carrier_def)

lemma IPNet_eq_not_symmetric:
  "\<exists>n m. wf_net n \<and> wf_net m \<and> IPNet_eq n m \<and> \<not> IPNet_eq m n"
proof (intro exI conjI)
  let ?n = "IPNet_mk (Address_of_octets 1 2 0 0) 16 False"
  let ?m = "IPNet_mk (Address_of_octets 1 2 3 4) 16 True"
  show "wf_net ?n" "wf_net ?m" by simp_all
  show "IPNet_eq ?n ?m"
    by (simp add: IPNet_eq_def IPNet_mk_def Address_Length_def Address_of_octets_def
        Address_of_ipv4_def last_mask_def mask_eq_exp_minus_1)
  show "\<not> IPNet_eq ?m ?n"
    by (simp add: IPNet_eq_def IPNet_mk_def Address_Length_def Address_of_octets_def
        Address_of_ipv4_def Address_eq_def byte_order)
qed

lemma Connection_flags:
  assumes "p \<in> {L4_UNKNOWN, TCP, UDP, ICMP}"
  shows "Connection_l4proto (Connection_mk c l r p s) = p \<and> Connection_is_server (Connection_mk c l r p s) = s"
  using assms by (cases s) (auto simp: Connection_l4proto_def Connection_is_server_def Connection_mk_def L4Proto_value_def L4Proto_of_value_def)

section \<open>Properties\<close>

text \<open>
  a network built from an address and a prefix length contains exactly the addresses of
  its own family whose first bits agree with it, the length being clamped to the width of the
  family. The code compares whole 64-bit words in network order and one last partial word in
  host order; the property is about the bits of the addresses, for every length and family.
\<close>

theorem Contains_iff_same_prefix:
  "IPNet_Contains (IPNet_mk a bits is_addr) x \<longleftrightarrow>
     addr_family x = addr_family a \<and>
     take (min bits (8 * Address_Length (addr_family a))) (addr_path x) =
     take (min bits (8 * Address_Length (addr_family a))) (addr_path a)"
  by (simp add: Contains_iff_prefix net_path_def net_bits_mk IPNet_family_def)

text \<open>
  an IPv4 address is public exactly when it lies outside 10.0.0.0/8, 100.64.0.0/10,
  169.254.0.0/16, 172.16.0.0/12 and 192.168.0.0/16, written on its octets.
\<close>

theorem IsPublic_octets_iff:
  "Address_IsPublic (Address_of_octets a b c d) \<longleftrightarrow>
     \<not> (a = 10 \<or> a = 100 \<and> 64 \<le> b \<and> b \<le> 127 \<or> a = 169 \<and> b = 254 \<or>
        a = 172 \<and> 16 \<le> b \<and> b \<le> 31 \<or> a = 192 \<and> b = 168)"
  by (rule IsPublic_octets)

text \<open>
  mapping an IPv4 address into IPv6 keeps its classification: the mapped address is public,
  and it is a loopback address, exactly when the IPv4 address is.
\<close>

theorem ToV6_keeps_classification:
  assumes "addr_family a = IPV4"
  shows "Address_IsPublic (Address_ToV6 a) = Address_IsPublic a \<and>
         Address_IsLocal (Address_ToV6 a) = Address_IsLocal a"
  using IsPublic_ToV6 [OF assms] IsLocal_ToV6 [OF assms] by simp

theorem ToV6_keeps_classification_witness:
  "addr_family (Address_of_octets 127 0 0 1) = IPV4 \<and>
   Address_IsPublic (Address_ToV6 (Address_of_octets 127 0 0 1)) =
     Address_IsPublic (Address_of_octets 127 0 0 1) \<and>
   Address_IsLocal (Address_ToV6 (Address_of_octets 127 0 0 1)) =
     Address_IsLocal (Address_of_octets 127 0 0 1)"
  using ToV6_keeps_classification [of "Address_of_octets 127 0 0 1"] by simp

text \<open>
  \<open>IPNet::parse\<close> on a string with a slash. The text before the first slash is resolved as
  an address, the text after it converted as a signed decimal number and then truncated to 32
  bits; a conversion error or an unresolved address gives no network. The result is marked as
  an address exactly when the truncated prefix length is not zero.
\<close>

theorem IPNet_parse_slash:
  assumes "CHR ''/'' \<notin> set s"
  shows "IPNet_parse gai stack (s @ CHR ''/'' # t) =
    (case stol t of
       Inl _ \<Rightarrow> None
     | Inr v \<Rightarrow> map_option (\<lambda>a. IPNet_mk a (nat (v mod 2 ^ 32)) (v mod 2 ^ 32 \<noteq> 0))
                 (Address_parse gai stack s))"
proof -
  have "find_char (CHR ''/'') (s @ CHR ''/'' # t) = Some (length s)"
    using assms by (induction s) auto
  moreover have "remove_suffix (length (s @ CHR ''/'' # t) - length s) (s @ CHR ''/'' # t) = s"
    by (simp add: remove_suffix_def)
  moreover have "unat (word_of_int v :: u32) = nat (v mod 2 ^ 32)" for v
    by (simp add: unsigned_of_int take_bit_eq_mod)
  moreover have "(word_of_int v :: u32) = 0 \<longleftrightarrow> v mod 2 ^ 32 = 0" for v
    by (simp add: word_of_int_eq_0_iff dvd_eq_mod_eq_0)
  ultimately show ?thesis
    by (auto simp: IPNet_parse_def Let_def split: sum.split option.split)
qed

theorem IPNet_parse_slash_witness:
  "IPNet_parse (\<lambda>s. (0, Some (2 # replicate 15 0))) (replicate 128 0) ''h/8'' =
     map_option (\<lambda>a. IPNet_mk a 8 True)
       (Address_parse (\<lambda>s. (0, Some (2 # replicate 15 0))) (replicate 128 0) ''h'') \<and>
   Address_parse (\<lambda>s. (0, Some (2 # replicate 15 0))) (replicate 128 0) ''h'' = Some (Address_of_family IPV4)"
proof -
  have "Address_parse (\<lambda>s. (0, Some (2 # replicate 15 0))) (replicate 128 0) ''h'' = Some (Address_of_family IPV4)"
    by code_simp
  moreover have "stol ''8'' = Inr 8" by code_simp
  ultimately show ?thesis
    using IPNet_parse_slash [of "''h''" "\<lambda>s. (0, Some (2 # replicate 15 0))" "replicate 128 0" "''8''"] by simp
qed

text \<open>
  the flags byte of a connection round-trips the protocol and the role for every named
  protocol.
\<close>

theorem Connection_flags_roundtrip:
  assumes "p = L4_UNKNOWN \<or> p = TCP \<or> p = UDP \<or> p = ICMP"
  shows "Connection_l4proto (Connection_mk c l r p s) = p \<and>
         Connection_is_server (Connection_mk c l r p s) = s"
  using Connection_flags [of p c l r s] assms by auto

theorem Connection_flags_roundtrip_witness:
  "Connection_l4proto (Connection_mk ''c'' Endpoint_default Endpoint_default UDP True) = UDP \<and>
   Connection_is_server (Connection_mk ''c'' Endpoint_default Endpoint_default UDP True)"
  using Connection_flags_roundtrip [of UDP "''c''" Endpoint_default Endpoint_default True] by simp

end
