(* ===== verification/NRadix.thy ===== *)
theory NRadix
  imports NetworkConnection "HOL-Library.Sublist"
begin

text \<open>
  The network radix tree of \<open>NRadix.h\<close> and \<open>NRadix.cpp\<close>. A node pointer is a value of
  \<open>nRadixNode\<close>; the null pointer is \<open>Nullptr\<close>. The loops of \<open>Insert\<close> and \<open>Find\<close> keep the
  cursor of the code: the probed bit, the number \<open>i\<close> of exhausted words and the position \<open>p\<close>
  of \<open>addr_p\<close> and \<open>net_mask_p\<close> in their arrays.

  The loops are related to \<open>path_insert\<close> and \<open>path_find\<close>, which follow the bits of
  \<open>net_path\<close>, and the tree to the finite map \<open>stored\<close> from paths to networks. The locale
  \<open>network_tree\<close> is what the clients of the tree rely on.
\<close>

section \<open>Nodes\<close>

datatype nRadixNode =
  Nullptr
| Node (node_value: "IPNet option") (node_left: nRadixNode) (node_right: nRadixNode)

definition nRadixNode_new :: nRadixNode where
  "nRadixNode_new = Node None Nullptr Nullptr"

fun set_value :: "IPNet \<Rightarrow> nRadixNode \<Rightarrow> nRadixNode" where
  "set_value n Nullptr = Nullptr"
| "set_value n (Node v l r) = Node (Some n) l r"

fun set_left :: "nRadixNode \<Rightarrow> nRadixNode \<Rightarrow> nRadixNode" where
  "set_left c Nullptr = Nullptr"
| "set_left c (Node v l r) = Node v c r"

fun set_right :: "nRadixNode \<Rightarrow> nRadixNode \<Rightarrow> nRadixNode" where
  "set_right c Nullptr = Nullptr"
| "set_right c (Node v l r) = Node v l c"

section \<open>The cursor of the loops\<close>

definition top_bit :: u64 where
  "top_bit = 0x8000000000000000"

definition word_at :: "u64x2 \<Rightarrow> nat \<Rightarrow> u64" where
  "word_at w p = (if p = 0 then fst w else snd w)"

text \<open>\<open>bit & *net_mask_p\<close> and \<open>ntohll( *addr_p ) & bit\<close>.\<close>

definition in_mask :: "IPNet \<Rightarrow> u64 \<Rightarrow> nat \<Rightarrow> bool" where
  "in_mask network b p = ((b AND word_at (IPNet_net_mask_array network) p) \<noteq> 0)"

definition goes_right :: "IPNet \<Rightarrow> u64 \<Rightarrow> nat \<Rightarrow> bool" where
  "goes_right network b p =
     ((ntohll (word_at (addr_data (net_address network)) p) AND b) \<noteq> 0)"

text \<open>
  The end of the loop bodies: \<open>bit >>= 1\<close> and, when the word is exhausted, the next word.
  \<open>None\<close> is the \<open>break\<close> after 128 bits.
\<close>

definition advance :: "IPNet \<Rightarrow> u64 \<Rightarrow> nat \<Rightarrow> nat \<Rightarrow> (u64 \<times> nat \<times> nat) option" where
  "advance network b i p =
     (let b' = drop_bit 1 b
      in if b' = 0 then
           (if Suc i \<ge> 2 then None
            else Some (top_bit, Suc i, if net_bits network \<ge> 64 then Suc p else p))
         else Some (b', i, p))"

lemma advance_decreases:
  assumes "advance network b i p = Some (b', i', p')" "b \<noteq> 0"
  shows "2 - i' < 2 - i \<or> (i' = i \<and> unat b' < unat b)"
proof -
  have "unat (drop_bit 1 b) < unat b"
  proof -
    have "unat (drop_bit 1 b) = drop_bit 1 (unat b)" by (rule unat_drop_bit_eq)
    also have "\<dots> = unat b div 2" by (simp add: drop_bit_eq_div)
    finally have "unat (drop_bit 1 b) = unat b div 2" .
    moreover have "unat b \<noteq> 0" using assms(2) by (simp add: unat_eq_0)
    ultimately show ?thesis by simp
  qed
  then show ?thesis using assms(1) by (auto simp: advance_def Let_def split: if_splits)
qed

section \<open>Insert\<close>

text \<open>The second loop: nodes are created below \<open>node\<close> for the bits that remain.\<close>

function Insert_grow :: "IPNet \<Rightarrow> nRadixNode \<Rightarrow> u64 \<Rightarrow> nat \<Rightarrow> nat \<Rightarrow> nRadixNode" where
  "Insert_grow network node b i p =
     (if in_mask network b p then
        (let next =
           (case advance network b i p of
              None \<Rightarrow> set_value network nRadixNode_new
            | Some (b', i', p') \<Rightarrow> Insert_grow network nRadixNode_new b' i' p')
         in if goes_right network b p then set_right next node else set_left next node)
      else set_value network node)"
  by pat_completeness auto
termination
proof (relation "inv_image (less_than <*lex*> less_than)
    (\<lambda>(network, node, b, i, p). (2 - i, unat b))", goal_cases)
  case (2 network node b i p)
  then have "b \<noteq> 0" by (auto simp: in_mask_def)
  then show ?case using advance_decreases [of network b i p] 2 by fastforce
qed auto

text \<open>The tail of the first loop, reached with \<open>next\<close> not null.\<close>

definition Insert_here :: "IPNet \<Rightarrow> nRadixNode \<Rightarrow> nRadixNode \<times> bool" where
  "Insert_here network node =
     (if node_value node \<noteq> None then (node, False) else (set_value network node, True))"

text \<open>The first loop, over the nodes that exist; its result is the updated \<open>node\<close>.\<close>

function Insert_walk :: "IPNet \<Rightarrow> nRadixNode \<Rightarrow> u64 \<Rightarrow> nat \<Rightarrow> nat \<Rightarrow> nRadixNode \<times> bool" where
  "Insert_walk network node b i p =
     (if in_mask network b p then
        (let right = goes_right network b p;
             next = (if right then node_right node else node_left node)
         in if next = Nullptr then (Insert_grow network node b i p, True)
            else
              (let (next', inserted) =
                 (case advance network b i p of
                    None \<Rightarrow> Insert_here network next
                  | Some (b', i', p') \<Rightarrow> Insert_walk network next b' i' p')
               in (if right then set_right next' node else set_left next' node, inserted)))
      else Insert_here network node)"
  by pat_completeness auto
termination
proof (relation "inv_image (less_than <*lex*> less_than)
    (\<lambda>(network, node, b, i, p). (2 - i, unat b))", goal_cases)
  case (2 network node b i p)
  then have "b \<noteq> 0" by (auto simp: in_mask_def)
  then show ?case using advance_decreases [of network b i p] 2 by fastforce
qed auto

definition NRadix_Insert :: "nRadixNode \<Rightarrow> IPNet \<Rightarrow> nRadixNode \<times> bool" where
  "NRadix_Insert root network =
     (if IPNet_IsNull network then (root, False)
      else if net_bits network < 1 \<or> net_bits network > 128 then (root, False)
      else Insert_walk network root top_bit 0 0)"

definition NRadixTree_new :: nRadixNode where
  "NRadixTree_new = nRadixNode_new"

definition NRadixTree_of :: "IPNet list \<Rightarrow> nRadixNode" where
  "NRadixTree_of networks =
     foldl (\<lambda>root network. fst (NRadix_Insert root network)) NRadixTree_new networks"

section \<open>Find\<close>

definition value_or :: "nRadixNode \<Rightarrow> IPNet \<Rightarrow> IPNet" where
  "value_or node ret = (if node \<noteq> Nullptr \<and> node_value node \<noteq> None then the (node_value node) else ret)"

fun Find_loop :: "IPNet \<Rightarrow> nRadixNode \<Rightarrow> u64 \<Rightarrow> nat \<Rightarrow> nat \<Rightarrow> IPNet \<Rightarrow> IPNet" where
  "Find_loop network Nullptr b i p ret = ret"
| "Find_loop network (Node v l r) b i p ret =
     (let ret' = (case v of Some n \<Rightarrow> n | None \<Rightarrow> ret);
          right = goes_right network b p
      in if \<not> in_mask network b p then ret'
         else
           (case advance network b i p of
              None \<Rightarrow> value_or (if right then r else l) ret'
            | Some (b', i', p') \<Rightarrow>
                (if right then Find_loop network r b' i' p' ret'
                 else Find_loop network l b' i' p' ret')))"

definition NRadix_Find :: "nRadixNode \<Rightarrow> IPNet \<Rightarrow> IPNet" where
  "NRadix_Find root network =
     (if IPNet_IsNull network then IPNet_default
      else if net_bits network = 0 then IPNet_default
      else
        (let ret = Find_loop network root top_bit 0 0 IPNet_default
         in if IPNet_family network = IPNet_family ret then ret else IPNet_default))"

definition NRadix_Find_addr :: "nRadixNode \<Rightarrow> Address \<Rightarrow> IPNet" where
  "NRadix_Find_addr root addr = NRadix_Find root (IPNet_of_address addr)"

section \<open>Traversals\<close>

fun getAll :: "nRadixNode \<Rightarrow> IPNet list" where
  "getAll Nullptr = []"
| "getAll (Node v l r) = (case v of Some n \<Rightarrow> [n] | None \<Rightarrow> []) @ getAll l @ getAll r"

definition NRadix_GetAll :: "nRadixNode \<Rightarrow> IPNet list" where
  "NRadix_GetAll root = getAll root"

definition subset_answer :: "Family \<Rightarrow> IPNet option \<Rightarrow> IPNet option \<Rightarrow> bool" where
  "subset_answer family containing_net contained_net =
     (case (containing_net, contained_net) of
        (Some c, Some d) \<Rightarrow>
          (if family = UNKNOWN then IPNet_family c = IPNet_family d
           else IPNet_family c = family \<and> IPNet_family d = family)
      | _ \<Rightarrow> False)"

fun child_left :: "nRadixNode \<Rightarrow> nRadixNode" where
  "child_left Nullptr = Nullptr"
| "child_left (Node v l r) = l"

fun child_right :: "nRadixNode \<Rightarrow> nRadixNode" where
  "child_right Nullptr = Nullptr"
| "child_right (Node v l r) = r"

definition value_else :: "nRadixNode \<Rightarrow> IPNet option \<Rightarrow> IPNet option" where
  "value_else node d =
     (case node of Node (Some n) _ _ \<Rightarrow> Some n | _ \<Rightarrow> d)"

fun isAnyIPNetSubsetUtil ::
  "Family \<Rightarrow> nRadixNode \<Rightarrow> nRadixNode \<Rightarrow> IPNet option \<Rightarrow> IPNet option \<Rightarrow> bool" where
  "isAnyIPNetSubsetUtil family n1 Nullptr containing_net contained_net =
     subset_answer family containing_net contained_net"
| "isAnyIPNetSubsetUtil family n1 (Node v l r) containing_net contained_net =
     (if subset_answer family containing_net contained_net then True
      else
        (let containing' = value_else n1 containing_net;
             contained' = (case v of Some n \<Rightarrow> Some n | None \<Rightarrow> contained_net)
         in isAnyIPNetSubsetUtil family (child_left n1) l containing' contained' \<or>
            isAnyIPNetSubsetUtil family (child_right n1) r containing' contained'))"

definition NRadix_IsEmpty :: "nRadixNode \<Rightarrow> bool" where
  "NRadix_IsEmpty root =
     (node_left root = Nullptr \<and> node_right root = Nullptr \<and> node_value root = None)"

definition NRadix_IsAnyIPNetSubset :: "nRadixNode \<Rightarrow> Family \<Rightarrow> nRadixNode \<Rightarrow> bool" where
  "NRadix_IsAnyIPNetSubset root family other = isAnyIPNetSubsetUtil family root other None None"

definition NRadix_IsAnyIPNetSubset_any :: "nRadixNode \<Rightarrow> nRadixNode \<Rightarrow> bool" where
  "NRadix_IsAnyIPNetSubset_any root other = NRadix_IsAnyIPNetSubset root UNKNOWN other"

section \<open>Paths\<close>

text \<open>The cursor at depth \<open>d\<close>, and the reference operations on paths.\<close>

definition bit_at :: "nat \<Rightarrow> u64" where
  "bit_at d = 2 ^ (63 - d mod 64)"

fun path_insert :: "IPNet \<Rightarrow> bool list \<Rightarrow> nRadixNode \<Rightarrow> nRadixNode \<times> bool" where
  "path_insert n [] t = Insert_here n t"
| "path_insert n (b # bs) t =
     (let c = (if b then node_right t else node_left t);
          res = path_insert n bs (if c = Nullptr then nRadixNode_new else c)
      in (if b then set_right (fst res) t else set_left (fst res) t, snd res))"

fun path_find :: "bool list \<Rightarrow> nRadixNode \<Rightarrow> IPNet option \<Rightarrow> IPNet option" where
  "path_find bs Nullptr ret = ret"
| "path_find [] (Node v l r) ret = (case v of Some n \<Rightarrow> Some n | None \<Rightarrow> ret)"
| "path_find (b # bs) (Node v l r) ret =
     path_find bs (if b then r else l) (case v of Some n \<Rightarrow> Some n | None \<Rightarrow> ret)"

fun stored :: "nRadixNode \<Rightarrow> bool list \<Rightarrow> IPNet option" where
  "stored Nullptr q = None"
| "stored (Node v l r) [] = v"
| "stored (Node v l r) (b # q) = stored (if b then r else l) q"

fun node_at :: "nRadixNode \<Rightarrow> bool list \<Rightarrow> nRadixNode" where
  "node_at t [] = t"
| "node_at Nullptr (b # q) = Nullptr"
| "node_at (Node v l r) (b # q) = node_at (if b then r else l) q"

lemma depth_cases:
  fixes d :: nat
  assumes "d < 128"
  obtains "d < 64" "d div 64 = 0" "d mod 64 = d" | "64 \<le> d" "d div 64 = 1" "d mod 64 = d - 64"
proof (cases "d < 64")
  case True
  then show ?thesis using that(1) by simp
next
  case False
  then have "d = 64 + (d - 64)" "d - 64 < 64" using assms by auto
  then have "d div 64 = 1" "d mod 64 = d - 64" by (simp_all add: div_add_self1 mod_add_self1 div_if mod_if)
  then show ?thesis using that(2) False by simp
qed

lemma and_bit_at: "(w AND bit_at d \<noteq> 0) = bit w (63 - d mod 64)"
  unfolding bit_at_def by (simp add: and_exp_eq_0_iff_not_bit)

lemma and_bit_at': "(bit_at d AND w \<noteq> 0) = bit w (63 - d mod 64)"
  using and_bit_at [of w d] by (simp add: and.commute)

lemma net_mask_array_eq:
  "IPNet_net_mask_array n =
     (if net_bits n < 64 then (last_mask (net_bits n), 0)
      else if net_bits n = 128 then (- 1, - 1)
      else (- 1, last_mask (net_bits n mod 64)))"
proof -
  have ones: "(0xFFFFFFFFFFFFFFFF :: u64) = NOT 0" by simp
  show ?thesis unfolding IPNet_net_mask_array_def ones last_mask_def by simp
qed

lemma in_mask_at:
  assumes "d < 128" "net_bits n \<le> 128"
  shows "in_mask n (bit_at d) (d div 64) \<longleftrightarrow> d < net_bits n"
  using assms(1)
proof (cases rule: depth_cases)
  case 1
  then show ?thesis unfolding in_mask_def and_bit_at'
    by (auto simp: word_at_def net_mask_array_eq bit_last_mask)
next
  case 2
  have "net_bits n mod 64 = net_bits n - 64" if "64 \<le> net_bits n" "net_bits n \<noteq> 128"
    using that assms(2) by (simp add: mod_if)
  with 2 assms show ?thesis unfolding in_mask_def and_bit_at'
    by (auto simp: word_at_def net_mask_array_eq bit_last_mask)
qed

lemma goes_right_at:
  assumes "d < 128"
  shows "goes_right n (bit_at d) (d div 64) = addr_path (net_address n) ! d"
  using assms
proof (cases rule: depth_cases)
  case 1
  then show ?thesis unfolding goes_right_def and_bit_at
    by (simp add: word_at_def addr_path_def nth_append nth_word_path)
next
  case 2
  then show ?thesis using assms unfolding goes_right_def and_bit_at
    by (simp add: word_at_def addr_path_def nth_append nth_word_path)
qed

lemma drop_bit_at: "d mod 64 < 63 \<Longrightarrow> drop_bit 1 (bit_at d) = 2 ^ (62 - d mod 64)"
  unfolding bit_at_def by (intro bit_word_eqI) (auto simp: bit_drop_bit_eq bit_exp_iff)

lemma advance_at:
  assumes "d < net_bits n" "net_bits n \<le> 128"
  shows "advance n (bit_at d) (d div 64) (d div 64) =
    (if Suc d < 128 then Some (bit_at (Suc d), Suc d div 64, Suc d div 64) else None)"
proof -
  have "d < 128" using assms by simp
  then show ?thesis
  proof (cases rule: depth_cases)
    case 1
    show ?thesis
    proof (cases "d = 63")
      case True
      then show ?thesis using assms by (simp add: advance_def bit_at_def top_bit_def)
    next
      case False
      then show ?thesis using 1 drop_bit_at [of d] by (simp add: advance_def bit_at_def)
    qed
  next
    case 2
    show ?thesis
    proof (cases "d = 127")
      case True
      then show ?thesis using assms by (simp add: advance_def bit_at_def top_bit_def)
    next
      case False
      then have "Suc d < 128" "64 \<le> Suc d" using 2 assms by auto
      then have "Suc d div 64 = 1" "Suc d mod 64 = Suc d - 64" using depth_cases [of "Suc d"] by auto
      with 2 False assms drop_bit_at [of d] show ?thesis by (simp add: advance_def bit_at_def)
    qed
  qed
qed

section \<open>The loops follow the path\<close>

lemma drop_net_path:
  assumes "wf_net n" "d < net_bits n"
  shows "drop d (net_path n) = addr_path (net_address n) ! d # drop (Suc d) (net_path n)"
proof -
  have "net_path n ! d = addr_path (net_address n) ! d" using assms by (simp add: net_path_def)
  then show ?thesis
    using assms Cons_nth_drop_Suc [of d "net_path n"] by (simp add: length_net_path)
qed

lemma drop_net_path_all: "wf_net n \<Longrightarrow> drop (net_bits n) (net_path n) = []"
  by (simp add: length_net_path)

lemma bits_0_path [simp]: "bit_at 0 = top_bit"
  by (simp add: bit_at_def top_bit_def)

text \<open>The second loop, on a node that has no child on the path.\<close>

lemma Insert_grow_path:
  assumes "wf_net n" "d \<le> net_bits n" "d < 128" "node = Node v l r"
    and "d < net_bits n \<Longrightarrow> (if addr_path (net_address n) ! d then r else l) = Nullptr"
    and "d = net_bits n \<Longrightarrow> v = None"
  shows "path_insert n (drop d (net_path n)) node =
    (Insert_grow n node (bit_at d) (d div 64) (d div 64), True)"
  using assms(2-6)
proof (induction "net_bits n - d" arbitrary: d node v l r)
  case 0
  then show ?case
    using in_mask_at [of d n] wf_net_bits_128 [OF assms(1)] drop_net_path_all [OF assms(1)]
    by (simp add: Insert_here_def)
next
  case (Suc k)
  then have d: "d < net_bits n" by simp
  note facts = d wf_net_bits_128 [OF assms(1)] in_mask_at [OF Suc.prems(2), of n]
    goes_right_at [OF Suc.prems(2), of n] advance_at [OF d] drop_net_path [OF assms(1) d]
  show ?case
  proof (cases "Suc d < 128")
    case True
    have IH: "path_insert n (drop (Suc d) (net_path n)) nRadixNode_new =
      (Insert_grow n nRadixNode_new (bit_at (Suc d)) (Suc d div 64) (Suc d div 64), True)"
      using Suc d True by (intro Suc.hyps(1) [of _ _ None Nullptr Nullptr]) (auto simp: nRadixNode_new_def)
    show ?thesis
      using facts True Suc.prems IH
      by (subst Insert_grow.simps) (auto simp del: Insert_grow.simps)
  next
    case False
    then have "Suc d = net_bits n" using facts by simp
    then have "drop (Suc d) (net_path n) = []" using drop_net_path_all [OF assms(1)] by simp
    then show ?thesis
      using facts False Suc.prems
      by (subst Insert_grow.simps) (auto simp: Insert_here_def nRadixNode_new_def simp del: Insert_grow.simps)
  qed
qed

lemma Insert_walk_path:
  assumes "wf_net n" "d \<le> net_bits n" "d < 128" "node \<noteq> Nullptr"
  shows "Insert_walk n node (bit_at d) (d div 64) (d div 64) =
    path_insert n (drop d (net_path n)) node"
  using assms(2-4)
proof (induction "net_bits n - d" arbitrary: d node)
  case 0
  then show ?case
    using in_mask_at [of d n] wf_net_bits_128 [OF assms(1)] drop_net_path_all [OF assms(1)] by simp
next
  case (Suc k)
  then have d: "d < net_bits n" by simp
  obtain v l r where node: "node = Node v l r" using Suc.prems(3) by (cases node) auto
  note facts = d wf_net_bits_128 [OF assms(1)] in_mask_at [OF Suc.prems(2), of n]
    goes_right_at [OF Suc.prems(2), of n] advance_at [OF d] drop_net_path [OF assms(1) d]
  let ?next = "if addr_path (net_address n) ! d then r else l"
  show ?case
  proof (cases "?next = Nullptr")
    case True
    then show ?thesis
      using facts node Insert_grow_path [OF assms(1) _ Suc.prems(2) node] 
      by (subst Insert_walk.simps) (auto simp del: Insert_walk.simps Insert_grow.simps path_insert.simps)
  next
    case nxt: False
    show ?thesis
    proof (cases "Suc d < 128")
      case True
      have IH: "Insert_walk n ?next (bit_at (Suc d)) (Suc d div 64) (Suc d div 64) =
        path_insert n (drop (Suc d) (net_path n)) ?next"
        using Suc d True nxt by (intro Suc.hyps(1)) auto
      show ?thesis using facts True IH nxt node
        by (subst Insert_walk.simps) (auto simp: Let_def case_prod_beta simp del: Insert_walk.simps Insert_grow.simps)
    next
      case False
      then have "Suc d = net_bits n" using facts by simp
      then have "drop (Suc d) (net_path n) = []" using drop_net_path_all [OF assms(1)] by simp
      then show ?thesis using facts False nxt node
        by (subst Insert_walk.simps) (auto simp: Let_def case_prod_beta simp del: Insert_walk.simps Insert_grow.simps)
    qed
  qed
qed

lemma path_find_acc:
  "path_find bs t ret = (case path_find bs t None of None \<Rightarrow> ret | Some m \<Rightarrow> Some m)"
proof (induction bs t ret rule: path_find.induct)
  case (3 b bs v l r ret)
  then show ?case by (cases v) (auto split: option.splits)
qed (auto split: option.splits)

lemma Find_loop_path:
  assumes "wf_net n" "d \<le> net_bits n" "d < 128"
  shows "Find_loop n node (bit_at d) (d div 64) (d div 64) ret =
    (case path_find (drop d (net_path n)) node None of None \<Rightarrow> ret | Some m \<Rightarrow> m)"
  using assms(2,3)
proof (induction node arbitrary: d ret)
  case (Node v l r)
  let ?ret = "case v of Some m \<Rightarrow> m | None \<Rightarrow> ret"
  let ?next = "if addr_path (net_address n) ! d then r else l"
  note facts = wf_net_bits_128 [OF assms(1)] in_mask_at [OF Node.prems(2), of n]
    goes_right_at [OF Node.prems(2), of n] advance_at [of d n] drop_net_path [OF assms(1), of d]
  show ?case
  proof (cases "d < net_bits n")
    case False
    then have "drop d (net_path n) = []" using Node.prems drop_net_path_all [OF assms(1)] by simp
    then show ?thesis using facts False by (auto split: option.splits)
  next
    case True
    have pf: "path_find (drop d (net_path n)) (Node v l r) None =
        path_find (drop (Suc d) (net_path n)) ?next v"
      using facts True by (auto split: option.splits)
    show ?thesis
    proof (cases "Suc d < 128")
      case True
      have "Find_loop n ?next (bit_at (Suc d)) (Suc d div 64) (Suc d div 64) ?ret =
        (case path_find (drop (Suc d) (net_path n)) ?next None of None \<Rightarrow> ?ret | Some m \<Rightarrow> m)"
        using Node.IH Node.prems True \<open>d < net_bits n\<close> by auto
      then show ?thesis
        using facts True \<open>d < net_bits n\<close> unfolding pf path_find_acc [of _ ?next v]
        by (auto split: option.splits)
    next
      case False
      then have "Suc d = net_bits n" using facts \<open>d < net_bits n\<close> by simp
      then have "drop (Suc d) (net_path n) = []" using drop_net_path_all [OF assms(1)] by simp
      then show ?thesis
        using facts False \<open>d < net_bits n\<close> unfolding pf path_find_acc [of _ ?next v]
        by (cases ?next) (auto simp: value_or_def split: option.splits)
    qed
  qed
qed simp

section \<open>The tree as a map from paths to networks\<close>

lemma Insert_here_laws:
  assumes "t \<noteq> Nullptr"
  shows "fst (Insert_here n t) \<noteq> Nullptr"
    and "stored (fst (Insert_here n t)) q =
           (if q = [] \<and> stored t [] = None then Some n else stored t q)"
    and "snd (Insert_here n t) \<longleftrightarrow> stored t [] = None"
    and "node_at (fst (Insert_here n t)) q = Nullptr \<longleftrightarrow> node_at t q = Nullptr"
  using assms by (cases t; cases q; auto simp: Insert_here_def)+

lemma stored_new [simp]: "stored nRadixNode_new q = None"
  by (cases q) (auto simp: nRadixNode_new_def)

lemma node_at_new [simp]: "node_at nRadixNode_new q = Nullptr \<longleftrightarrow> q \<noteq> []"
  by (cases q; cases "tl q") (auto simp: nRadixNode_new_def)

lemma new_not_null [simp]: "nRadixNode_new \<noteq> Nullptr"
  by (simp add: nRadixNode_new_def)

lemma node_at_Nullptr [simp]: "node_at Nullptr q = Nullptr"
  by (cases q) auto

lemma path_insert_not_null: "t \<noteq> Nullptr \<Longrightarrow> fst (path_insert n bs t) \<noteq> Nullptr"
  by (cases bs; cases t) (auto simp: Insert_here_laws Let_def)

lemma path_insert_stored:
  "t \<noteq> Nullptr \<Longrightarrow> stored (fst (path_insert n bs t)) q =
     (if q = bs \<and> stored t bs = None then Some n else stored t q)"
proof (induction bs arbitrary: t q)
  case (Cons b bs)
  then show ?case by (cases t; cases q) (auto simp: Let_def)
qed (simp add: Insert_here_laws)

lemma path_insert_flag:
  "t \<noteq> Nullptr \<Longrightarrow> snd (path_insert n bs t) \<longleftrightarrow> stored t bs = None"
proof (induction bs arbitrary: t)
  case (Cons b bs)
  then show ?case by (cases t) (auto simp: Let_def)
qed (simp add: Insert_here_laws)

lemma path_insert_nodes:
  "t \<noteq> Nullptr \<Longrightarrow> node_at (fst (path_insert n bs t)) q \<noteq> Nullptr \<longleftrightarrow>
     node_at t q \<noteq> Nullptr \<or> prefix q bs"
proof (induction bs arbitrary: t q)
  case (Cons b bs)
  then show ?case by (cases t; cases q) (auto simp: Let_def)
qed (auto simp: Insert_here_laws)

lemmas path_insert_laws = path_insert_not_null path_insert_stored path_insert_flag path_insert_nodes

definition tree_inv :: "nRadixNode \<Rightarrow> bool" where
  "tree_inv t \<longleftrightarrow> t \<noteq> Nullptr \<and>
     (\<forall>q n. stored t q = Some n \<longrightarrow> wf_net n \<and> net_path n = q \<and> 1 \<le> net_bits n) \<and>
     (\<forall>q. q \<noteq> [] \<and> node_at t q \<noteq> Nullptr \<longrightarrow> (\<exists>r. stored t (q @ r) \<noteq> None))"

lemma tree_inv_new: "tree_inv NRadixTree_new"
  by (simp add: tree_inv_def NRadixTree_new_def)

lemma tree_inv_storedD:
  "tree_inv t \<Longrightarrow> stored t q = Some n \<Longrightarrow> wf_net n \<and> net_path n = q \<and> 1 \<le> net_bits n"
  by (simp add: tree_inv_def)

lemma NRadix_Insert_eq:
  assumes "wf_net n" "t \<noteq> Nullptr"
  shows "NRadix_Insert t n =
    (if 1 \<le> net_bits n then path_insert n (net_path n) t else (t, False))"
  using assms Insert_walk_path [of n 0 t] wf_net_bits_128 [of n]
  by (auto simp: NRadix_Insert_def IPNet_IsNull_def)

lemma NRadix_Insert_laws:
  assumes "tree_inv t" "wf_net n"
  shows "stored (fst (NRadix_Insert t n)) q =
      (if 1 \<le> net_bits n \<and> q = net_path n \<and> stored t q = None then Some n else stored t q)"
    and "snd (NRadix_Insert t n) \<longleftrightarrow> 1 \<le> net_bits n \<and> stored t (net_path n) = None"
    and "tree_inv (fst (NRadix_Insert t n))"
proof -
  have t: "t \<noteq> Nullptr" using assms(1) by (simp add: tree_inv_def)
  note laws = path_insert_laws [OF t, of n "net_path n"]
  show st: "stored (fst (NRadix_Insert t n)) q =
      (if 1 \<le> net_bits n \<and> q = net_path n \<and> stored t q = None then Some n else stored t q)" for q
    using laws by (auto simp: NRadix_Insert_eq [OF assms(2) t])
  show "snd (NRadix_Insert t n) \<longleftrightarrow> 1 \<le> net_bits n \<and> stored t (net_path n) = None"
    using laws by (simp add: NRadix_Insert_eq [OF assms(2) t])
  show "tree_inv (fst (NRadix_Insert t n))"
  proof (cases "1 \<le> net_bits n")
    case False
    then show ?thesis using assms by (simp add: NRadix_Insert_eq [OF assms(2) t])
  next
    case True
    have "\<exists>r. stored (fst (NRadix_Insert t n)) (q @ r) \<noteq> None"
      if q: "q \<noteq> []" "node_at (fst (NRadix_Insert t n)) q \<noteq> Nullptr" for q
    proof -
      from q True laws(4) have "node_at t q \<noteq> Nullptr \<or> prefix q (net_path n)"
        by (simp add: NRadix_Insert_eq [OF assms(2) t])
      then show ?thesis
      proof
        assume "node_at t q \<noteq> Nullptr"
        then obtain r where "stored t (q @ r) \<noteq> None" using assms(1) q(1)
          unfolding tree_inv_def by blast
        then show ?thesis using st by (intro exI [of _ r]) auto
      next
        assume "prefix q (net_path n)"
        then obtain r where "net_path n = q @ r" by (auto simp: prefix_def)
        then show ?thesis using st True by (intro exI [of _ r]) auto
      qed
    qed
    moreover have "fst (NRadix_Insert t n) \<noteq> Nullptr"
      using True laws(1) by (simp add: NRadix_Insert_eq [OF assms(2) t])
    ultimately show ?thesis using assms st True by (auto simp: tree_inv_def)
  qed
qed

lemma ex_path_iff: "(\<exists>q :: bool list. P q) \<longleftrightarrow> P [] \<or> (\<exists>q. P (False # q)) \<or> (\<exists>q. P (True # q))"
  by (metis (full_types) neq_Nil_conv)

lemma set_getAll: "set (getAll t) = {n. \<exists>q. stored t q = Some n}"
proof (induction t)
  case (Node v l r)
  then show ?case by (subst ex_path_iff) (auto split: option.splits)
qed simp

lemma path_find_None_iff:
  "path_find bs t None = None \<longleftrightarrow> (\<forall>q. prefix q bs \<longrightarrow> stored t q = None)"
proof (induction bs arbitrary: t)
  case Nil
  then show ?case by (cases t) (auto split: option.splits)
next
  case (Cons b bs)
  show ?case
  proof (cases t)
    case (Node v l r)
    have "(\<forall>q. prefix q (b # bs) \<longrightarrow> stored t q = None) \<longleftrightarrow>
        v = None \<and> (\<forall>q. prefix q bs \<longrightarrow> stored (if b then r else l) q = None)"
      unfolding Node by (auto simp: prefix_Cons)
    then show ?thesis
      using Cons.IH [of "if b then r else l"] Node path_find_acc [of bs "if b then r else l" v]
      by (cases v) (auto split: option.splits)
  qed simp
qed

lemma path_find_SomeD:
  "path_find bs t None = Some n \<Longrightarrow>
     \<exists>q. prefix q bs \<and> stored t q = Some n \<and>
       (\<forall>q'. prefix q' bs \<and> stored t q' \<noteq> None \<longrightarrow> prefix q' q)"
proof (induction bs arbitrary: t)
  case Nil
  then show ?case by (cases t) (auto split: option.splits)
next
  case (Cons b bs)
  then obtain v l r where t: "t = Node v l r" by (cases t) auto
  let ?c = "if b then r else l"
  show ?case
  proof (cases "path_find bs ?c None")
    case None
    then have "v = Some n" using Cons.prems t path_find_acc [of bs ?c v] by (cases v) auto
    moreover have "\<forall>q'. prefix q' (b # bs) \<and> stored t q' \<noteq> None \<longrightarrow> q' = []"
      using None t unfolding path_find_None_iff by (auto simp: prefix_Cons)
    ultimately show ?thesis using t by (intro exI [of _ "[]"]) auto
  next
    case (Some m)
    then have "m = n" using Cons.prems t path_find_acc [of bs ?c v] by (cases v) auto
    with Some Cons.IH [of ?c] obtain q where
      "prefix q bs" "stored ?c q = Some n" "\<forall>q'. prefix q' bs \<and> stored ?c q' \<noteq> None \<longrightarrow> prefix q' q"
      by auto
    then show ?thesis using t by (intro exI [of _ "b # q"]) (auto simp: prefix_Cons)
  qed
qed

section \<open>Lookup\<close>

lemma NRadixTree_of_snoc: "NRadixTree_of (ns @ [n]) = fst (NRadix_Insert (NRadixTree_of ns) n)"
  by (simp add: NRadixTree_of_def)

lemma NRadixTree_of_laws:
  assumes "\<forall>n \<in> set ns. wf_net n"
  shows "tree_inv (NRadixTree_of ns) \<and>
    (\<forall>q n. stored (NRadixTree_of ns) q = Some n \<longrightarrow> n \<in> set ns) \<and>
    (\<forall>n \<in> set ns. 1 \<le> net_bits n \<longrightarrow> stored (NRadixTree_of ns) (net_path n) \<noteq> None)"
  using assms
proof (induction ns rule: rev_induct)
  case Nil
  then show ?case using tree_inv_new by (simp add: NRadixTree_of_def NRadixTree_new_def)
next
  case (snoc n ns)
  then have inv: "tree_inv (NRadixTree_of ns)" and n: "wf_net n" by auto
  note laws = NRadix_Insert_laws [OF inv n]
  from snoc laws show ?case
    unfolding NRadixTree_of_snoc by (auto split: if_splits)
qed

text \<open>Networks of different families on one path hide each other.\<close>

definition family_separated :: "IPNet list \<Rightarrow> bool" where
  "family_separated ns \<longleftrightarrow>
     (\<forall>n \<in> set ns. \<forall>m \<in> set ns. prefix (net_path n) (net_path m) \<longrightarrow> IPNet_family n = IPNet_family m)"

lemma NRadix_Find_eq:
  assumes "wf_net n"
  shows "NRadix_Find t n =
    (if net_bits n = 0 then IPNet_default
     else case path_find (net_path n) t None of
            None \<Rightarrow> IPNet_default
          | Some m \<Rightarrow> if IPNet_family n = IPNet_family m then m else IPNet_default)"
  using Find_loop_path [OF assms, of 0 t IPNet_default]
  by (auto simp: NRadix_Find_def IPNet_IsNull_def Let_def split: option.splits)

lemma wf_net_of_address [simp]: "wf_net (IPNet_of_address a)"
  by (simp add: IPNet_of_address_def)

lemma of_address_simps [simp]:
  "IPNet_family (IPNet_of_address a) = addr_family a"
  "net_bits (IPNet_of_address a) = 8 * Address_Length (addr_family a)"
  "net_address (IPNet_of_address a) = a"
  by (simp_all add: IPNet_of_address_def IPNet_family_def net_bits_mk Address_length_def)

lemma prefix_take_iff: "k \<le> length xs \<Longrightarrow> prefix p (take k xs) \<longleftrightarrow> length p \<le> k \<and> take (length p) xs = p"
  by (metis append_eq_conv_conj length_take min_absorb2 prefix_def prefix_length_le take_take min.absorb_iff1 take_is_prefix)

lemma Contains_iff_net_prefix:
  assumes "wf_net m" "IPNet_family m = addr_family a"
  shows "IPNet_Contains m a \<longleftrightarrow> prefix (net_path m) (net_path (IPNet_of_address a))"
proof -
  have "net_bits m \<le> 8 * Address_Length (addr_family a)" using wf_net_bits_le [OF assms(1)] assms(2) by simp
  moreover have "8 * Address_Length (addr_family a) \<le> 128" using Address_Length_le [of "addr_family a"] by simp
  ultimately show ?thesis using assms
    by (simp add: Contains_iff_prefix net_path_def [of "IPNet_of_address a"] prefix_take_iff length_net_path)
qed

lemma IsNull_default [simp]: "IPNet_IsNull IPNet_default"
  by (simp add: IPNet_default_def IPNet_IsNull_def net_bits_mk Address_default_def Address_of_family_def
      Address_Length_def Address_IsNull_def)

lemma Find_addr_hit:
  assumes "tree_inv t" "\<not> IPNet_IsNull (NRadix_Find_addr t a)"
  shows "\<exists>q. stored t q = Some (NRadix_Find_addr t a)"
    and "IPNet_Contains (NRadix_Find_addr t a) a"
proof -
  let ?n = "NRadix_Find_addr t a" and ?p = "net_path (IPNet_of_address a)"
  have "path_find ?p t None = Some ?n \<and> IPNet_family ?n = addr_family a"
    using assms(2) NRadix_Find_eq [of "IPNet_of_address a" t] unfolding NRadix_Find_addr_def
    by (auto split: option.splits if_splits)
  then have found: "path_find ?p t None = Some ?n" and fam: "IPNet_family ?n = addr_family a" by auto
  from path_find_SomeD [OF found] obtain q' where q': "prefix q' ?p" "stored t q' = Some ?n"
    "\<forall>q''. prefix q'' ?p \<and> stored t q'' \<noteq> None \<longrightarrow> prefix q'' q'" by auto
  note wf = tree_inv_storedD [OF assms(1) q'(2)]
  show "\<exists>q. stored t q = Some ?n" using q' by blast
  show "IPNet_Contains ?n a" using wf fam q'(1) by (simp add: Contains_iff_net_prefix)
qed

lemma Find_addr_hit_path:
  assumes "tree_inv t" "\<not> IPNet_IsNull (NRadix_Find_addr t a)" "stored t q = Some m"
    "prefix q (net_path (IPNet_of_address a))"
  shows "net_bits m \<le> net_bits (NRadix_Find_addr t a)"
proof -
  let ?n = "NRadix_Find_addr t a" and ?p = "net_path (IPNet_of_address a)"
  have found: "path_find ?p t None = Some ?n"
    using assms(2) NRadix_Find_eq [of "IPNet_of_address a" t] unfolding NRadix_Find_addr_def
    by (auto split: option.splits if_splits)
  from path_find_SomeD [OF found] obtain q' where q': "stored t q' = Some ?n" "prefix q q'"
    using assms(3,4) by auto
  then have "length q \<le> length q'" by (simp add: prefix_length_le)
  then show ?thesis
    using tree_inv_storedD [OF assms(1,3)] tree_inv_storedD [OF assms(1) q'(1)]
      length_net_path [of m] length_net_path [of ?n] by simp
qed

lemma Find_addr_null:
  assumes "tree_inv t" "IPNet_IsNull (NRadix_Find_addr t a)"
  shows "NRadix_Find_addr t a = IPNet_default"
proof (rule ccontr)
  assume neq: "NRadix_Find_addr t a \<noteq> IPNet_default"
  then have "path_find (net_path (IPNet_of_address a)) t None = Some (NRadix_Find_addr t a)"
    using NRadix_Find_eq [of "IPNet_of_address a" t] unfolding NRadix_Find_addr_def
    by (auto split: option.splits if_splits)
  from path_find_SomeD [OF this] obtain q where "stored t q = Some (NRadix_Find_addr t a)" by blast
  from tree_inv_storedD [OF assms(1) this] assms(2) show False by (simp add: IPNet_IsNull_def)
qed

lemma Find_addr_miss:
  assumes "tree_inv t" "family_separated (getAll t)" "IPNet_IsNull (NRadix_Find_addr t a)"
    "stored t q = Some m"
  shows "\<not> IPNet_Contains m a"
proof
  let ?p = "net_path (IPNet_of_address a)"
  assume "IPNet_Contains m a"
  note wfm = tree_inv_storedD [OF assms(1,4)]
  have fam: "IPNet_family m = addr_family a" using \<open>IPNet_Contains m a\<close> wfm by (simp add: Contains_iff_prefix)
  then have pre: "prefix q ?p" using \<open>IPNet_Contains m a\<close> wfm by (simp add: Contains_iff_net_prefix)
  then obtain n where n: "path_find ?p t None = Some n"
    using assms(4) path_find_None_iff [of ?p t] by (cases "path_find ?p t None") auto
  from path_find_SomeD [OF n] obtain q' where q': "stored t q' = Some n" "prefix q q'"
    using pre assms(4) by auto
  note wfn = tree_inv_storedD [OF assms(1) q'(1)]
  have "IPNet_family m = IPNet_family n"
    using assms(2,4) q' wfn wfm unfolding family_separated_def set_getAll by auto
  moreover have "8 * Address_Length (addr_family a) \<noteq> 0"
    using wf_net_bits_le [of m] wfm fam by auto
  ultimately have "NRadix_Find_addr t a = n"
    using n fam NRadix_Find_eq [of "IPNet_of_address a" t] unfolding NRadix_Find_addr_def by simp
  then show False using assms(3) wfn by (simp add: IPNet_IsNull_def)
qed

text \<open>What the clients of the tree rely on.\<close>

locale network_tree =
  fixes tree_of :: "IPNet list \<Rightarrow> 't" and find :: "'t \<Rightarrow> Address \<Rightarrow> IPNet"
  assumes find_hit: "\<lbrakk>\<forall>n \<in> set ns. wf_net n; \<not> IPNet_IsNull (find (tree_of ns) a)\<rbrakk> \<Longrightarrow>
      find (tree_of ns) a \<in> set ns \<and> 1 \<le> net_bits (find (tree_of ns) a) \<and>
      IPNet_Contains (find (tree_of ns) a) a \<and>
      (\<forall>m \<in> set ns. 1 \<le> net_bits m \<and> IPNet_Contains m a \<longrightarrow>
         net_bits m \<le> net_bits (find (tree_of ns) a))"
    and find_miss: "\<lbrakk>\<forall>n \<in> set ns. wf_net n; family_separated ns;
      IPNet_IsNull (find (tree_of ns) a); m \<in> set ns; 1 \<le> net_bits m\<rbrakk> \<Longrightarrow> \<not> IPNet_Contains m a"
    and find_miss_default: "IPNet_IsNull (find (tree_of ns) a) \<Longrightarrow>
      \<forall>n \<in> set ns. wf_net n \<Longrightarrow> find (tree_of ns) a = IPNet_default"
begin

lemma covered_iff:
  assumes "\<forall>n \<in> set ns. wf_net n" "family_separated ns"
  shows "\<not> IPNet_IsNull (find (tree_of ns) a) \<longleftrightarrow>
    (\<exists>n \<in> set ns. 1 \<le> net_bits n \<and> IPNet_Contains n a)"
  using find_hit [OF assms(1)] find_miss [OF assms] by blast

lemma find_bits_cong:
  assumes "\<forall>n \<in> set ns. wf_net n" "family_separated ns" "set ns = set ms"
  shows "net_bits (find (tree_of ns) a) = net_bits (find (tree_of ms) a)"
proof -
  have wf': "\<forall>n \<in> set ms. wf_net n" "family_separated ms"
    using assms(1,2) unfolding family_separated_def assms(3) by blast+
  have same: "IPNet_IsNull (find (tree_of ns) a) = IPNet_IsNull (find (tree_of ms) a)"
    using covered_iff [OF assms(1,2), of a] covered_iff [OF wf', of a] unfolding assms(3) by blast
  show ?thesis
  proof (cases "IPNet_IsNull (find (tree_of ns) a)")
    case True
    then have "IPNet_IsNull (find (tree_of ms) a)" using same by simp
    then show ?thesis
      using find_miss_default [OF True assms(1)] find_miss_default [OF _ wf'(1)] by metis
  next
    case False
    then show ?thesis
      using same find_hit [OF assms(1) False] find_hit [OF wf'(1), of a] assms(3) by (simp add: le_antisym)
  qed
qed

end

lemma family_separated_tree:
  assumes "\<forall>n \<in> set ns. wf_net n" "family_separated ns"
  shows "family_separated (getAll (NRadixTree_of ns))"
  using assms(2) NRadixTree_of_laws [OF assms(1)]
  by (auto simp: family_separated_def set_getAll)

interpretation radix: network_tree NRadixTree_of NRadix_Find_addr
proof
  fix ns a
  assume wf: "\<forall>n \<in> set ns. wf_net n" and hit: "\<not> IPNet_IsNull (NRadix_Find_addr (NRadixTree_of ns) a)"
  let ?t = "NRadixTree_of ns" and ?n = "NRadix_Find_addr (NRadixTree_of ns) a"
  have inv: "tree_inv ?t" using NRadixTree_of_laws [OF wf] by simp
  from Find_addr_hit(1) [OF inv hit] obtain q where q: "stored ?t q = Some ?n" by blast
  have "net_bits m \<le> net_bits ?n" if "m \<in> set ns" "1 \<le> net_bits m" "IPNet_Contains m a" for m
  proof -
    obtain m' where m': "stored ?t (net_path m) = Some m'"
      using NRadixTree_of_laws [OF wf] \<open>m \<in> set ns\<close> \<open>1 \<le> net_bits m\<close> by fastforce
    note wfm' = tree_inv_storedD [OF inv m']
    have wfm: "wf_net m" using wf \<open>m \<in> set ns\<close> by simp
    have len: "net_bits m = net_bits m'"
      using wfm' wfm length_net_path [of m] length_net_path [of m'] by simp
    have fam: "IPNet_family m = addr_family a" using that(3) wfm by (simp add: Contains_iff_prefix)
    have pre: "prefix (net_path m) (net_path (IPNet_of_address a))"
      using that(3) wfm fam by (simp add: Contains_iff_net_prefix)
    show ?thesis using Find_addr_hit_path [OF inv hit m' pre] len by simp
  qed
  then show "?n \<in> set ns \<and> 1 \<le> net_bits ?n \<and> IPNet_Contains ?n a \<and>
      (\<forall>m \<in> set ns. 1 \<le> net_bits m \<and> IPNet_Contains m a \<longrightarrow> net_bits m \<le> net_bits ?n)"
    using q NRadixTree_of_laws [OF wf] Find_addr_hit(2) [OF inv hit] tree_inv_storedD [OF inv q] by blast
next
  fix ns a m
  assume wf: "\<forall>n \<in> set ns. wf_net n" and sep: "family_separated ns"
    and miss: "IPNet_IsNull (NRadix_Find_addr (NRadixTree_of ns) a)" and m: "m \<in> set ns" "1 \<le> net_bits m"
  have inv: "tree_inv (NRadixTree_of ns)" using NRadixTree_of_laws [OF wf] by simp
  obtain m' where m': "stored (NRadixTree_of ns) (net_path m) = Some m'"
    using NRadixTree_of_laws [OF wf] m by fastforce
  note wfm' = tree_inv_storedD [OF inv m']
  have "m' \<in> set ns" using NRadixTree_of_laws [OF wf] m' by blast
  moreover have "prefix (net_path m) (net_path m')" using wfm' by simp
  ultimately have fam: "IPNet_family m = IPNet_family m'"
    using sep m(1) unfolding family_separated_def by blast
  have wfm: "wf_net m" using wf m(1) by simp
  have "net_bits m = net_bits m'" using wfm' wfm length_net_path [of m] length_net_path [of m'] by simp
  then have "IPNet_Contains m a = IPNet_Contains m' a"
    using wfm wfm' fam by (simp add: Contains_iff_prefix)
  then show "\<not> IPNet_Contains m a"
    using Find_addr_miss [OF inv family_separated_tree [OF wf sep] miss m'] by simp
next
  fix ns a
  assume miss: "IPNet_IsNull (NRadix_Find_addr (NRadixTree_of ns) a)" and wf: "\<forall>n \<in> set ns. wf_net n"
  show "NRadix_Find_addr (NRadixTree_of ns) a = IPNet_default"
    using Find_addr_null [OF _ miss] NRadixTree_of_laws [OF wf] by simp
qed

section \<open>Subset queries\<close>

lemma value_else_path_find: "value_else t c = path_find [] t c"
  by (cases t) (auto simp: value_else_def split: option.splits)

lemma path_find_child:
  "path_find (b # q) t c = path_find q (if b then child_right t else child_left t) (value_else t c)"
  by (cases t) (auto simp: value_else_def split: option.splits)

text \<open>The recursion compares, at every node of the second tree, the deepest networks above it.\<close>

lemma isAnyIPNetSubsetUtil_iff:
  "isAnyIPNetSubsetUtil f n1 n2 c d \<longleftrightarrow>
     subset_answer f c d \<or>
     (\<exists>q. node_at n2 q \<noteq> Nullptr \<and> subset_answer f (path_find q n1 c) (path_find q n2 d))"
proof (induction n2 arbitrary: n1 c d)
  case (Node v l r)
  let ?c = "value_else n1 c" and ?d = "case v of Some n \<Rightarrow> Some n | None \<Rightarrow> d"
  have "(\<exists>q. node_at (Node v l r) q \<noteq> Nullptr \<and>
          subset_answer f (path_find q n1 c) (path_find q (Node v l r) d)) \<longleftrightarrow>
        subset_answer f ?c ?d \<or>
        (\<exists>q. node_at l q \<noteq> Nullptr \<and> subset_answer f (path_find q (child_left n1) ?c) (path_find q l ?d)) \<or>
        (\<exists>q. node_at r q \<noteq> Nullptr \<and> subset_answer f (path_find q (child_right n1) ?c) (path_find q r ?d))"
    by (subst ex_path_iff) (simp add: path_find_child value_else_path_find)
  then show ?case using Node.IH by (auto simp: Let_def)
qed simp

lemma path_find_node_at:
  "path_find q t None = Some n \<Longrightarrow> \<exists>r. stored t r = Some n \<and> prefix r q"
  using path_find_SomeD by blast

lemma node_at_prefix: "node_at t q \<noteq> Nullptr \<Longrightarrow> prefix r q \<Longrightarrow> node_at t r \<noteq> Nullptr"
proof (induction q arbitrary: t r)
  case (Cons b q)
  then show ?case by (cases t; cases r) (auto split: if_splits)
qed auto

lemma stored_node_at: "stored t q \<noteq> None \<Longrightarrow> node_at t q \<noteq> Nullptr"
proof (induction q arbitrary: t)
  case Nil
  then show ?case by (cases t) auto
next
  case (Cons b q)
  then show ?case by (cases t) (auto split: if_splits)
qed

lemma subset_answer_family:
  "f \<noteq> UNKNOWN \<Longrightarrow> subset_answer f c d \<longleftrightarrow>
     (\<exists>x y. c = Some x \<and> d = Some y \<and> IPNet_family x = f \<and> IPNet_family y = f)"
  by (auto simp: subset_answer_def split: option.splits)

lemma IsAnyIPNetSubset_sound:
  assumes inv: "tree_inv t1" "tree_inv t2" and sep: "family_separated (getAll t1 @ getAll t2)"
    and f: "f \<noteq> UNKNOWN" and yes: "NRadix_IsAnyIPNetSubset t1 f t2"
  shows "\<exists>n1 \<in> set (getAll t1). \<exists>n2 \<in> set (getAll t2).
    IPNet_family n1 = f \<and> IPNet_family n2 = f \<and> prefix (net_path n1) (net_path n2)"
proof -
  from yes f obtain q c d where q: "node_at t2 q \<noteq> Nullptr"
    and c: "path_find q t1 None = Some c" "IPNet_family c = f"
    and d: "path_find q t2 None = Some d" "IPNet_family d = f"
    unfolding NRadix_IsAnyIPNetSubset_def isAnyIPNetSubsetUtil_iff subset_answer_family [OF f]
    by blast
  from path_find_node_at [OF c(1)] obtain qc where qc: "stored t1 qc = Some c" "prefix qc q" by blast
  from path_find_node_at [OF d(1)] obtain qd where qd: "stored t2 qd = Some d" "prefix qd q" by blast
  have paths: "net_path c = qc" "net_path d = qd"
    using tree_inv_storedD [OF inv(1) qc(1)] tree_inv_storedD [OF inv(2) qd(1)] by auto
  have mem: "c \<in> set (getAll t1)" "d \<in> set (getAll t2)" using qc qd by (auto simp: set_getAll)
  show ?thesis
  proof (cases "prefix qc qd")
    case True
    then show ?thesis using mem c d paths by auto
  next
    case False
    then have "qc \<noteq> []" by auto
    moreover have "node_at t2 qc \<noteq> Nullptr" using q qc(2) by (rule node_at_prefix)
    ultimately obtain r m where m: "stored t2 (qc @ r) = Some m"
      using inv(2) unfolding tree_inv_def by blast
    have pm: "net_path m = qc @ r" using tree_inv_storedD [OF inv(2) m] by simp
    have "m \<in> set (getAll t2)" using m by (auto simp: set_getAll)
    moreover have "IPNet_family c = IPNet_family m"
    proof -
      have "prefix (net_path c) (net_path m)" using paths pm by simp
      then show ?thesis using sep mem(1) \<open>m \<in> set (getAll t2)\<close> unfolding family_separated_def by auto
    qed
    ultimately show ?thesis using mem c(2) paths pm by (intro bexI [of _ c] bexI [of _ m]) auto
  qed
qed

lemma IsAnyIPNetSubset_complete:
  assumes inv: "tree_inv t1" "tree_inv t2" and sep: "family_separated (getAll t1 @ getAll t2)"
    and f: "f \<noteq> UNKNOWN" and mem: "n1 \<in> set (getAll t1)" "n2 \<in> set (getAll t2)"
    and fam: "IPNet_family n1 = f" "IPNet_family n2 = f" and pre: "prefix (net_path n1) (net_path n2)"
  shows "NRadix_IsAnyIPNetSubset t1 f t2"
proof -
  let ?q = "net_path n2"
  obtain q1 q2 where q: "stored t1 q1 = Some n1" "stored t2 q2 = Some n2" using mem by (auto simp: set_getAll)
  have paths: "q1 = net_path n1" "q2 = ?q"
    using tree_inv_storedD [OF inv(1) q(1)] tree_inv_storedD [OF inv(2) q(2)] by auto
  obtain c where c: "path_find ?q t1 None = Some c"
    using path_find_None_iff [of ?q t1] q(1) paths pre by (cases "path_find ?q t1 None") auto
  from path_find_node_at [OF c] obtain qc where qc: "stored t1 qc = Some c" "prefix qc ?q" by blast
  have cin: "c \<in> set (getAll t1)" "net_path c = qc"
    using qc tree_inv_storedD [OF inv(1) qc(1)] by (auto simp: set_getAll)
  then have "IPNet_family c = f" using sep mem(2) qc(2) fam(2) unfolding family_separated_def by auto
  moreover have "path_find ?q t2 None = Some n2"
  proof (cases "path_find ?q t2 None")
    case None
    then show ?thesis using path_find_None_iff [of ?q t2] q(2) paths by auto
  next
    case (Some m)
    from path_find_SomeD [OF Some] obtain qm where qm: "prefix qm ?q" "stored t2 qm = Some m" "prefix ?q qm"
      using q(2) paths by auto
    then have "qm = ?q" using prefix_order.antisym by blast
    then show ?thesis using qm q(2) paths Some by simp
  qed
  moreover have "node_at t2 ?q \<noteq> Nullptr" using stored_node_at [of t2 ?q] q(2) paths by simp
  ultimately show ?thesis using c f fam
    unfolding NRadix_IsAnyIPNetSubset_def isAnyIPNetSubsetUtil_iff subset_answer_family [OF f]
    by blast
qed

lemma prefix_iff_contains_base:
  assumes "wf_net n1" "wf_net n2" "IPNet_family n1 = IPNet_family n2"
  shows "prefix (net_path n1) (net_path n2) \<longleftrightarrow>
    net_bits n1 \<le> net_bits n2 \<and> IPNet_Contains n1 (net_address n2)"
  using assms wf_net_bits_128 [OF assms(2)]
  by (simp add: Contains_iff_prefix net_path_def [of n2] prefix_take_iff length_net_path
      IPNet_family_def [of n2])

text \<open>
  Why the families must not share a path: the longer IPv6 prefix 0a01::/16 hides the IPv4
  network 10.0.0.0/8 from an address it contains.
\<close>

lemma Find_hidden_by_other_family:
  "let n4 = IPNet_mk (Address_of_octets 10 0 0 0) 8 False;
       n6 = IPNet_mk (Address_of_bytes IPV6 (10 # 1 # replicate 14 0)) 16 False;
       a = Address_of_octets 10 1 2 3
   in IPNet_Contains n4 a \<and> NRadix_Find_addr (NRadixTree_of [n4, n6]) a = IPNet_default"
proof -
  let ?n4 = "IPNet_mk (Address_of_octets 10 0 0 0) 8 False"
  let ?n6 = "IPNet_mk (Address_of_bytes IPV6 (10 # 1 # replicate 14 0)) 16 False"
  let ?a = "Address_of_octets 10 1 2 3"
  have f6: "addr_family (Address_of_bytes IPV6 bs) = IPV6" for bs
    by (simp add: Address_of_bytes_def Let_def)
  have p6: "net_path ?n6 = byte_path 10 @ byte_path 1"
    by (simp add: net_path_def net_bits_mk f6 Address_Length_def addr_path_bytes)
  have pa: "net_path (IPNet_of_address ?a) = byte_path 10 @ byte_path 1 @ byte_path 2 @ byte_path 3"
    by (simp add: net_path_def Address_Length_def addr_path_octets)
  have wf: "\<forall>n \<in> set [?n4, ?n6]. wf_net n" by simp
  let ?t = "NRadixTree_of [?n4, ?n6]"
  have inv: "tree_inv ?t" using NRadixTree_of_laws [OF wf] by simp
  have "IPNet_Contains ?n4 ?a" by (simp add: Contains_mk_v4 addr_path_octets)
  moreover have "IPNet_IsNull (NRadix_Find_addr ?t ?a)"
  proof (rule ccontr)
    assume hit: "\<not> IPNet_IsNull (NRadix_Find_addr ?t ?a)"
    obtain m where m: "stored ?t (net_path ?n6) = Some m"
      using NRadixTree_of_laws [OF wf] by (auto simp: net_bits_mk f6 Address_Length_def)
    have "16 \<le> net_bits m"
      using tree_inv_storedD [OF inv m] length_net_path [of m] p6 by simp
    then have "16 \<le> net_bits (NRadix_Find_addr ?t ?a)"
      using Find_addr_hit_path [OF inv hit m] p6 pa by simp
    moreover have "NRadix_Find_addr ?t ?a \<in> {?n4, ?n6}"
      using radix.find_hit [OF wf hit] by simp
    ultimately have "NRadix_Find_addr ?t ?a = ?n6" by (auto simp: net_bits_mk Address_Length_def)
    then show False using radix.find_hit [OF wf hit] by (simp add: Contains_iff_prefix IPNet_family_def f6)
  qed
  ultimately show ?thesis using radix.find_miss_default [OF _ wf] by simp
qed

section \<open>Properties\<close>



text \<open>
  C8: inserting a network into a well-formed tree. The tree stays well-formed; a network with
  a zero prefix is refused; a network whose prefix is already stored is refused and the stored
  one kept; otherwise exactly the path of the network is added and every other path keeps what
  it held.
\<close>

theorem Insert_refines_map_update:
  assumes "tree_inv t" "wf_net n"
  shows "tree_inv (fst (NRadix_Insert t n)) \<and>
         snd (NRadix_Insert t n) = (1 \<le> net_bits n \<and> stored t (net_path n) = None) \<and>
         stored (fst (NRadix_Insert t n)) =
           (if snd (NRadix_Insert t n) then (stored t)(net_path n \<mapsto> n) else stored t)"
  using NRadix_Insert_laws [OF assms] by (auto simp: fun_eq_iff)

theorem Insert_refines_map_update_witness:
  "tree_inv NRadixTree_new \<and> wf_net (IPNet_mk (Address_of_octets 10 0 0 0) 8 False) \<and>
   snd (NRadix_Insert NRadixTree_new (IPNet_mk (Address_of_octets 10 0 0 0) 8 False))"
  using Insert_refines_map_update
    [OF tree_inv_new wf_net_mk [of "Address_of_octets 10 0 0 0" 8 False]] tree_inv_new
  by (simp add: net_bits_mk Address_Length_def) (simp add: NRadixTree_new_def)



end
