(* ===== verification/CollectorStats.thy ===== *)
theory CollectorStats
  imports Prelude
begin

text \<open>
  The metrics singleton of \<open>CollectorStats.h\<close>. A counter is a 64-bit atomic integer, so it is
  kept at its width and addition wraps. The singleton is a value that the operations of the
  other components take and return.
\<close>

datatype TimerType =
  net_scrape_read | net_scrape_update | net_fetch_state | net_create_message |
  net_write_message | process_info_wait

datatype CounterType =
  net_conn_updates | net_conn_deltas | net_conn_inactive | net_conn_rate_limited |
  net_cep_updates | net_cep_deltas | net_cep_inactive | net_known_ip_networks |
  net_known_public_ips | process_lineage_counts | process_lineage_total |
  process_lineage_sqr_total | process_lineage_string_total | process_info_hit |
  process_info_miss | rate_limit_flushing_counts | procfs_could_not_open_fd_dir |
  procfs_could_not_open_proc_dir | procfs_could_not_open_pid_dir |
  procfs_could_not_get_network_namespace | procfs_could_not_get_socket_inodes |
  procfs_could_not_read_exe | procfs_could_not_read_cmdline | procfs_zombie_process |
  event_timestamp_distant_past | event_timestamp_future

record CollectorStats =
  cs_timer_count :: "TimerType \<Rightarrow> u64"
  cs_timer_total_us :: "TimerType \<Rightarrow> u64"
  cs_counter :: "CounterType \<Rightarrow> u64"

definition CollectorStats_new :: CollectorStats where
  "CollectorStats_new =
     \<lparr>cs_timer_count = (\<lambda>_. 0), cs_timer_total_us = (\<lambda>_. 0), cs_counter = (\<lambda>_. 0)\<rparr>"

definition CollectorStats_Reset :: "CollectorStats \<Rightarrow> CollectorStats" where
  "CollectorStats_Reset s =
     s\<lparr>cs_timer_count := (\<lambda>_. 0), cs_timer_total_us := (\<lambda>_. 0), cs_counter := (\<lambda>_. 0)\<rparr>"

definition EndTimerAt :: "TimerType \<Rightarrow> u64 \<Rightarrow> CollectorStats \<Rightarrow> CollectorStats" where
  "EndTimerAt i duration_us s =
     s\<lparr>cs_timer_count := (cs_timer_count s)(i := cs_timer_count s i + 1),
       cs_timer_total_us := (cs_timer_total_us s)(i := cs_timer_total_us s i + duration_us)\<rparr>"

definition COUNTER_SET :: "CounterType \<Rightarrow> u64 \<Rightarrow> CollectorStats \<Rightarrow> CollectorStats" where
  "COUNTER_SET i v s = s\<lparr>cs_counter := (cs_counter s)(i := v)\<rparr>"

definition COUNTER_ADD :: "CounterType \<Rightarrow> u64 \<Rightarrow> CollectorStats \<Rightarrow> CollectorStats" where
  "COUNTER_ADD i v s = s\<lparr>cs_counter := (cs_counter s)(i := cs_counter s i + v)\<rparr>"

definition COUNTER_INC :: "CounterType \<Rightarrow> CollectorStats \<Rightarrow> CollectorStats" where
  "COUNTER_INC i s = COUNTER_ADD i 1 s"

definition COUNTER_ZERO :: "CounterType \<Rightarrow> CollectorStats \<Rightarrow> CollectorStats" where
  "COUNTER_ZERO i s = COUNTER_SET i 0 s"

named_theorems counter_simps \<open>reading a counter after an update\<close>

lemma counter_laws [simp, counter_simps]:
  "cs_counter (COUNTER_SET i v s) j = (if j = i then v else cs_counter s j)"
  "cs_counter (COUNTER_ADD i v s) j = (if j = i then cs_counter s i + v else cs_counter s j)"
  "cs_counter (COUNTER_INC i s) j = (if j = i then cs_counter s i + 1 else cs_counter s j)"
  "cs_counter (COUNTER_ZERO i s) j = (if j = i then 0 else cs_counter s j)"
  "cs_counter (EndTimerAt t d s) j = cs_counter s j"
  by (simp_all add: COUNTER_SET_def COUNTER_ADD_def COUNTER_INC_def COUNTER_ZERO_def EndTimerAt_def)

end
