(* ===== verification/RateLimit.thy ===== *)
theory RateLimit
  imports CollectorStats
begin

text \<open>
  The limiters of \<open>RateLimit.h\<close> and \<open>RateLimit.cpp\<close>. \<open>NowMicros\<close> is read up to three times
  by one call of \<open>AllowN\<close>, so a call takes the three readings of the clock as an argument.
  The locale \<open>event_limiter\<close> is the contract of the per-key limiters.
\<close>

section \<open>Token buckets\<close>

text \<open>Integer division of the language: it truncates towards zero.\<close>

definition cdiv :: "int \<Rightarrow> int \<Rightarrow> int" where
  "cdiv a b = (if (a < 0) = (b < 0) then \<bar>a\<bar> div \<bar>b\<bar> else - (\<bar>a\<bar> div \<bar>b\<bar>))"

record TokenBucket =
  tokens :: int
  last_time :: int

definition TokenBucket_new :: TokenBucket where
  "TokenBucket_new = \<lparr>tokens = 0, last_time = 0\<rparr>"

record TimeLimiter =
  burst_size :: int
  refill_time :: int

definition TimeLimiter_mk :: "int \<Rightarrow> int \<Rightarrow> TimeLimiter" where
  "TimeLimiter_mk burst refill = \<lparr>burst_size = burst, refill_time = refill * 1000000\<rparr>"

record Clock =
  now_fill :: int
  now_refill :: int
  now_cap :: int

definition refill_count :: "TimeLimiter \<Rightarrow> int \<Rightarrow> TokenBucket \<Rightarrow> int" where
  "refill_count l now b = cdiv (now - last_time b) (refill_time l)"

definition fill_bucket :: "TimeLimiter \<Rightarrow> int \<Rightarrow> TokenBucket \<Rightarrow> TokenBucket" where
  "fill_bucket l now b = \<lparr>tokens = burst_size l, last_time = now\<rparr>"

definition TimeLimiter_Tokens :: "TimeLimiter \<Rightarrow> int \<Rightarrow> TokenBucket \<Rightarrow> int" where
  "TimeLimiter_Tokens l now b =
     min (burst_size l) (tokens b + refill_count l now b * burst_size l)"

definition AllowN :: "TimeLimiter \<Rightarrow> Clock \<Rightarrow> TokenBucket \<Rightarrow> int \<Rightarrow> TokenBucket \<times> bool" where
  "AllowN l clock b n =
     (let b1 = (if last_time b = 0 then fill_bucket l (now_fill clock) b else b);
          refill = refill_count l (now_refill clock) b1;
          b2 = b1\<lparr>tokens := tokens b1 + refill * burst_size l,
                  last_time := last_time b1 + refill * refill_time l\<rparr>;
          b3 = (if tokens b2 \<ge> burst_size l then fill_bucket l (now_cap clock) b2 else b2)
      in if n > tokens b3 then (b3, False) else (b3\<lparr>tokens := tokens b3 - n\<rparr>, True))"

definition TimeLimiter_Allow :: "TimeLimiter \<Rightarrow> Clock \<Rightarrow> TokenBucket \<Rightarrow> TokenBucket \<times> bool" where
  "TimeLimiter_Allow l clock b = AllowN l clock b 1"

section \<open>Caches\<close>

record RateLimitCache =
  rl_capacity :: nat
  rl_limiter :: "TimeLimiter option"
  rl_cache :: "(string, TokenBucket) umap"

definition RateLimitCache_default :: RateLimitCache where
  "RateLimitCache_default =
     \<lparr>rl_capacity = 4096, rl_limiter = Some (TimeLimiter_mk 10 (30 * 60)), rl_cache = []\<rparr>"

definition RateLimitCache_mk :: "nat \<Rightarrow> int \<Rightarrow> int \<Rightarrow> RateLimitCache" where
  "RateLimitCache_mk capacity burst refill =
     \<lparr>rl_capacity = capacity, rl_limiter = Some (TimeLimiter_mk burst refill), rl_cache = []\<rparr>"

definition ResetRateLimitCache :: "RateLimitCache \<Rightarrow> RateLimitCache" where
  "ResetRateLimitCache c = c\<lparr>rl_limiter := None\<rparr>"

text \<open>The answer is \<open>None\<close> when the code dereferences a limiter that was reset.\<close>

definition RateLimitCache_Allow ::
  "Clock \<Rightarrow> string \<Rightarrow> RateLimitCache \<times> CollectorStats \<Rightarrow>
     (RateLimitCache \<times> CollectorStats) \<times> bool option" where
  "RateLimitCache_Allow clock key st =
     (let (c, stats) = st;
          (m, inserted) = um_insert (=) key TokenBucket_new (rl_cache c)
      in if inserted \<and> length m > rl_capacity c
         then ((c\<lparr>rl_cache := []\<rparr>, COUNTER_INC rate_limit_flushing_counts stats), Some True)
         else
           (case rl_limiter c of
              None \<Rightarrow> ((c\<lparr>rl_cache := m\<rparr>, stats), None)
            | Some l \<Rightarrow>
                (let b = the (um_lookup (=) key m);
                     (b', ok) = TimeLimiter_Allow l clock b
                 in ((c\<lparr>rl_cache := um_update (=) key (\<lambda>_. b') m\<rparr>, stats), Some ok))))"

record CountLimiter =
  cl_count :: int
  cl_cache :: "(string, TokenBucket) umap"

definition CountLimiter_default :: CountLimiter where
  "CountLimiter_default = \<lparr>cl_count = 4096, cl_cache = []\<rparr>"

definition CountLimiter_mk :: "int \<Rightarrow> CountLimiter" where
  "CountLimiter_mk count = \<lparr>cl_count = count, cl_cache = []\<rparr>"

definition CountLimiter_Allow :: "string \<Rightarrow> CountLimiter \<Rightarrow> CountLimiter \<times> bool" where
  "CountLimiter_Allow key c =
     (let m = fst (um_insert (=) key TokenBucket_new (cl_cache c));
          m' = um_update (=) key (\<lambda>b. b\<lparr>tokens := tokens b + 1\<rparr>) m
      in (c\<lparr>cl_cache := m'\<rparr>, tokens (the (um_lookup (=) key m')) \<le> cl_count c))"

section \<open>The rate bound\<close>

text \<open>Calls of \<open>Allow\<close> on one bucket, and how many of them are allowed.\<close>

fun Allow_run :: "TimeLimiter \<Rightarrow> TokenBucket \<Rightarrow> Clock list \<Rightarrow> TokenBucket \<times> nat" where
  "Allow_run l b [] = (b, 0)"
| "Allow_run l b (c # cs) =
     (let (b', ok) = TimeLimiter_Allow l c b; (b'', k) = Allow_run l b' cs
      in (b'', (if ok then 1 else 0) + k))"

text \<open>A clock that never goes back, from time \<open>t\<close> on.\<close>

fun clocks_from :: "int \<Rightarrow> Clock list \<Rightarrow> bool" where
  "clocks_from t [] = True"
| "clocks_from t (c # cs) =
     (t \<le> now_fill c \<and> now_fill c \<le> now_refill c \<and> now_refill c \<le> now_cap c \<and>
      clocks_from (now_cap c) cs)"

definition last_clock :: "int \<Rightarrow> Clock list \<Rightarrow> int" where
  "last_clock t cs = (if cs = [] then t else now_cap (last cs))"

lemma cdiv_pos: "0 \<le> a \<Longrightarrow> 0 < b \<Longrightarrow> cdiv a b = a div b"
  by (simp add: cdiv_def)

lemma refill_bounds:
  assumes "last_time b \<le> t" "0 < refill_time l"
  shows "0 \<le> refill_count l t b"
    and "refill_count l t b * refill_time l \<le> t - last_time b"
proof -
  have "refill_count l t b = (t - last_time b) div refill_time l"
    using assms by (simp add: refill_count_def cdiv_pos)
  then show "0 \<le> refill_count l t b" "refill_count l t b * refill_time l \<le> t - last_time b"
    using assms pos_mod_sign [of "refill_time l" "t - last_time b"]
    by (simp_all add: pos_imp_zdiv_nonneg_iff flip: minus_mod_eq_div_mult)
qed

definition bucket_ok :: "TimeLimiter \<Rightarrow> int \<Rightarrow> TokenBucket \<Rightarrow> bool" where
  "bucket_ok l now b \<longleftrightarrow> 0 < last_time b \<and> last_time b \<le> now \<and> 0 \<le> tokens b \<and> tokens b \<le> burst_size l"

lemma AllowN_step:
  assumes l: "0 < refill_time l" "0 \<le> burst_size l" and b: "bucket_ok l t b"
    and clock: "t \<le> now_refill c" "now_refill c \<le> now_cap c"
    and n: "0 \<le> n" and step: "AllowN l c b n = (b', ok)"
  shows "bucket_ok l (now_cap c) b'"
    and "((if ok then n else 0) + tokens b' - tokens b) * refill_time l \<le>
         burst_size l * (last_time b' - last_time b)"
proof -
  let ?r = "refill_count l (now_refill c) b"
  let ?b2 = "b\<lparr>tokens := tokens b + ?r * burst_size l, last_time := last_time b + ?r * refill_time l\<rparr>"
  let ?b3 = "if tokens ?b2 \<ge> burst_size l then fill_bucket l (now_cap c) ?b2 else ?b2"
  have lt: "last_time b \<le> now_refill c" "0 < last_time b" using b clock by (auto simp: bucket_ok_def)
  note r = refill_bounds [OF lt(1) l(1)]
  have nonneg: "0 \<le> ?r * burst_size l" "0 \<le> ?r * refill_time l"
    using r(1) l by (auto intro: mult_nonneg_nonneg)
  then have pos: "0 < last_time b + ?r * refill_time l" "0 \<le> tokens b + ?r * burst_size l"
    using lt(2) b by (auto simp: bucket_ok_def intro: add_pos_nonneg)
  have grow: "?r * burst_size l * refill_time l \<le> burst_size l * (?r * refill_time l)"
    by (simp add: algebra_simps)
  have fill: "(burst_size l - tokens b) * refill_time l \<le> burst_size l * (now_cap c - last_time b)"
    if "burst_size l \<le> tokens b + ?r * burst_size l"
  proof -
    have "(burst_size l - tokens b) * refill_time l \<le> ?r * burst_size l * refill_time l"
      using that l by (intro mult_right_mono) auto
    also have "\<dots> = burst_size l * (?r * refill_time l)" by simp
    also have "\<dots> \<le> burst_size l * (now_cap c - last_time b)"
      using r clock l by (intro mult_left_mono) auto
    finally show ?thesis .
  qed
  have b3: "bucket_ok l (now_cap c) ?b3"
    "(tokens ?b3 - tokens b) * refill_time l \<le> burst_size l * (last_time ?b3 - last_time b)"
    using b r lt clock l fill grow pos by (auto simp: bucket_ok_def fill_bucket_def)
  have out: "(b', ok) = (if n > tokens ?b3 then (?b3, False) else (?b3\<lparr>tokens := tokens ?b3 - n\<rparr>, True))"
    using step lt(2) by (simp add: AllowN_def Let_def)
  show "bucket_ok l (now_cap c) b'"
    using b3(1) n out by (auto simp: bucket_ok_def split: if_splits)
  show "((if ok then n else 0) + tokens b' - tokens b) * refill_time l \<le>
         burst_size l * (last_time b' - last_time b)"
    using b3(2) out by (auto split: if_splits)
qed

lemma Allow_run_bound:
  assumes "0 < refill_time l" "0 \<le> burst_size l" "bucket_ok l t b" "clocks_from t cs"
    "Allow_run l b cs = (b', k)"
  shows "bucket_ok l (last_clock t cs) b' \<and>
    (int k + tokens b' - tokens b) * refill_time l \<le> burst_size l * (last_time b' - last_time b)"
  using assms(3-)
proof (induction cs arbitrary: t b b' k)
  case (Cons c cs)
  obtain b1 ok where b1: "AllowN l c b 1 = (b1, ok)" by (cases "AllowN l c b 1")
  obtain k1 where run: "Allow_run l b1 cs = (b', k1)" "k = (if ok then 1 else 0) + k1"
    using Cons.prems(3) b1 by (auto simp: TimeLimiter_Allow_def split: prod.splits)
  have clk: "t \<le> now_refill c" "now_refill c \<le> now_cap c" "clocks_from (now_cap c) cs"
    using Cons.prems(2) by auto
  note s = AllowN_step [OF assms(1,2) Cons.prems(1) clk(1,2) _ b1]
  note IH = Cons.IH [OF s(1) clk(3) run(1)]
  have "last_clock t (c # cs) = last_clock (now_cap c) cs" by (simp add: last_clock_def)
  then show ?case using IH s(2) run(2) by (auto simp: algebra_simps)
qed (simp add: last_clock_def)

lemma AllowN_first:
  assumes "0 < refill_time l" "0 \<le> burst_size l" "0 < now_fill c"
  shows "AllowN l c TokenBucket_new n = AllowN l c \<lparr>tokens = burst_size l, last_time = now_fill c\<rparr> n"
  using assms by (simp add: AllowN_def TokenBucket_new_def fill_bucket_def)

section \<open>Per-key limiters\<close>

text \<open>The answers to a sequence of calls.\<close>

fun limiter_run :: "('k \<Rightarrow> 's \<Rightarrow> 's \<times> bool) \<Rightarrow> 's \<Rightarrow> 'k list \<Rightarrow> bool list" where
  "limiter_run allow s [] = []"
| "limiter_run allow s (k # ks) = snd (allow k s) # limiter_run allow (fst (allow k s)) ks"

text \<open>
  The contract a client relies on: the answers for a key depend only on how often the key was
  seen, and \<open>admitted\<close> says which of its events are allowed.
\<close>

locale event_limiter =
  fixes allow :: "'k \<Rightarrow> 's \<Rightarrow> 's \<times> bool" and init :: 's and admitted :: "nat \<Rightarrow> bool"
    and seen :: "'s \<Rightarrow> 'k \<Rightarrow> nat" and inv :: "'s \<Rightarrow> bool"
  assumes init_inv: "inv init"
    and init_seen: "seen init k = 0"
    and allow_inv: "inv s \<Longrightarrow> inv (fst (allow k s))"
    and allow_seen: "inv s \<Longrightarrow> seen (fst (allow k s)) k' = (if k' = k then Suc (seen s k) else seen s k')"
    and allow_ok: "inv s \<Longrightarrow> snd (allow k s) = admitted (Suc (seen s k))"
begin

lemma run_nth:
  "inv s \<Longrightarrow> i < length ks \<Longrightarrow>
     limiter_run allow s ks ! i = admitted (seen s (ks ! i) + count_list (take (Suc i) ks) (ks ! i))"
proof (induction ks arbitrary: s i)
  case (Cons k ks)
  show ?case
  proof (cases i)
    case 0
    then show ?thesis using Cons.prems by (simp add: allow_ok)
  next
    case (Suc j)
    then show ?thesis
      using Cons.prems Cons.IH [OF allow_inv [OF Cons.prems(1)], of j k] by (simp add: allow_seen)
  qed
qed simp

lemma run_from_start:
  "i < length ks \<Longrightarrow> limiter_run allow init ks ! i = admitted (count_list (take (Suc i) ks) (ks ! i))"
  using run_nth [OF init_inv] by (simp add: init_seen)

end

definition CountLimiter_seen :: "CountLimiter \<Rightarrow> string \<Rightarrow> nat" where
  "CountLimiter_seen c k = (case um_lookup (=) k (cl_cache c) of None \<Rightarrow> 0 | Some b \<Rightarrow> nat (tokens b))"

definition CountLimiter_inv :: "int \<Rightarrow> CountLimiter \<Rightarrow> bool" where
  "CountLimiter_inv n c \<longleftrightarrow>
     cl_count c = n \<and> (\<forall>k b. um_lookup (=) k (cl_cache c) = Some b \<longrightarrow> 0 \<le> tokens b)"

lemma CountLimiter_lookup:
  "um_lookup (=) k' (cl_cache (fst (CountLimiter_Allow k c))) =
     (if k' = k
      then Some (case um_lookup (=) k (cl_cache c) of
             None \<Rightarrow> TokenBucket_new\<lparr>tokens := 1\<rparr> | Some b \<Rightarrow> b\<lparr>tokens := tokens b + 1\<rparr>)
      else um_lookup (=) k' (cl_cache c))"
  by (auto simp: CountLimiter_Allow_def Let_def value_keys.lookup_update value_keys.lookup_insert
      TokenBucket_new_def split: option.split)

lemma CountLimiter_answer:
  "snd (CountLimiter_Allow k c) =
     (tokens (the (um_lookup (=) k (cl_cache (fst (CountLimiter_Allow k c))))) \<le> cl_count c)"
  by (simp add: CountLimiter_Allow_def Let_def)

interpretation count_limiter: event_limiter CountLimiter_Allow "CountLimiter_mk n"
  "\<lambda>i. int i \<le> n" CountLimiter_seen "CountLimiter_inv n" for n
proof
  show "CountLimiter_inv n (CountLimiter_mk n)"
    by (simp add: CountLimiter_inv_def CountLimiter_mk_def)
  show "CountLimiter_seen (CountLimiter_mk n) k = 0" for k
    by (simp add: CountLimiter_seen_def CountLimiter_mk_def)
  fix s k assume inv: "CountLimiter_inv n s"
  have "cl_count (fst (CountLimiter_Allow k s)) = n"
    using inv by (simp add: CountLimiter_Allow_def Let_def CountLimiter_inv_def)
  then show "CountLimiter_inv n (fst (CountLimiter_Allow k s))"
    using inv unfolding CountLimiter_inv_def CountLimiter_lookup
    by (auto simp: TokenBucket_new_def split: option.splits)
  show "CountLimiter_seen (fst (CountLimiter_Allow k s)) k' =
      (if k' = k then Suc (CountLimiter_seen s k) else CountLimiter_seen s k')" for k'
    using inv unfolding CountLimiter_inv_def CountLimiter_seen_def CountLimiter_lookup
    by (auto simp: TokenBucket_new_def nat_add_distrib split: option.splits)
  show "snd (CountLimiter_Allow k s) = (int (Suc (CountLimiter_seen s k)) \<le> n)"
    using inv unfolding CountLimiter_answer CountLimiter_inv_def CountLimiter_seen_def CountLimiter_lookup
    by (auto simp: TokenBucket_new_def split: option.splits)
qed

section \<open>Properties\<close>

text \<open>
  C7: the token bucket bounds the rate. Starting from a fresh bucket at time \<open>t\<close>, with a clock
  that does not go back, the number of allowed events is at most one burst plus one burst per
  refill period that has passed.
\<close>

theorem Allow_rate_bound:
  assumes "0 < refill_time l" "0 \<le> burst_size l" "0 < t" "clocks_from t cs"
  shows "int (snd (Allow_run l TokenBucket_new cs)) * refill_time l \<le>
    burst_size l * (refill_time l + (last_clock t cs - t))"
proof (cases cs)
  case Nil
  then show ?thesis using assms by (simp add: last_clock_def)
next
  case (Cons c cs')
  let ?b0 = "\<lparr>tokens = burst_size l, last_time = now_fill c\<rparr>"
  have c: "t \<le> now_fill c" "clocks_from (now_fill c) cs" using assms(4) Cons by auto
  obtain b k where run: "Allow_run l ?b0 cs = (b, k)" by (cases "Allow_run l ?b0 cs")
  have same: "Allow_run l TokenBucket_new cs = (b, k)"
    using run AllowN_first [OF assms(1,2), of c] assms(3) c Cons
    by (simp add: TimeLimiter_Allow_def)
  have ok: "bucket_ok l (now_fill c) ?b0" using assms c by (simp add: bucket_ok_def)
  note bound = Allow_run_bound [OF assms(1,2) ok c(2) run]
  have "(int k - burst_size l) * refill_time l \<le> (int k + tokens b - burst_size l) * refill_time l"
    using bound assms(1) by (intro mult_right_mono) (auto simp: bucket_ok_def)
  also have "\<dots> \<le> burst_size l * (last_time b - now_fill c)" using bound by simp
  also have "\<dots> \<le> burst_size l * (last_clock t cs - t)"
    using bound assms(2) c(1) Cons by (intro mult_left_mono) (auto simp: bucket_ok_def last_clock_def)
  finally show ?thesis using same by (simp add: algebra_simps)
qed

theorem Allow_rate_bound_witness:
  "let l = TimeLimiter_mk 2 1; c = \<lparr>now_fill = 5, now_refill = 5, now_cap = 5\<rparr>
   in int (snd (Allow_run l TokenBucket_new [c, c, c])) * refill_time l \<le>
      burst_size l * (refill_time l + (last_clock 5 [c, c, c] - 5)) \<and>
      snd (Allow_run l TokenBucket_new [c, c, c]) = 2"
  using Allow_rate_bound [of "TimeLimiter_mk 2 1" 5
      "replicate 3 \<lparr>now_fill = 5, now_refill = 5, now_cap = 5\<rparr>"]
  by (simp add: TimeLimiter_mk_def numeral_eq_Suc TimeLimiter_Allow_def AllowN_def Let_def
      TokenBucket_new_def fill_bucket_def refill_count_def cdiv_def)

text \<open>
  a count limiter allows exactly the first \<open>n\<close> events of every key, whatever the order in
  which the events of different keys arrive.
\<close>

theorem CountLimiter_allows_first:
  assumes "i < length ks"
  shows "limiter_run CountLimiter_Allow (CountLimiter_mk n) ks ! i \<longleftrightarrow>
    int (count_list (take (Suc i) ks) (ks ! i)) \<le> n"
  by (rule count_limiter.run_from_start [OF assms])

theorem CountLimiter_allows_first_witness:
  "2 < length [''a'', ''b'', ''a''] \<and>
   \<not> limiter_run CountLimiter_Allow (CountLimiter_mk 1) [''a'', ''b'', ''a''] ! 2"
  using CountLimiter_allows_first [of 2 "[''a'', ''b'', ''a'']" 1] by simp

text \<open>
  the cache never holds more buckets than its capacity after a call, and the call that
  would exceed it flushes the cache, is allowed and is counted.
\<close>

theorem RateLimitCache_capacity:
  assumes "length (rl_cache c) \<le> rl_capacity c"
  shows "length (rl_cache (fst (fst (RateLimitCache_Allow clock key (c, stats))))) \<le> rl_capacity c \<and>
    (um_lookup (=) key (rl_cache c) = None \<and> length (rl_cache c) = rl_capacity c \<longrightarrow>
       RateLimitCache_Allow clock key (c, stats) =
         ((c\<lparr>rl_cache := []\<rparr>, COUNTER_INC rate_limit_flushing_counts stats), Some True))"
proof -
  have len: "length (um_update (=) key f m) = length m" for f and m :: "(string, TokenBucket) umap"
    by (induction m) auto
  show ?thesis using assms len
    by (auto simp: RateLimitCache_Allow_def Let_def um_insert_def um_lookup_def case_prod_beta
        split: option.splits)
qed

theorem RateLimitCache_capacity_witness:
  "length (rl_cache (RateLimitCache_mk 0 1 1)) \<le> rl_capacity (RateLimitCache_mk 0 1 1) \<and>
   snd (RateLimitCache_Allow \<lparr>now_fill = 1, now_refill = 1, now_cap = 1\<rparr> ''k''
     (RateLimitCache_mk 0 1 1, CollectorStats_new)) = Some True"
  using RateLimitCache_capacity [of "RateLimitCache_mk 0 1 1"
      "\<lparr>now_fill = 1, now_refill = 1, now_cap = 1\<rparr>" "''k''" CollectorStats_new]
  by (simp add: RateLimitCache_mk_def)

text \<open>
  after \<open>ResetRateLimitCache\<close> no limiter is left: the next call that does not flush the
  cache dereferences a null pointer.
\<close>

theorem Reset_leaves_no_limiter:
  assumes "Suc (length (rl_cache c)) \<le> rl_capacity c"
  shows "snd (RateLimitCache_Allow clock key (ResetRateLimitCache c, stats)) = None"
  using assms
  by (auto simp: RateLimitCache_Allow_def ResetRateLimitCache_def Let_def um_insert_def
      split: option.splits)

theorem Reset_leaves_no_limiter_witness:
  "snd (RateLimitCache_Allow \<lparr>now_fill = 1, now_refill = 1, now_cap = 1\<rparr> ''k''
     (ResetRateLimitCache RateLimitCache_default, CollectorStats_new)) = None"
  using Reset_leaves_no_limiter [of RateLimitCache_default] by (simp add: RateLimitCache_default_def)

end
