(* ===== verification/ExternalIPs.thy ===== *)
theory ExternalIPs
  imports Prelude
begin

text \<open>
  The External-IPs feature of \<open>ExternalIPsConfig.h\<close>. The runtime configuration is a generated
  protobuf message: a record of the fields that the sources read.
\<close>

section \<open>Runtime configuration message\<close>

datatype ExternalIpsEnabled = ExternalIps_DISABLED | ExternalIps_ENABLED | ExternalIps_enabled_other nat

datatype ExternalIpsDirection =
  ExtDir_UNSPECIFIED | ExtDir_BOTH | ExtDir_INGRESS | ExtDir_EGRESS | ExtDir_other nat

record RuntimeConfig =
  rc_external_ips_enabled :: ExternalIpsEnabled
  rc_external_ips_direction :: ExternalIpsDirection
  rc_max_connections_per_minute :: int

section \<open>ExternalIPsConfig\<close>

datatype Direction = DirNONE | DirINGRESS | DirEGRESS | DirBOTH

definition Direction_value :: "Direction \<Rightarrow> u8" where
  "Direction_value d =
     (case d of DirNONE \<Rightarrow> 0 | DirINGRESS \<Rightarrow> push_bit 0 1 | DirEGRESS \<Rightarrow> push_bit 1 1
      | DirBOTH \<Rightarrow> push_bit 0 1 OR push_bit 1 1)"

record ExternalIPsConfig =
  direction_enabled :: Direction

definition IsEnabled :: "ExternalIPsConfig \<Rightarrow> Direction \<Rightarrow> bool" where
  "IsEnabled config direction =
     ((Direction_value direction AND Direction_value (direction_enabled config)) =
      Direction_value direction)"

definition ExternalIPsConfig_of :: "RuntimeConfig option \<Rightarrow> bool \<Rightarrow> ExternalIPsConfig" where
  "ExternalIPsConfig_of runtime_config default_enabled =
     (case runtime_config of
        None \<Rightarrow> \<lparr>direction_enabled = (if default_enabled then DirBOTH else DirNONE)\<rparr>
      | Some config \<Rightarrow>
          if rc_external_ips_enabled config \<noteq> ExternalIps_ENABLED
          then \<lparr>direction_enabled = DirNONE\<rparr>
          else
            (case rc_external_ips_direction config of
               ExtDir_INGRESS \<Rightarrow> \<lparr>direction_enabled = DirINGRESS\<rparr>
             | ExtDir_EGRESS \<Rightarrow> \<lparr>direction_enabled = DirEGRESS\<rparr>
             | _ \<Rightarrow> \<lparr>direction_enabled = DirBOTH\<rparr>))"

definition ExternalIPsConfig_default :: ExternalIPsConfig where
  "ExternalIPsConfig_default = \<lparr>direction_enabled = DirNONE\<rparr>"

definition ExternalIPsConfig_string :: "ExternalIPsConfig \<Rightarrow> string" where
  "ExternalIPsConfig_string config =
     ''direction('' @
     (case direction_enabled config of
        DirNONE \<Rightarrow> ''NONE'' | DirINGRESS \<Rightarrow> ''INGRESS'' | DirEGRESS \<Rightarrow> ''EGRESS'' | DirBOTH \<Rightarrow> ''BOTH'')
     @ '')''"

lemma IsEnabled_iff:
  "IsEnabled c DirINGRESS \<longleftrightarrow> direction_enabled c = DirINGRESS \<or> direction_enabled c = DirBOTH"
  "IsEnabled c DirEGRESS \<longleftrightarrow> direction_enabled c = DirEGRESS \<or> direction_enabled c = DirBOTH"
  "IsEnabled c DirBOTH \<longleftrightarrow> direction_enabled c = DirBOTH"
  by (cases "direction_enabled c"; simp add: IsEnabled_def Direction_value_def)+

text \<open>
  a direction is enabled exactly when the runtime configuration, if there is one, enables
  External IPs and does not restrict them to the opposite direction; without a runtime
  configuration both directions follow the default.
\<close>

theorem IsEnabled_of_runtime_config:
  "IsEnabled (ExternalIPsConfig_of rc def) DirINGRESS =
     (case rc of None \<Rightarrow> def
      | Some c \<Rightarrow> rc_external_ips_enabled c = ExternalIps_ENABLED \<and>
                  rc_external_ips_direction c \<noteq> ExtDir_EGRESS) \<and>
   IsEnabled (ExternalIPsConfig_of rc def) DirEGRESS =
     (case rc of None \<Rightarrow> def
      | Some c \<Rightarrow> rc_external_ips_enabled c = ExternalIps_ENABLED \<and>
                  rc_external_ips_direction c \<noteq> ExtDir_INGRESS)"
  by (auto simp: IsEnabled_iff ExternalIPsConfig_of_def split: option.split ExternalIpsDirection.split)

end
