(* ===== verification/ConnStatus.thy ===== *)
theory ConnStatus
  imports NetworkConnection
begin

text \<open>
  \<open>ConnStatus\<close> of \<open>ConnTracker.h\<close> (a timestamp with the activity flag in its most significant
  bit) and the templates of the same file that compare two states: \<open>UpdateOldState\<close>,
  \<open>ComputeDelta\<close> and \<open>ComputeDeltaAfterglow\<close>, for any key type with its equality.
  Timestamps are \<open>int64_t\<close> in microseconds; differences of two of them do not overflow for
  times after the epoch, so they are taken in \<open>int\<close>.
\<close>

section \<open>Status words\<close>

type_synonym ConnStatus = u64

definition kActiveFlag :: u64 where
  "kActiveFlag = push_bit 63 1"

definition MakeActive :: "u64 \<Rightarrow> bool \<Rightarrow> u64" where
  "MakeActive data active = (if active then data OR kActiveFlag else data AND NOT kActiveFlag)"

definition ConnStatus_mk :: "int \<Rightarrow> bool \<Rightarrow> ConnStatus" where
  "ConnStatus_mk microtimestamp active = MakeActive (word_of_int microtimestamp) active"

definition LastActiveTime :: "ConnStatus \<Rightarrow> int" where
  "LastActiveTime d = uint (d AND NOT kActiveFlag)"

definition IsActive :: "ConnStatus \<Rightarrow> bool" where
  "IsActive d = ((d AND kActiveFlag) \<noteq> 0)"

definition SetActive :: "bool \<Rightarrow> ConnStatus \<Rightarrow> ConnStatus" where
  "SetActive active d = MakeActive d active"

definition MergeFrom :: "ConnStatus \<Rightarrow> ConnStatus \<Rightarrow> ConnStatus" where
  "MergeFrom other d = max d other"

definition WithStatus :: "bool \<Rightarrow> ConnStatus \<Rightarrow> ConnStatus" where
  "WithStatus active d = MakeActive d active"

definition IsInAfterglowPeriod :: "ConnStatus \<Rightarrow> int \<Rightarrow> int \<Rightarrow> bool" where
  "IsInAfterglowPeriod d time_micros afterglow_period_micros =
     (time_micros - LastActiveTime d < afterglow_period_micros)"

definition WasRecentlyActive :: "ConnStatus \<Rightarrow> int \<Rightarrow> int \<Rightarrow> bool" where
  "WasRecentlyActive d time_micros afterglow_period_micros =
     (IsActive d \<or> IsInAfterglowPeriod d time_micros afterglow_period_micros)"

section \<open>Comparing two states\<close>

definition UpdateOldState ::
  "('k \<Rightarrow> 'k \<Rightarrow> bool) \<Rightarrow> ('k, ConnStatus) umap \<Rightarrow> ('k, ConnStatus) umap \<Rightarrow> int \<Rightarrow> int \<Rightarrow>
     ('k, ConnStatus) umap" where
  "UpdateOldState eq old_state new_state time_micros afterglow =
     foldl (\<lambda>st (k, s). um_put eq k s st)
       (filter (\<lambda>(k, s). IsInAfterglowPeriod s time_micros afterglow) old_state) new_state"

text \<open>The body of the first loop of \<open>ComputeDelta\<close>.\<close>

definition ComputeDelta_insert ::
  "('k \<Rightarrow> 'k \<Rightarrow> bool) \<Rightarrow> ('k, ConnStatus) umap \<Rightarrow> 'k \<times> ConnStatus \<Rightarrow> ('k, ConnStatus) umap" where
  "ComputeDelta_insert eq old_state conn =
     (case um_find eq (fst conn) old_state of
        None \<Rightarrow> fst (um_insert eq (fst conn) (snd conn) old_state)
      | Some old_conn \<Rightarrow>
          if IsActive (snd conn) \<noteq> IsActive (snd old_conn)
          then um_update eq (fst conn) (\<lambda>_. snd conn) old_state
          else if IsActive (snd conn) then um_erase eq (fst conn) old_state
          else if LastActiveTime (snd old_conn) < LastActiveTime (snd conn)
          then um_update eq (fst conn) (\<lambda>_. snd conn) old_state
          else um_erase eq (fst conn) old_state)"

text \<open>The second loop: objects that are not in the new state.\<close>

fun ComputeDelta_close ::
  "('k \<Rightarrow> 'k \<Rightarrow> bool) \<Rightarrow> ('k, ConnStatus) umap \<Rightarrow> ('k, ConnStatus) umap \<Rightarrow> ('k, ConnStatus) umap" where
  "ComputeDelta_close eq new_state [] = []"
| "ComputeDelta_close eq new_state (old_conn # rest) =
     (if um_find eq (fst old_conn) new_state \<noteq> None
      then old_conn # ComputeDelta_close eq new_state rest
      else if IsActive (snd old_conn)
      then (fst old_conn, SetActive False (snd old_conn)) # ComputeDelta_close eq new_state rest
      else ComputeDelta_close eq new_state rest)"

definition ComputeDelta ::
  "('k \<Rightarrow> 'k \<Rightarrow> bool) \<Rightarrow> ('k, ConnStatus) umap \<Rightarrow> ('k, ConnStatus) umap \<Rightarrow> ('k, ConnStatus) umap" where
  "ComputeDelta eq new_state old_state =
     ComputeDelta_close eq new_state (foldl (ComputeDelta_insert eq) old_state new_state)"

definition ChangeConnToActiveIfNeeded :: "'k \<times> ConnStatus \<Rightarrow> bool \<Rightarrow> 'k \<times> ConnStatus" where
  "ChangeConnToActiveIfNeeded new_conn new_recently_active =
     (if new_recently_active \<and> \<not> IsActive (snd new_conn)
      then (fst new_conn, ConnStatus_mk (LastActiveTime (snd new_conn)) True)
      else new_conn)"

definition ComputeDeltaForAConnectionInOldAndNewStates ::
  "('k \<Rightarrow> 'k \<Rightarrow> bool) \<Rightarrow> 'k \<times> ConnStatus \<Rightarrow> ConnStatus \<Rightarrow> ('k, ConnStatus) umap \<Rightarrow>
     int \<Rightarrow> int \<Rightarrow> int \<Rightarrow> ('k, ConnStatus) umap" where
  "ComputeDeltaForAConnectionInOldAndNewStates eq new_conn old_conn_status delta
       time_micros time_at_last_scrape afterglow =
     (let new_recently_active = WasRecentlyActive (snd new_conn) time_micros afterglow;
          old_recently_active = WasRecentlyActive old_conn_status time_at_last_scrape afterglow
      in if new_recently_active \<noteq> old_recently_active
         then (let d = ChangeConnToActiveIfNeeded new_conn new_recently_active
               in fst (um_insert eq (fst d) (snd d) delta))
         else if \<not> new_recently_active \<and>
                 LastActiveTime old_conn_status < LastActiveTime (snd new_conn)
         then fst (um_insert eq (fst new_conn) (snd new_conn) delta)
         else delta)"

definition ComputeDeltaForAConnectionInNewState ::
  "('k \<Rightarrow> 'k \<Rightarrow> bool) \<Rightarrow> 'k \<times> ConnStatus \<Rightarrow> ('k, ConnStatus) umap \<Rightarrow> int \<Rightarrow> int \<Rightarrow>
     ('k, ConnStatus) umap" where
  "ComputeDeltaForAConnectionInNewState eq new_conn delta time_micros afterglow =
     (let d = ChangeConnToActiveIfNeeded new_conn
                (WasRecentlyActive (snd new_conn) time_micros afterglow)
      in fst (um_insert eq (fst d) (snd d) delta))"

definition CheckIfOldConnShouldBeInactiveInDelta ::
  "('k \<Rightarrow> 'k \<Rightarrow> bool) \<Rightarrow> 'k \<Rightarrow> ConnStatus \<Rightarrow> ('k, ConnStatus) umap \<Rightarrow> int \<Rightarrow> int \<Rightarrow> int \<Rightarrow> bool" where
  "CheckIfOldConnShouldBeInactiveInDelta eq conn_key conn_status new_state
       time_micros time_at_last_scrape afterglow =
     (if um_find eq conn_key new_state \<noteq> None then False
      else if \<not> WasRecentlyActive conn_status time_at_last_scrape afterglow then False
      else if IsInAfterglowPeriod conn_status time_micros afterglow then False
      else True)"

definition ComputeDeltaAfterglow ::
  "('k \<Rightarrow> 'k \<Rightarrow> bool) \<Rightarrow> ('k, ConnStatus) umap \<Rightarrow> ('k, ConnStatus) umap \<Rightarrow> ('k, ConnStatus) umap \<Rightarrow>
     int \<Rightarrow> int \<Rightarrow> int \<Rightarrow> ('k, ConnStatus) umap" where
  "ComputeDeltaAfterglow eq new_state old_state delta time_micros time_at_last_scrape afterglow =
     (let delta1 =
        foldl (\<lambda>delta new_conn.
            case um_find eq (fst new_conn) old_state of
              Some old_conn \<Rightarrow>
                ComputeDeltaForAConnectionInOldAndNewStates eq new_conn (snd old_conn) delta
                  time_micros time_at_last_scrape afterglow
            | None \<Rightarrow> ComputeDeltaForAConnectionInNewState eq new_conn delta time_micros afterglow)
          delta new_state
      in foldl (\<lambda>delta (conn_key, conn_status).
            if CheckIfOldConnShouldBeInactiveInDelta eq conn_key conn_status new_state
                 time_micros time_at_last_scrape afterglow
            then fst (um_insert eq conn_key (ConnStatus_mk (LastActiveTime conn_status) False) delta)
            else delta)
          delta1 old_state)"

section \<open>Laws of status words\<close>

lemma kActiveFlag_exp: "kActiveFlag = 2 ^ 63"
  unfolding kActiveFlag_def by (rule push_bit_of_1)

lemma bit_kActiveFlag: "bit kActiveFlag n \<longleftrightarrow> n = 63"
  unfolding kActiveFlag_exp bit_exp_iff by auto

lemma IsActive_bit: "IsActive d = bit d 63"
  unfolding IsActive_def kActiveFlag_exp and_exp_eq_0_iff_not_bit by simp

lemma clear_flag_eq: "d AND NOT kActiveFlag = take_bit 63 d"
  by (rule bit_word_eqI) (auto simp: bit_and_iff bit_not_iff bit_kActiveFlag bit_take_bit_iff)

lemma IsActive_MakeActive [simp]: "IsActive (MakeActive d a) = a"
  by (auto simp: IsActive_bit MakeActive_def bit_or_iff bit_and_iff bit_not_iff bit_kActiveFlag)

lemma LastActiveTime_MakeActive [simp]: "LastActiveTime (MakeActive d a) = LastActiveTime d"
proof -
  have "MakeActive d a AND NOT kActiveFlag = d AND NOT kActiveFlag"
    by (rule bit_word_eqI) (auto simp: MakeActive_def bit_or_iff bit_and_iff bit_not_iff bit_kActiveFlag)
  then show ?thesis by (simp add: LastActiveTime_def)
qed

lemma LastActiveTime_eq: "LastActiveTime d = uint d mod 2 ^ 63"
  by (simp only: LastActiveTime_def clear_flag_eq unsigned_take_bit_eq) (rule take_bit_eq_mod)

lemma LastActiveTime_bounds: "0 \<le> LastActiveTime d" "LastActiveTime d < 2 ^ 63"
  by (simp_all add: LastActiveTime_eq)

lemma SetActive_simps [simp]:
  "IsActive (SetActive a d) = a" "LastActiveTime (SetActive a d) = LastActiveTime d"
  "IsActive (WithStatus a d) = a" "LastActiveTime (WithStatus a d) = LastActiveTime d"
  by (simp_all add: SetActive_def WithStatus_def)

lemma IsActive_mk [simp]: "IsActive (ConnStatus_mk t a) = a"
  by (simp add: ConnStatus_mk_def)

lemma LastActiveTime_mk: "0 \<le> t \<Longrightarrow> t < 2 ^ 63 \<Longrightarrow> LastActiveTime (ConnStatus_mk t a) = t"
proof -
  assume "0 \<le> t" "t < 2 ^ 63"
  then have "uint (word_of_int t :: u64) = t" by (simp add: unsigned_of_int take_bit_eq_mod)
  moreover have "LastActiveTime (ConnStatus_mk t a) = LastActiveTime (word_of_int t)"
    unfolding ConnStatus_mk_def by (rule LastActiveTime_MakeActive)
  ultimately show ?thesis using \<open>0 \<le> t\<close> \<open>t < 2 ^ 63\<close> by (simp add: LastActiveTime_eq)
qed

lemma LastActiveTime_mk_LastActiveTime [simp]:
  "LastActiveTime (ConnStatus_mk (LastActiveTime d) a) = LastActiveTime d"
  by (rule LastActiveTime_mk) (rule LastActiveTime_bounds)+

lemma uint_status: "uint d = (if IsActive d then 2 ^ 63 else 0) + LastActiveTime d"
proof -
  have "bit (uint d) 63 = bit d 63" by (simp add: bit_uint_iff)
  then have act: "IsActive d = odd (uint d div 2 ^ 63)"
    unfolding IsActive_bit bit_iff_odd [of "uint d"] by simp
  obtain q r where qr: "q = uint d div 2 ^ 63" "r = uint d mod 2 ^ 63" by simp
  then have eq: "uint d = q * 2 ^ 63 + r" by (simp add: div_mult_mod_eq)
  have "0 \<le> uint d" "uint d < 2 ^ 64" using uint_lt2p [of d] by auto
  then have "q = 0 \<or> q = 1" unfolding qr by auto
  then show ?thesis using eq unfolding act LastActiveTime_eq qr [symmetric] by auto
qed

text \<open>Merging keeps the status that is active, or else more recent.\<close>

lemma status_le_iff:
  "d \<le> e \<longleftrightarrow> (IsActive d \<longrightarrow> IsActive e) \<and> (IsActive d = IsActive e \<longrightarrow> LastActiveTime d \<le> LastActiveTime e)"
  using LastActiveTime_bounds [of d] LastActiveTime_bounds [of e]
  unfolding word_le_def uint_status [of d] uint_status [of e] by auto

lemma IsActive_MergeFrom [simp]: "IsActive (MergeFrom e d) \<longleftrightarrow> IsActive d \<or> IsActive e"
  by (auto simp: MergeFrom_def max_def status_le_iff)

lemma status_eq_iff: "d = e \<longleftrightarrow> IsActive d = IsActive e \<and> LastActiveTime d = LastActiveTime e"
proof
  assume "IsActive d = IsActive e \<and> LastActiveTime d = LastActiveTime e"
  then have "uint d = uint e" by (simp add: uint_status)
  then show "d = e" by (simp only: word_uint_eq_iff)
qed simp

end
