(* ===== verification/ConnDelta.thy ===== *)
theory ConnDelta
  imports ConnStatus
begin

text \<open>
  What the state comparisons of \<open>ConnTracker.h\<close> compute, for any key type whose equality is an
  equivalence on the keys in use: laws of folds over a container, the entry of one key in the
  deltas, and the simulation between the rounds of scraping with afterglow and the view that a
  receiver of the deltas has.
\<close>

section \<open>Folding over a container\<close>

lemma um_lookup_find: "um_find eq k m = Some e \<Longrightarrow> um_lookup eq k m = Some (snd e)"
  by (simp add: um_lookup_def)

text \<open>What it means that an operation changes the entry of one key and nothing else.\<close>

definition um_alters :: "('k \<Rightarrow> 'k \<Rightarrow> bool) \<Rightarrow> 'k set \<Rightarrow>
    (('k, 'v) umap \<Rightarrow> 'k \<times> 'v \<Rightarrow> ('k, 'v) umap) \<Rightarrow> ('k \<Rightarrow> 'v \<Rightarrow> 'v option \<Rightarrow> 'v option) \<Rightarrow> bool" where
  "um_alters eq C g f \<longleftrightarrow> (\<forall>m k s. k \<in> C \<and> um_keys m \<subseteq> C \<and> um_distinct eq m \<longrightarrow>
     um_keys (g m (k, s)) \<subseteq> C \<and> um_distinct eq (g m (k, s)) \<and>
     (\<forall>x \<in> C. um_lookup eq x (g m (k, s)) =
        (if eq x k then f k s (um_lookup eq x m) else um_lookup eq x m)))"

lemma um_find_None_lookup: "um_find eq k m = None \<longleftrightarrow> um_lookup eq k m = None"
  by (simp add: um_lookup_def)

context key_equality
begin

lemma altersI:
  assumes "\<And>m k s. k \<in> C \<Longrightarrow> um_keys m \<subseteq> C \<Longrightarrow> um_distinct eq m \<Longrightarrow> um_keys (g m (k, s)) \<subseteq> C"
    and "\<And>m k s. k \<in> C \<Longrightarrow> um_keys m \<subseteq> C \<Longrightarrow> um_distinct eq m \<Longrightarrow> um_distinct eq (g m (k, s))"
    and "\<And>m k s x. k \<in> C \<Longrightarrow> um_keys m \<subseteq> C \<Longrightarrow> um_distinct eq m \<Longrightarrow> x \<in> C \<Longrightarrow>
      um_lookup eq x (g m (k, s)) = (if eq x k then f k s (um_lookup eq x m) else um_lookup eq x m)"
  shows "um_alters eq C g f"
  using assms unfolding um_alters_def by blast

lemma lookup_erase:
  assumes "um_distinct eq m" "um_keys m \<subseteq> C" "k \<in> C" "x \<in> C"
  shows "um_lookup eq x (um_erase eq k m) = (if eq x k then None else um_lookup eq x m)"
  using assms(1,2)
proof (induction m)
  case (Cons e m)
  have e: "fst e \<in> C" using Cons.prems by simp
  show ?case
  proof (cases "eq k (fst e)")
    case True
    then have xk: "eq x k \<longleftrightarrow> eq x (fst e)" using eq_cong_right [OF assms(3) e assms(4)] by simp
    have "um_lookup eq x m = None" if "eq x (fst e)"
    proof -
      have "\<not> eq (fst e) (fst e')" if "e' \<in> set m" for e' using Cons.prems(1) that by simp
      then have "um_lookup eq (fst e) m = None" by (simp add: um_lookup_None_iff)
      moreover have "um_keys m \<subseteq> C" using Cons.prems(2) by simp
      ultimately show ?thesis using lookup_cong [OF assms(4) e _ that, of m] by simp
    qed
    then show ?thesis using True xk by simp
  next
    case False
    then have "eq x k \<Longrightarrow> \<not> eq x (fst e)" using eq_cong [OF assms(4,3) e] by simp
    then show ?thesis using False Cons by auto
  qed
qed simp

lemma fold_alters:
  assumes "um_alters eq C g f" "um_distinct eq new" "um_keys new \<subseteq> C" "um_distinct eq m" "um_keys m \<subseteq> C"
  shows "um_keys (foldl g m new) \<subseteq> C \<and> um_distinct eq (foldl g m new) \<and>
    (\<forall>x \<in> C. um_lookup eq x (foldl g m new) =
       (case um_find eq x new of None \<Rightarrow> um_lookup eq x m | Some (k, s) \<Rightarrow> f k s (um_lookup eq x m)))"
  using assms(2-)
proof (induction new arbitrary: m)
  case (Cons e new)
  obtain k s where e: "e = (k, s)" by (cases e)
  have k: "k \<in> C" using Cons.prems(2) e by simp
  note g = assms(1) [unfolded um_alters_def, rule_format, of k m s]
  have g': "um_keys (g m e) \<subseteq> C" "um_distinct eq (g m e)"
    "\<And>x. x \<in> C \<Longrightarrow> um_lookup eq x (g m e) = (if eq x k then f k s (um_lookup eq x m) else um_lookup eq x m)"
    using g k Cons.prems(3,4) e by auto
  note IH = Cons.IH [OF _ _ g'(2,1)]
  have new: "um_distinct eq new" "um_keys new \<subseteq> C" using Cons.prems by auto
  have miss: "um_find eq x new = None" if "x \<in> C" "eq x k" for x
  proof -
    have "um_lookup eq k new = None" using Cons.prems(1) e by (simp add: um_lookup_None_iff)
    then have "um_lookup eq x new = None" using lookup_cong [OF that(1) k new(2) that(2)] by simp
    then show ?thesis by (simp add: um_lookup_def)
  qed
  have "um_lookup eq x (foldl g m (e # new)) =
      (case um_find eq x (e # new) of None \<Rightarrow> um_lookup eq x m | Some (k, s) \<Rightarrow> f k s (um_lookup eq x m))"
    if "x \<in> C" for x
    using IH [OF new] g'(3) [OF that] miss [OF that] that e by (cases "eq x k") (simp_all split: option.split)
  then show ?case using IH [OF new] by simp
qed simp

lemma lookup_fold_alters:
  assumes "um_alters eq C g (\<lambda>_. f)" "um_distinct eq new" "um_keys new \<subseteq> C"
    "um_distinct eq m" "um_keys m \<subseteq> C" "x \<in> C"
  shows "um_lookup eq x (foldl g m new) =
    (case um_lookup eq x new of None \<Rightarrow> um_lookup eq x m | Some s \<Rightarrow> f s (um_lookup eq x m))"
  using fold_alters [OF assms(1-5)] assms(6) by (simp add: um_lookup_def split: option.split)

lemma alters_put: "um_alters eq C (\<lambda>st (k, s). um_put eq k s st) (\<lambda>k s _. Some s)"
  by (rule altersI) (simp_all add: keys_put distinct_put lookup_put)

lemma keys_insert:
  assumes "um_keys m \<subseteq> C" "k \<in> C"
  shows "um_keys (fst (um_insert eq k v m)) \<subseteq> C"
  using um_keys_insert [of eq k v m] assms by auto

lemma alters_insert:
  "um_alters eq C (\<lambda>st (k, s). fst (um_insert eq k s st))
     (\<lambda>k s v. Some (case v of None \<Rightarrow> s | Some w \<Rightarrow> w))"
proof (rule altersI)
  fix m :: "('k, 'b) umap" and k s x
  assume h: "k \<in> C" "um_keys m \<subseteq> C" "um_distinct eq m" "x \<in> C"
  show "um_lookup eq x (case (k, s) of (k, s) \<Rightarrow> fst (um_insert eq k s m)) =
      (if eq x k then Some (case um_lookup eq x m of None \<Rightarrow> s | Some w \<Rightarrow> w) else um_lookup eq x m)"
    using h lookup_insert [OF h(1,4,2)] lookup_cong [OF h(4,1,2)] by simp
qed (simp_all add: keys_insert distinct_insert)

end

section \<open>What the deltas contain\<close>

text \<open>The entry of one key in the result of \<open>ComputeDelta\<close>, from its old and new status.\<close>

definition delta_entry :: "ConnStatus option \<Rightarrow> ConnStatus option \<Rightarrow> ConnStatus option" where
  "delta_entry old new =
     (case (old, new) of
        (None, None) \<Rightarrow> None
      | (None, Some s) \<Rightarrow> Some s
      | (Some s', None) \<Rightarrow> if IsActive s' then Some (SetActive False s') else None
      | (Some s', Some s) \<Rightarrow>
          if IsActive s \<noteq> IsActive s' \<or> \<not> IsActive s \<and> LastActiveTime s' < LastActiveTime s
          then Some s else None)"

text \<open>The same for \<open>ComputeDeltaAfterglow\<close>, with the times of the two scrapes.\<close>

definition force_active :: "bool \<Rightarrow> ConnStatus \<Rightarrow> ConnStatus" where
  "force_active recently s = (if recently \<and> \<not> IsActive s then ConnStatus_mk (LastActiveTime s) True else s)"

definition afterglow_entry ::
  "int \<Rightarrow> int \<Rightarrow> int \<Rightarrow> ConnStatus option \<Rightarrow> ConnStatus option \<Rightarrow> ConnStatus option" where
  "afterglow_entry t t_last p old new =
     (case (old, new) of
        (None, None) \<Rightarrow> None
      | (None, Some s) \<Rightarrow> Some (force_active (WasRecentlyActive s t p) s)
      | (Some s', None) \<Rightarrow>
          if WasRecentlyActive s' t_last p \<and> \<not> IsInAfterglowPeriod s' t p
          then Some (ConnStatus_mk (LastActiveTime s') False) else None
      | (Some s', Some s) \<Rightarrow>
          if WasRecentlyActive s t p \<noteq> WasRecentlyActive s' t_last p
          then Some (force_active (WasRecentlyActive s t p) s)
          else if \<not> WasRecentlyActive s t p \<and> LastActiveTime s' < LastActiveTime s
          then Some s else None)"

context key_equality
begin

lemma lookup_map_filter:
  assumes "um_distinct eq m" "um_keys m \<subseteq> C" "x \<in> C"
    and h: "\<And>k k' v. k \<in> C \<Longrightarrow> k' \<in> C \<Longrightarrow> eq k k' \<Longrightarrow> h k v = h k' v"
  shows "um_lookup eq x (List.map_filter (\<lambda>(k, v). map_option (Pair k) (h k v)) m) =
    (case um_lookup eq x m of None \<Rightarrow> None | Some v \<Rightarrow> h x v)"
  using assms(1,2)
proof (induction m)
  case (Cons e m)
  obtain k v where e: "e = (k, v)" by (cases e)
  have k: "k \<in> C" and m: "um_keys m \<subseteq> C" "um_distinct eq m" using Cons.prems e by auto
  let ?f = "List.map_filter (\<lambda>(k, v). map_option (Pair k) (h k v)) m"
  show ?case
  proof (cases "eq x k")
    case True
    have "um_lookup eq k m = None" using Cons.prems(1) e by (simp add: um_lookup_None_iff)
    then have "um_lookup eq x m = None" using lookup_cong [OF assms(3) k m(1) True] by simp
    then have "um_lookup eq x ?f = None" using Cons.IH [OF m(2,1)] by simp
    then show ?thesis using True e h [OF assms(3) k True, of v]
      by (auto simp: List.map_filter_simps split: option.split)
  next
    case False
    then show ?thesis using Cons.IH [OF m(2,1)] e by (auto simp: List.map_filter_simps split: option.split)
  qed
qed (simp add: List.map_filter_simps)

lemma alters_ComputeDelta_insert:
  "um_alters eq C (ComputeDelta_insert eq) (\<lambda>k s v. delta_entry v (Some s))"
proof (rule altersI)
  fix m :: "('k, ConnStatus) umap" and k s
  assume h: "k \<in> C" "um_keys m \<subseteq> C" "um_distinct eq m"
  show "um_keys (ComputeDelta_insert eq m (k, s)) \<subseteq> C"
    using keys_insert [OF h(2,1), of s] um_keys_erase [of eq k m] h(2)
    by (auto simp: ComputeDelta_insert_def split: option.splits)
  show "um_distinct eq (ComputeDelta_insert eq m (k, s))"
    using distinct_insert [OF h(3,2,1), of s] um_distinct_erase [OF h(3), of k] h(3)
    by (auto simp: ComputeDelta_insert_def split: option.splits)
  fix x assume x: "x \<in> C"
  have same: "um_lookup eq x m = um_lookup eq k m" if "eq x k"
    using lookup_cong [OF x h(1,2) that] .
  show "um_lookup eq x (ComputeDelta_insert eq m (k, s)) =
      (if eq x k then delta_entry (um_lookup eq x m) (Some s) else um_lookup eq x m)"
  proof (cases "um_find eq k m")
    case None
    then have "um_lookup eq k m = None" by (simp add: um_lookup_def)
    then show ?thesis using None same lookup_insert [OF h(1) x h(2), of s]
      by (auto simp: ComputeDelta_insert_def delta_entry_def)
  next
    case (Some e)
    then have "um_lookup eq k m = Some (snd e)" by (rule um_lookup_find)
    then show ?thesis using Some same lookup_update [OF h(1) x h(2)] lookup_erase [OF h(3,2,1) x]
      by (auto simp: ComputeDelta_insert_def delta_entry_def)
  qed
qed

lemma ComputeDelta_close_eq:
  "ComputeDelta_close eq new m =
     List.map_filter (\<lambda>(k, s). map_option (Pair k)
       (if um_find eq k new \<noteq> None then Some s else if IsActive s then Some (SetActive False s) else None)) m"
  by (induction m) (auto simp: List.map_filter_simps)

lemma lookup_ComputeDelta:
  assumes "um_distinct eq new" "um_keys new \<subseteq> C" "um_distinct eq old" "um_keys old \<subseteq> C" "x \<in> C"
  shows "um_lookup eq x (ComputeDelta eq new old) = delta_entry (um_lookup eq x old) (um_lookup eq x new)"
proof -
  let ?m = "foldl (ComputeDelta_insert eq) old new"
  note fold = fold_alters [OF alters_ComputeDelta_insert assms(1-4)]
  note look = lookup_fold_alters [OF alters_ComputeDelta_insert assms]
  have cong: "(if um_find eq k new \<noteq> None then a else b) = (if um_find eq k' new \<noteq> None then a else b)"
    if "k \<in> C" "k' \<in> C" "eq k k'" for k k' and a b :: "ConnStatus option"
    using lookup_cong [OF that(1,2) assms(2) that(3)] by (simp add: um_find_None_lookup)
  have "um_lookup eq x (ComputeDelta eq new old) =
    (case um_lookup eq x ?m of None \<Rightarrow> None | Some s \<Rightarrow>
       if um_find eq x new \<noteq> None then Some s else if IsActive s then Some (SetActive False s) else None)"
    unfolding ComputeDelta_def ComputeDelta_close_eq
    using fold assms(5) by (intro lookup_map_filter cong) simp_all
  then show ?thesis unfolding look um_find_None_lookup
    by (cases "um_lookup eq x old"; cases "um_lookup eq x new") (simp_all add: delta_entry_def)
qed

lemma distinct_UpdateOldState_lookup:
  assumes "um_distinct eq new" "um_keys new \<subseteq> C" "um_distinct eq old" "um_keys old \<subseteq> C"
  shows "um_distinct eq (UpdateOldState eq old new t p)" "um_keys (UpdateOldState eq old new t p) \<subseteq> C"
    "x \<in> C \<Longrightarrow> um_lookup eq x (UpdateOldState eq old new t p) =
      (case um_lookup eq x new of
         Some s \<Rightarrow> Some s
       | None \<Rightarrow> (case um_lookup eq x old of
                   None \<Rightarrow> None | Some s \<Rightarrow> if IsInAfterglowPeriod s t p then Some s else None))"
proof -
  let ?kept = "filter (\<lambda>(k, s). IsInAfterglowPeriod s t p) old"
  have kept: "um_distinct eq ?kept" "um_keys ?kept \<subseteq> C"
    using um_distinct_filter [OF assms(3)] subset_trans [OF um_keys_filter assms(4)] by simp_all
  note fold = fold_alters [OF alters_put assms(1,2) kept]
  note look = lookup_fold_alters [OF alters_put assms(1,2) kept]
  show "um_distinct eq (UpdateOldState eq old new t p)" "um_keys (UpdateOldState eq old new t p) \<subseteq> C"
    unfolding UpdateOldState_def using fold by simp_all
  assume x: "x \<in> C"
  have "um_lookup eq x ?kept = (case um_lookup eq x old of
      None \<Rightarrow> None | Some s \<Rightarrow> if IsInAfterglowPeriod s t p then Some s else None)"
    using lookup_filter [OF assms(3,4) x, of "\<lambda>(k, s). IsInAfterglowPeriod s t p"]
    by (simp split: option.split)
  then show "um_lookup eq x (UpdateOldState eq old new t p) =
      (case um_lookup eq x new of
         Some s \<Rightarrow> Some s
       | None \<Rightarrow> (case um_lookup eq x old of
                   None \<Rightarrow> None | Some s \<Rightarrow> if IsInAfterglowPeriod s t p then Some s else None))"
    unfolding UpdateOldState_def look [OF x] by (cases "um_lookup eq x new") simp_all
qed

lemma alters_insert_opt:
  fixes h :: "'k \<Rightarrow> 'v \<Rightarrow> 'v option"
  shows "um_alters eq C (\<lambda>st e. case h (fst e) (snd e) of None \<Rightarrow> st | Some d \<Rightarrow> fst (um_insert eq (fst e) d st))
     (\<lambda>k s v. case v of Some w \<Rightarrow> Some w | None \<Rightarrow> h k s)"
proof (rule altersI)
  fix m :: "('k, 'v) umap" and k s x
  assume m: "k \<in> C" "um_keys m \<subseteq> C" "um_distinct eq m" and x: "x \<in> C"
  show "um_lookup eq x (case h (fst (k, s)) (snd (k, s)) of None \<Rightarrow> m
        | Some d \<Rightarrow> fst (um_insert eq (fst (k, s)) d m)) =
      (if eq x k then case um_lookup eq x m of Some w \<Rightarrow> Some w | None \<Rightarrow> h k s else um_lookup eq x m)"
    using lookup_insert [OF m(1) x m(2)] lookup_cong [OF x m(1,2)]
    by (simp split: option.split)
qed (simp_all add: keys_insert distinct_insert split: option.split)

lemma afterglow_new_step:
  "(case um_find eq (fst e) old of
      Some old_conn \<Rightarrow>
        ComputeDeltaForAConnectionInOldAndNewStates eq e (snd old_conn) delta t t_last p
    | None \<Rightarrow> ComputeDeltaForAConnectionInNewState eq e delta t p) =
   (case afterglow_entry t t_last p (um_lookup eq (fst e) old) (Some (snd e)) of
      None \<Rightarrow> delta | Some d \<Rightarrow> fst (um_insert eq (fst e) d delta))"
  by (cases e)
     (auto simp: um_lookup_def afterglow_entry_def force_active_def Let_def ChangeConnToActiveIfNeeded_def
        ComputeDeltaForAConnectionInOldAndNewStates_def ComputeDeltaForAConnectionInNewState_def
        split: option.split)

lemma afterglow_old_step:
  "(case e of (k, s) \<Rightarrow>
      if CheckIfOldConnShouldBeInactiveInDelta eq k s new t t_last p
      then fst (um_insert eq k (ConnStatus_mk (LastActiveTime s) False) delta) else delta) =
   (case (if um_lookup eq (fst e) new = None then afterglow_entry t t_last p (Some (snd e)) None else None) of
      None \<Rightarrow> delta | Some d \<Rightarrow> fst (um_insert eq (fst e) d delta))"
  by (cases e)
     (auto simp: CheckIfOldConnShouldBeInactiveInDelta_def um_find_None_lookup afterglow_entry_def)

lemma lookup_ComputeDeltaAfterglow:
  assumes "um_distinct eq new" "um_keys new \<subseteq> C" "um_distinct eq old" "um_keys old \<subseteq> C"
    "um_distinct eq delta" "um_keys delta \<subseteq> C" "x \<in> C"
  shows "um_lookup eq x (ComputeDeltaAfterglow eq new old delta t t_last p) =
    (case um_lookup eq x delta of
       Some w \<Rightarrow> Some w
     | None \<Rightarrow> afterglow_entry t t_last p (um_lookup eq x old) (um_lookup eq x new))"
proof -
  let ?h1 = "\<lambda>k s. afterglow_entry t t_last p (um_lookup eq k old) (Some s)"
  let ?h2 = "\<lambda>k s. if um_lookup eq k new = None then afterglow_entry t t_last p (Some s) None else None"
  let ?g = "\<lambda>h st e. case h (fst e) (snd e) of None \<Rightarrow> st | Some d \<Rightarrow> fst (um_insert eq (fst e) d st)"
  have def: "ComputeDeltaAfterglow eq new old delta t t_last p = foldl (?g ?h2) (foldl (?g ?h1) delta new) old"
    unfolding ComputeDeltaAfterglow_def Let_def afterglow_new_step afterglow_old_step ..
  note f1 = fold_alters [OF alters_insert_opt [of ?h1] assms(1,2,5,6)]
  note f2 = fold_alters [OF alters_insert_opt [of ?h2] assms(3,4), of "foldl (?g ?h1) delta new"]
  have key: "um_lookup eq k m = um_lookup eq x m" if "um_find eq x m' = Some (k, s)"
    "um_keys m' \<subseteq> C" "um_keys m \<subseteq> C" for k s and m m' :: "('k, ConnStatus) umap"
  proof -
    from um_find_SomeD [OF that(1)] have "k \<in> C" "eq x k" using that(2) by (force simp: um_keys_def)+
    then show ?thesis using lookup_cong [OF assms(7) \<open>k \<in> C\<close> that(3)] by simp
  qed
  have l1: "um_lookup eq x (foldl (?g ?h1) delta new) =
    (case um_lookup eq x delta of Some w \<Rightarrow> Some w | None \<Rightarrow>
       (case um_lookup eq x new of None \<Rightarrow> None
        | Some s \<Rightarrow> afterglow_entry t t_last p (um_lookup eq x old) (Some s)))"
    using f1 assms(7) key [OF _ assms(2,4)] by (auto simp: um_lookup_def [of eq x new] split: option.splits)
  have "um_lookup eq x (foldl (?g ?h2) (foldl (?g ?h1) delta new) old) =
    (case um_lookup eq x (foldl (?g ?h1) delta new) of Some w \<Rightarrow> Some w | None \<Rightarrow>
       (case um_lookup eq x old of None \<Rightarrow> None
        | Some s \<Rightarrow> if um_lookup eq x new = None then afterglow_entry t t_last p (Some s) None else None))"
    using f1 f2 assms(7) key [OF _ assms(4,2)] by (auto simp: um_lookup_def [of eq x old] split: option.splits)
  then show ?thesis unfolding def l1
    by (cases "um_lookup eq x delta"; cases "um_lookup eq x old"; cases "um_lookup eq x new")
       (simp_all add: afterglow_entry_def)
qed

end

section \<open>The view of the receiver\<close>

text \<open>
  The receiver of a delta keeps the set of keys it believes active: an entry of the delta sets
  the activity of its key, the other keys keep theirs.
\<close>

definition active_in :: "('k \<Rightarrow> 'k \<Rightarrow> bool) \<Rightarrow> ('k, ConnStatus) umap \<Rightarrow> 'k \<Rightarrow> bool" where
  "active_in eq m x = (case um_lookup eq x m of None \<Rightarrow> False | Some s \<Rightarrow> IsActive s)"

definition recently_active_in ::
  "('k \<Rightarrow> 'k \<Rightarrow> bool) \<Rightarrow> ('k, ConnStatus) umap \<Rightarrow> int \<Rightarrow> int \<Rightarrow> 'k \<Rightarrow> bool" where
  "recently_active_in eq m t p x =
     (case um_lookup eq x m of None \<Rightarrow> False | Some s \<Rightarrow> WasRecentlyActive s t p)"

definition apply_delta ::
  "('k \<Rightarrow> 'k \<Rightarrow> bool) \<Rightarrow> ('k, ConnStatus) umap \<Rightarrow> ('k \<Rightarrow> bool) \<Rightarrow> 'k \<Rightarrow> bool" where
  "apply_delta eq delta view x =
     (case um_lookup eq x delta of None \<Rightarrow> view x | Some s \<Rightarrow> IsActive s)"

lemma force_active_IsActive: "IsActive (force_active (WasRecentlyActive s t p) s) = WasRecentlyActive s t p"
  by (auto simp: force_active_def WasRecentlyActive_def)

lemma afterglow_entry_view:
  assumes "t_last \<le> t"
  shows "(case afterglow_entry t t_last p old new of
            None \<Rightarrow> (case old of None \<Rightarrow> False | Some s \<Rightarrow> WasRecentlyActive s t_last p)
          | Some d \<Rightarrow> IsActive d) \<longleftrightarrow>
    (case new of
       Some s \<Rightarrow> WasRecentlyActive s t p
     | None \<Rightarrow> (case old of None \<Rightarrow> False | Some s \<Rightarrow> IsInAfterglowPeriod s t p))"
proof (cases old)
  case None
  then show ?thesis by (cases new) (simp_all add: afterglow_entry_def force_active_IsActive)
next
  case (Some s')
  show ?thesis
  proof (cases new)
    case None
    have "IsInAfterglowPeriod s' t p \<Longrightarrow> IsInAfterglowPeriod s' t_last p"
      using assms by (simp add: IsInAfterglowPeriod_def)
    then show ?thesis using Some None by (auto simp: afterglow_entry_def WasRecentlyActive_def)
  next
    case (Some s)
    then show ?thesis using \<open>old = Some s'\<close>
      by (auto simp: afterglow_entry_def force_active_def WasRecentlyActive_def)
  qed
qed

text \<open>
  Rounds of scraping with afterglow: in each round the tracker's state \<open>new\<close> is compared with
  the remembered one, the delta is sent and the remembered state updated.
\<close>

inductive afterglow_reachable ::
  "('k \<Rightarrow> 'k \<Rightarrow> bool) \<Rightarrow> 'k set \<Rightarrow> int \<Rightarrow> ('k, ConnStatus) umap \<Rightarrow> int \<Rightarrow> ('k \<Rightarrow> bool) \<Rightarrow> bool"
  for eq C p where
  start: "afterglow_reachable eq C p [] t (\<lambda>_. False)"
| scrape: "\<lbrakk>afterglow_reachable eq C p old t_last view; t_last \<le> t;
     um_distinct eq new; um_keys new \<subseteq> C;
     delta = ComputeDeltaAfterglow eq new old [] t t_last p\<rbrakk> \<Longrightarrow>
   afterglow_reachable eq C p (UpdateOldState eq old new t p) t (apply_delta eq delta view)"

context key_equality
begin

lemma afterglow_invariant:
  assumes "afterglow_reachable eq C p old t view"
  shows "um_distinct eq old \<and> um_keys old \<subseteq> C \<and> (\<forall>x \<in> C. view x = recently_active_in eq old t p x)"
  using assms
proof (induction rule: afterglow_reachable.induct)
  case (start t)
  then show ?case by (simp add: recently_active_in_def)
next
  case (scrape old t_last view t new delta)
  then have old: "um_distinct eq old" "um_keys old \<subseteq> C" by auto
  note upd = distinct_UpdateOldState_lookup [OF scrape.hyps(3,4) old]
  have "apply_delta eq delta view x = recently_active_in eq (UpdateOldState eq old new t p) t p x"
    if x: "x \<in> C" for x
  proof -
    have "um_lookup eq x delta = afterglow_entry t t_last p (um_lookup eq x old) (um_lookup eq x new)"
      unfolding scrape.hyps(5)
      using lookup_ComputeDeltaAfterglow [OF scrape.hyps(3,4) old _ _ x, of "[]"] by simp
    moreover have "view x = (case um_lookup eq x old of None \<Rightarrow> False | Some s \<Rightarrow> WasRecentlyActive s t_last p)"
      using scrape.IH x by (simp add: recently_active_in_def)
    ultimately show ?thesis
      using afterglow_entry_view [OF scrape.hyps(2), of p "um_lookup eq x old" "um_lookup eq x new"]
      unfolding apply_delta_def recently_active_in_def upd(3) [OF x]
      by (cases "um_lookup eq x new"; cases "um_lookup eq x old")
         (auto simp: WasRecentlyActive_def split: option.split)
  qed
  then show ?case using upd by simp
qed

end

section \<open>Properties\<close>

text \<open>
  C4: a delta without afterglow brings the receiver's view up to date: after applying it to the
  activity recorded in the old state, the receiver sees exactly the objects active in the new
  state; and it is minimal, having no entry for an object that is active in both states or
  that is inactive in both with no later activity.
\<close>

theorem ComputeDelta_updates_view:
  assumes "key_equality eq C" "um_distinct eq new" "um_keys new \<subseteq> C"
    "um_distinct eq old" "um_keys old \<subseteq> C" "x \<in> C"
  shows "apply_delta eq (ComputeDelta eq new old) (active_in eq old) x = active_in eq new x \<and>
    (um_lookup eq x (ComputeDelta eq new old) = None \<longleftrightarrow>
       (case (um_lookup eq x old, um_lookup eq x new) of
          (Some s', Some s) \<Rightarrow>
            IsActive s = IsActive s' \<and> (IsActive s \<or> LastActiveTime s \<le> LastActiveTime s')
        | (Some s', None) \<Rightarrow> \<not> IsActive s'
        | (None, Some s) \<Rightarrow> False
        | (None, None) \<Rightarrow> True))"
  using key_equality.lookup_ComputeDelta [OF assms]
  by (cases "um_lookup eq x old"; cases "um_lookup eq x new")
     (auto simp: apply_delta_def active_in_def delta_entry_def)

theorem ComputeDelta_updates_view_witness:
  "let new = [(example_conn, ConnStatus_mk 7 True)]
   in apply_delta Connection_eq (ComputeDelta Connection_eq new []) (active_in Connection_eq []) example_conn =
      active_in Connection_eq new example_conn \<and> active_in Connection_eq new example_conn"
  using ComputeDelta_updates_view [OF conn_keys.key_equality_axioms _ _ _ _ example_conn_carrier,
      of "[(example_conn, ConnStatus_mk 7 True)]" "[]"] example_conn_carrier
  by (simp add: active_in_def)

text \<open>
  C3: with afterglow, over any number of rounds of scraping with a clock that does not go back,
  the receiver that applies every delta sees exactly the objects that the remembered state
  holds as active or active within the afterglow period at the last scrape.
\<close>

theorem afterglow_view_in_step:
  assumes "key_equality eq C" "afterglow_reachable eq C p old t view" "x \<in> C"
  shows "view x = recently_active_in eq old t p x"
  using key_equality.afterglow_invariant [OF assms(1,2)] assms(3) by blast

theorem afterglow_view_in_step_witness:
  "\<exists>old t view. afterglow_reachable Connection_eq (conn_carrier (\<lambda>_. True) (\<lambda>_. True)) 20 old t view \<and>
     view example_conn \<and> recently_active_in Connection_eq old t 20 example_conn"
proof -
  let ?R = "afterglow_reachable Connection_eq (conn_carrier (\<lambda>_. True) (\<lambda>_. True)) 20"
  let ?new = "[(example_conn, ConnStatus_mk 7 True)]"
  let ?old = "UpdateOldState Connection_eq [] ?new 10 20"
  let ?view = "apply_delta Connection_eq (ComputeDeltaAfterglow Connection_eq ?new [] [] 10 5 20) (\<lambda>_. False)"
  have r: "?R ?old 10 ?view"
    using example_conn_carrier
    by (intro afterglow_reachable.scrape [OF afterglow_reachable.start]) simp_all
  have "recently_active_in Connection_eq ?old 10 20 example_conn"
    by (simp add: recently_active_in_def UpdateOldState_def um_put_def um_insert_def WasRecentlyActive_def)
  moreover have "?view example_conn = recently_active_in Connection_eq ?old 10 20 example_conn"
    by (rule afterglow_view_in_step [OF conn_keys.key_equality_axioms r example_conn_carrier])
  ultimately show ?thesis using r by blast
qed

text \<open>
  C14: an object that was recently active at the previous scrape and is recently active now is
  not reported again, and one that leaves the afterglow period unseen is reported closed with
  the time of its last activity.
\<close>

theorem afterglow_suppresses_flapping:
  assumes "key_equality eq C" "um_distinct eq new" "um_keys new \<subseteq> C"
    "um_distinct eq old" "um_keys old \<subseteq> C" "x \<in> C"
    "um_lookup eq x old = Some s'" "WasRecentlyActive s' t_last p"
  shows "(case um_lookup eq x new of
      Some s \<Rightarrow> WasRecentlyActive s t p \<longrightarrow>
        um_lookup eq x (ComputeDeltaAfterglow eq new old [] t t_last p) = None
    | None \<Rightarrow> \<not> IsInAfterglowPeriod s' t p \<longrightarrow>
        um_lookup eq x (ComputeDeltaAfterglow eq new old [] t t_last p) =
          Some (ConnStatus_mk (LastActiveTime s') False))"
  using key_equality.lookup_ComputeDeltaAfterglow [OF assms(1-5) _ _ assms(6), of "[]"] assms(7,8)
  by (auto simp: afterglow_entry_def split: option.split)

theorem afterglow_suppresses_flapping_witness:
  "let old = [(example_conn, ConnStatus_mk 7 True)]
   in WasRecentlyActive (ConnStatus_mk 7 True) 10 20 \<and>
      um_lookup Connection_eq example_conn (ComputeDeltaAfterglow Connection_eq old old [] 11 10 20) = None"
  using afterglow_suppresses_flapping [OF conn_keys.key_equality_axioms _ _ _ _ example_conn_carrier,
      of "[(example_conn, ConnStatus_mk 7 True)]" "[(example_conn, ConnStatus_mk 7 True)]"
      "ConnStatus_mk 7 True" 10 20 11] example_conn_carrier
  by (simp add: WasRecentlyActive_def)

end
