(* ===== verification/ConnTracker.thy ===== *)
theory ConnTracker
  imports NRadix ConnDelta CollectorStats ExternalIPs
begin

text \<open>
  The connection tracker of \<open>ConnTracker.h\<close> and \<open>ConnTracker.cpp\<close>. Its mutex makes every public
  operation atomic, so an operation is a function from the state before to the state after; the
  metrics singleton is threaded through the operations that count.
\<close>

section \<open>State\<close>

record PeerStats =
  ps_public :: u32
  ps_private :: u32

record TrackerStats =
  ts_inbound :: PeerStats
  ts_outbound :: PeerStats

definition TrackerStats_zero :: TrackerStats where
  "TrackerStats_zero =
     \<lparr>ts_inbound = \<lparr>ps_public = 0, ps_private = 0\<rparr>, ts_outbound = \<lparr>ps_public = 0, ps_private = 0\<rparr>\<rparr>"

type_synonym L4ProtoPortPair = "L4Proto \<times> u16"

type_synonym ConnMap = "(Connection, ConnStatus) umap"

type_synonym EndpointMap = "(ContainerEndpoint, ConnStatus) umap"

record ConnectionTracker =
  conn_state :: ConnMap
  endpoint_state :: EndpointMap
  known_public_ips :: "Address list"
  known_ip_networks :: nRadixNode
  external_ips_config :: ExternalIPsConfig
  known_private_networks_exists :: "(Family, bool) umap"
  ignored_l4proto_port_pairs :: "L4ProtoPortPair list"
  ignored_networks :: nRadixNode
  non_aggregated_networks :: nRadixNode
  inserted_connections_counters :: TrackerStats

definition ConnectionTracker_new :: ConnectionTracker where
  "ConnectionTracker_new =
     \<lparr>conn_state = [], endpoint_state = [], known_public_ips = [],
      known_ip_networks = NRadixTree_new, external_ips_config = ExternalIPsConfig_default,
      known_private_networks_exists = [], ignored_l4proto_port_pairs = [],
      ignored_networks = NRadixTree_new, non_aggregated_networks = NRadixTree_new,
      inserted_connections_counters = TrackerStats_zero\<rparr>"

definition canonical_external_ipv4_addr :: Address where
  "canonical_external_ipv4_addr = Address_of_octets 255 255 255 255"

definition canonical_external_ipv6_addr :: Address where
  "canonical_external_ipv6_addr = Address_of_ipv6 0xffffffffffffffff 0xffffffffffffffff"

definition private_networks_tree :: nRadixNode where
  "private_networks_tree = NRadixTree_of PrivateNetworks"

definition AdvertisedEndpointEquality :: "ContainerEndpoint \<Rightarrow> ContainerEndpoint \<Rightarrow> bool" where
  "AdvertisedEndpointEquality lhs rhs =
     (case (cep_originator lhs, cep_originator rhs) of
        (None, None) \<Rightarrow>
          cep_container lhs = cep_container rhs \<and> Endpoint_eq (cep_endpoint lhs) (cep_endpoint rhs) \<and>
          cep_l4proto lhs = cep_l4proto rhs
      | (Some l, Some r) \<Rightarrow>
          if proc_comm l \<noteq> proc_comm r \<or> proc_exe_path l \<noteq> proc_exe_path r \<or> proc_args l \<noteq> proc_args r
          then False
          else cep_container lhs = cep_container rhs \<and>
               Endpoint_eq (cep_endpoint lhs) (cep_endpoint rhs) \<and> cep_l4proto lhs = cep_l4proto rhs
      | _ \<Rightarrow> False)"

definition ContainsPrivateNetwork :: "Family \<Rightarrow> nRadixNode \<Rightarrow> bool" where
  "ContainsPrivateNetwork family tree =
     (NRadix_IsAnyIPNetSubset tree family private_networks_tree \<or>
      NRadix_IsAnyIPNetSubset private_networks_tree family tree)"

section \<open>Filters\<close>

definition HasConnectionFilters :: "ConnectionTracker \<Rightarrow> bool" where
  "HasConnectionFilters t =
     (ignored_l4proto_port_pairs t \<noteq> [] \<or> \<not> NRadix_IsEmpty (ignored_networks t))"

definition IsIgnoredL4ProtoPortPair :: "ConnectionTracker \<Rightarrow> L4ProtoPortPair \<Rightarrow> bool" where
  "IsIgnoredL4ProtoPortPair t p = (p \<in> set (ignored_l4proto_port_pairs t))"

definition ShouldFetchConnection :: "ConnectionTracker \<Rightarrow> Connection \<Rightarrow> bool" where
  "ShouldFetchConnection t conn =
     (\<not> IsIgnoredL4ProtoPortPair t (Connection_l4proto conn, ep_port (conn_local conn)) \<and>
      \<not> IsIgnoredL4ProtoPortPair t (Connection_l4proto conn, ep_port (conn_remote conn)) \<and>
      IPNet_IsNull (NRadix_Find_addr (ignored_networks t) (Endpoint_address (conn_remote conn))))"

definition ShouldFetchContainerEndpoint :: "ConnectionTracker \<Rightarrow> ContainerEndpoint \<Rightarrow> bool" where
  "ShouldFetchContainerEndpoint t cep =
     (\<not> IsIgnoredL4ProtoPortPair t (cep_l4proto cep, ep_port (cep_endpoint cep)))"

section \<open>Normalization\<close>

definition NormalizeAddress :: "ConnectionTracker \<Rightarrow> Address \<Rightarrow> bool \<Rightarrow> IPNet" where
  "NormalizeAddress t address enable_external_ips =
     (if Address_IsNull address then IPNet_default
      else
        (let private_addr = (\<not> Address_IsPublic address);
             do_not_aggregate_addr =
               (\<not> IPNet_IsNull (NRadix_Find_addr (non_aggregated_networks t) address));
             keep_addr = (private_addr \<or> do_not_aggregate_addr)
         in if keep_addr \<and>
               um_lookup (=) (addr_family address) (known_private_networks_exists t) = Some False
            then IPNet_mk address 0 True
            else
              (let network = NRadix_Find_addr (known_ip_networks t) address
               in if keep_addr \<or> address \<in> set (known_public_ips t)
                  then IPNet_mk address (net_bits network) True
                  else if \<not> IPNet_IsNull network then network
                  else if enable_external_ips then IPNet_mk address (Address_length address * 8) False
                  else
                    (case addr_family address of
                       IPV4 \<Rightarrow> IPNet_mk canonical_external_ipv4_addr 0 True
                     | IPV6 \<Rightarrow> IPNet_mk canonical_external_ipv6_addr 0 True
                     | UNKNOWN \<Rightarrow> IPNet_default))))"

definition ShouldNormalizeConnection :: "ConnectionTracker \<Rightarrow> Connection \<Rightarrow> bool" where
  "ShouldNormalizeConnection t conn =
     Address_IsCanonicalExternalIp
       (net_address (NormalizeAddress t (Endpoint_address (conn_remote conn)) False))"

definition NormalizeConnection :: "ConnectionTracker \<Rightarrow> Connection \<Rightarrow> Connection" where
  "NormalizeConnection t conn =
     (let is_server =
            (if Connection_l4proto conn = UDP
             then IsEphemeralPort (ep_port (conn_remote conn)) > IsEphemeralPort (ep_port (conn_local conn))
             else Connection_is_server conn);
          extIPs_ingress = IsEnabled (external_ips_config t) DirINGRESS;
          extIPs_egress = IsEnabled (external_ips_config t) DirEGRESS;
          (local, remote) =
            (if is_server
             then (Endpoint_of_network (IPNet_of_address Address_default) (ep_port (conn_local conn)),
                   Endpoint_of_network
                     (NormalizeAddress t (Endpoint_address (conn_remote conn)) extIPs_ingress) 0)
             else (Endpoint_default,
                   Endpoint_of_network
                     (NormalizeAddress t (Endpoint_address (conn_remote conn)) extIPs_egress)
                     (ep_port (conn_remote conn))))
      in Connection_mk (conn_container conn) local remote (Connection_l4proto conn) is_server)"

definition NormalizeContainerEndpoint :: "ContainerEndpoint \<Rightarrow> ContainerEndpoint" where
  "NormalizeContainerEndpoint cep =
     cep\<lparr>cep_endpoint :=
           Endpoint_of_address (Address_of_family (addr_family (Endpoint_address (cep_endpoint cep))))
             (ep_port (cep_endpoint cep))\<rparr>"

section \<open>Closing connections on a configuration change\<close>

text \<open>The loop erases the matching connections from the old state and moves them to the delta.\<close>

fun CloseConnections :: "(Connection \<Rightarrow> bool) \<Rightarrow> ConnMap \<Rightarrow> ConnMap \<Rightarrow> ConnMap \<times> ConnMap" where
  "CloseConnections predicate [] delta_conn = ([], delta_conn)"
| "CloseConnections predicate ((k, s) # rest) delta_conn =
     (if predicate k then
        (let s' = (if IsActive s then SetActive False s else s);
             delta' = fst (um_insert Connection_eq k s' delta_conn)
         in CloseConnections predicate rest delta')
      else
        (let (old', delta') = CloseConnections predicate rest delta_conn in ((k, s) # old', delta')))"

definition should_close :: "ConnectionTracker \<Rightarrow> Connection \<Rightarrow> bool \<Rightarrow> bool" where
  "should_close t conn enabling_extIPs =
     (if enabling_extIPs
      then Address_IsCanonicalExternalIp (Endpoint_address (conn_remote conn))
      else \<not> Address_IsCanonicalExternalIp (Endpoint_address (conn_remote conn)) \<and>
           ShouldNormalizeConnection t conn)"

definition CloseConnectionsOnExternalIPsConfigChange ::
  "ConnectionTracker \<Rightarrow> ExternalIPsConfig \<Rightarrow> ConnMap \<Rightarrow> ConnMap \<Rightarrow> ConnMap \<times> ConnMap" where
  "CloseConnectionsOnExternalIPsConfigChange t prev_config old_conn_state delta_conn =
     (let ingress = IsEnabled (external_ips_config t) DirINGRESS;
          egress = IsEnabled (external_ips_config t) DirEGRESS;
          (old1, delta1) =
            (if egress \<noteq> IsEnabled prev_config DirEGRESS
             then CloseConnections (\<lambda>conn. \<not> Connection_is_server conn \<and> should_close t conn egress)
                    old_conn_state delta_conn
             else (old_conn_state, delta_conn))
      in if ingress \<noteq> IsEnabled prev_config DirINGRESS
         then CloseConnections (\<lambda>conn. Connection_is_server conn \<and> should_close t conn ingress) old1 delta1
         else (old1, delta1))"

section \<open>Updates\<close>

definition EmplaceOrUpdate ::
  "('k \<Rightarrow> 'k \<Rightarrow> bool) \<Rightarrow> ('k, ConnStatus) umap \<Rightarrow> 'k \<Rightarrow> ConnStatus \<Rightarrow> ('k, ConnStatus) umap \<times> bool" where
  "EmplaceOrUpdate eq m obj status =
     (case um_find eq obj m of
        None \<Rightarrow> um_insert eq obj status m
      | Some e \<Rightarrow>
          (if LastActiveTime status > LastActiveTime (snd e)
           then um_update eq obj (\<lambda>_. status) m else m, False))"

definition peer_inc :: "bool \<Rightarrow> PeerStats \<Rightarrow> PeerStats" where
  "peer_inc is_public p =
     (if is_public then p\<lparr>ps_public := ps_public p + 1\<rparr> else p\<lparr>ps_private := ps_private p + 1\<rparr>)"

definition IncrementConnectionStats ::
  "ConnectionTracker \<Rightarrow> Connection \<Rightarrow> TrackerStats \<Rightarrow> TrackerStats" where
  "IncrementConnectionStats t conn stats =
     (if \<not> ShouldFetchConnection t conn then stats
      else
        (let is_public = Address_IsPublic (Endpoint_address (conn_remote conn))
         in if Connection_is_server conn
            then stats\<lparr>ts_inbound := peer_inc is_public (ts_inbound stats)\<rparr>
            else stats\<lparr>ts_outbound := peer_inc is_public (ts_outbound stats)\<rparr>))"

definition EmplaceOrUpdateConnection ::
  "Connection \<Rightarrow> ConnStatus \<Rightarrow> ConnectionTracker \<times> CollectorStats \<Rightarrow> ConnectionTracker \<times> CollectorStats" where
  "EmplaceOrUpdateConnection conn status st =
     (let (t, stats) = st;
          stats' = COUNTER_INC net_conn_updates stats;
          (m, added) = EmplaceOrUpdate Connection_eq (conn_state t) conn status;
          t' = t\<lparr>conn_state := m\<rparr>
      in (if added
          then t'\<lparr>inserted_connections_counters :=
                    IncrementConnectionStats t' conn (inserted_connections_counters t')\<rparr>
          else t', stats'))"

definition EmplaceOrUpdateEndpoint ::
  "ContainerEndpoint \<Rightarrow> ConnStatus \<Rightarrow> ConnectionTracker \<times> CollectorStats \<Rightarrow>
     ConnectionTracker \<times> CollectorStats" where
  "EmplaceOrUpdateEndpoint ep status st =
     (let (t, stats) = st
      in (t\<lparr>endpoint_state := fst (EmplaceOrUpdate ContainerEndpoint_eq (endpoint_state t) ep status)\<rparr>,
          COUNTER_INC net_cep_updates stats))"

definition UpdateConnection ::
  "Connection \<Rightarrow> int \<Rightarrow> bool \<Rightarrow> ConnectionTracker \<times> CollectorStats \<Rightarrow> ConnectionTracker \<times> CollectorStats" where
  "UpdateConnection conn timestamp added st =
     EmplaceOrUpdateConnection conn (ConnStatus_mk timestamp added) st"

definition AddConnection ::
  "Connection \<Rightarrow> int \<Rightarrow> ConnectionTracker \<times> CollectorStats \<Rightarrow> ConnectionTracker \<times> CollectorStats" where
  "AddConnection conn timestamp st = UpdateConnection conn timestamp True st"

definition RemoveConnection ::
  "Connection \<Rightarrow> int \<Rightarrow> ConnectionTracker \<times> CollectorStats \<Rightarrow> ConnectionTracker \<times> CollectorStats" where
  "RemoveConnection conn timestamp st = UpdateConnection conn timestamp False st"

definition Update ::
  "Connection list \<Rightarrow> ContainerEndpoint list \<Rightarrow> int \<Rightarrow> ConnectionTracker \<times> CollectorStats \<Rightarrow>
     ConnectionTracker \<times> CollectorStats" where
  "Update all_conns all_listen_endpoints timestamp st =
     (let (t, stats) = st;
          t1 = t\<lparr>conn_state := map (\<lambda>(k, s). (k, SetActive False s)) (conn_state t),
                 endpoint_state := map (\<lambda>(k, s). (k, SetActive False s)) (endpoint_state t)\<rparr>;
          new_status = ConnStatus_mk timestamp True;
          st2 = foldl (\<lambda>st conn. EmplaceOrUpdateConnection conn new_status st) (t1, stats) all_conns
      in foldl (\<lambda>st ep. EmplaceOrUpdateEndpoint ep new_status st) st2 all_listen_endpoints)"

section \<open>Fetching\<close>

text \<open>
  The template has a normalization and a filter, \<open>None\<close> for the functors that do nothing; the
  fetched map has its own key equality. The result is the fetched map and the state left.
\<close>

fun FetchState ::
  "('k \<Rightarrow> 'k \<Rightarrow> bool) \<Rightarrow> bool \<Rightarrow> ('k \<Rightarrow> 'k) option \<Rightarrow> ('k \<Rightarrow> bool) option \<Rightarrow> ('k, ConnStatus) umap \<Rightarrow>
     ('k, ConnStatus) umap \<Rightarrow> ('k, ConnStatus) umap \<times> ('k, ConnStatus) umap" where
  "FetchState eq clear_inactive process_fn filter_fn fetched [] = (fetched, [])"
| "FetchState eq clear_inactive process_fn filter_fn fetched (entry # rest) =
     (let fetched' =
        (if (case filter_fn of None \<Rightarrow> True | Some f \<Rightarrow> f (fst entry)) then
           (case process_fn of
              Some f \<Rightarrow>
                (let (m, inserted) = um_insert eq (f (fst entry)) (snd entry) fetched
                 in if \<not> inserted then um_update eq (f (fst entry)) (MergeFrom (snd entry)) m else m)
            | None \<Rightarrow> fst (um_insert eq (fst entry) (snd entry) fetched))
         else fetched);
          (out, left) = FetchState eq clear_inactive process_fn filter_fn fetched' rest
      in (out, if clear_inactive \<and> \<not> IsActive (snd entry) then left else entry # left))"

definition FetchConnState ::
  "bool \<Rightarrow> bool \<Rightarrow> ConnectionTracker \<times> CollectorStats \<Rightarrow> (ConnectionTracker \<times> CollectorStats) \<times> ConnMap" where
  "FetchConnState normalized clear_inactive st =
     (let (t, stats) = st;
          state_size = length (conn_state t);
          (cm, left) =
            FetchState Connection_eq clear_inactive
              (if normalized then Some (NormalizeConnection t) else None)
              (if HasConnectionFilters t then Some (ShouldFetchConnection t) else None)
              [] (conn_state t)
      in ((t\<lparr>conn_state := left\<rparr>,
           COUNTER_ADD net_conn_inactive (of_nat state_size - of_nat (length left)) stats), cm))"

definition FetchEndpointState ::
  "bool \<Rightarrow> bool \<Rightarrow> ConnectionTracker \<times> CollectorStats \<Rightarrow>
     (ConnectionTracker \<times> CollectorStats) \<times> EndpointMap" where
  "FetchEndpointState normalized clear_inactive st =
     (let (t, stats) = st;
          state_size = length (conn_state t);
          (cem, left) =
            FetchState AdvertisedEndpointEquality clear_inactive
              (if normalized then Some NormalizeContainerEndpoint else None)
              (if HasConnectionFilters t then Some (ShouldFetchContainerEndpoint t) else None)
              [] (endpoint_state t)
      in ((t\<lparr>endpoint_state := left\<rparr>,
           COUNTER_ADD net_cep_inactive (of_nat state_size - of_nat (length left)) stats), cem))"

section \<open>Configuration\<close>

definition UpdateKnownPublicIPs ::
  "Address list \<Rightarrow> ConnectionTracker \<times> CollectorStats \<Rightarrow> ConnectionTracker \<times> CollectorStats" where
  "UpdateKnownPublicIPs ips st =
     ((fst st)\<lparr>known_public_ips := ips\<rparr>, COUNTER_SET net_known_public_ips (of_nat (length ips)) (snd st))"

definition UpdateKnownIPNetworks ::
  "(Family, IPNet list) umap \<Rightarrow> ConnectionTracker \<times> CollectorStats \<Rightarrow> ConnectionTracker \<times> CollectorStats" where
  "UpdateKnownIPNetworks networks st =
     (let tree = foldl (\<lambda>tree pair. foldl (\<lambda>tree network. fst (NRadix_Insert tree network)) tree (snd pair))
                   NRadixTree_new networks;
          (exists, stats) =
            foldl (\<lambda>(exists, stats) pair.
                (um_put (=) (fst pair) (ContainsPrivateNetwork (fst pair) tree) exists,
                 COUNTER_ADD net_known_ip_networks (of_nat (length (snd pair))) stats))
              ([], COUNTER_ZERO net_known_ip_networks (snd st)) networks
      in ((fst st)\<lparr>known_ip_networks := tree, known_private_networks_exists := exists\<rparr>, stats))"

definition SetExternalIPsConfig :: "ExternalIPsConfig \<Rightarrow> ConnectionTracker \<Rightarrow> ConnectionTracker" where
  "SetExternalIPsConfig config t = t\<lparr>external_ips_config := config\<rparr>"

definition UpdateIgnoredL4ProtoPortPairs :: "L4ProtoPortPair list \<Rightarrow> ConnectionTracker \<Rightarrow> ConnectionTracker" where
  "UpdateIgnoredL4ProtoPortPairs pairs t = t\<lparr>ignored_l4proto_port_pairs := pairs\<rparr>"

definition UpdateIgnoredNetworks :: "IPNet list \<Rightarrow> ConnectionTracker \<Rightarrow> ConnectionTracker" where
  "UpdateIgnoredNetworks network_list t = t\<lparr>ignored_networks := NRadixTree_of network_list\<rparr>"

definition UpdateNonAggregatedNetworks :: "IPNet list \<Rightarrow> ConnectionTracker \<Rightarrow> ConnectionTracker" where
  "UpdateNonAggregatedNetworks network_list t =
     t\<lparr>non_aggregated_networks := NRadixTree_of network_list\<rparr>"

section \<open>Statistics\<close>

definition GetConnectionStats_StoredConnections :: "ConnectionTracker \<Rightarrow> TrackerStats" where
  "GetConnectionStats_StoredConnections t =
     foldl (\<lambda>stats conn. IncrementConnectionStats t (fst conn) stats) TrackerStats_zero (conn_state t)"

definition GetConnectionStats_NewConnectionCounters :: "ConnectionTracker \<Rightarrow> TrackerStats" where
  "GetConnectionStats_NewConnectionCounters t = inserted_connections_counters t"

end
