(* ===== verification/ConnTrackerLaws.thy ===== *)
theory ConnTrackerLaws
  imports ConnTracker
begin

text \<open>
  Laws of the operations of the connection tracker: updates keep the later status, fetching
  merges statuses, every operation keeps the invariant \<open>tracker_inv\<close>, closing connections
  partitions the old state, and the test for private networks decides overlap.
\<close>

section \<open>Updates keep the later status\<close>

text \<open>The entry of a key after \<open>EmplaceOrUpdate\<close>.\<close>

definition later_status :: "ConnStatus \<Rightarrow> ConnStatus option \<Rightarrow> ConnStatus option" where
  "later_status s old =
     Some (case old of None \<Rightarrow> s | Some s' \<Rightarrow> if LastActiveTime s' < LastActiveTime s then s else s')"

lemma later_status_idem [simp]: "later_status s (later_status s v) = later_status s v"
  by (cases v) (simp_all add: later_status_def)

context key_equality
begin

lemma alters_EmplaceOrUpdate:
  "um_alters eq C (\<lambda>m (k, s). fst (EmplaceOrUpdate eq m k s)) (\<lambda>k s v. later_status s v)"
proof (rule altersI)
  fix m :: "('k, ConnStatus) umap" and k s
  assume h: "k \<in> C" "um_keys m \<subseteq> C" "um_distinct eq m"
  show "um_keys (case (k, s) of (k, s) \<Rightarrow> fst (EmplaceOrUpdate eq m k s)) \<subseteq> C"
    using keys_insert [OF h(2,1)] h by (simp add: EmplaceOrUpdate_def split: option.split)
  show "um_distinct eq (case (k, s) of (k, s) \<Rightarrow> fst (EmplaceOrUpdate eq m k s))"
    using distinct_insert [OF h(3,2,1)] h by (simp add: EmplaceOrUpdate_def split: option.split)
  fix x assume x: "x \<in> C"
  note cong = lookup_cong [OF x h(1,2)]
  show "um_lookup eq x (case (k, s) of (k, s) \<Rightarrow> fst (EmplaceOrUpdate eq m k s)) =
      (if eq x k then later_status s (um_lookup eq x m) else um_lookup eq x m)"
  proof (cases "um_find eq k m")
    case None
    then have "um_lookup eq k m = None" by (simp add: um_lookup_def)
    then show ?thesis using None lookup_insert [OF h(1) x h(2), of s] cong
      by (auto simp: EmplaceOrUpdate_def later_status_def)
  next
    case (Some e)
    then have "um_lookup eq k m = Some (snd e)" by (rule um_lookup_find)
    then show ?thesis using Some lookup_update [OF h(1) x h(2)] cong
      by (auto simp: EmplaceOrUpdate_def later_status_def)
  qed
qed

lemmas emplace_laws = alters_EmplaceOrUpdate [unfolded um_alters_def, rule_format, simplified]

lemma fold_emplace:
  assumes "set ks \<subseteq> C" "um_distinct eq m" "um_keys m \<subseteq> C"
  shows "um_distinct eq (foldl (\<lambda>m k. fst (EmplaceOrUpdate eq m k s)) m ks) \<and>
    um_keys (foldl (\<lambda>m k. fst (EmplaceOrUpdate eq m k s)) m ks) \<subseteq> C \<and>
    (\<forall>x \<in> C. um_lookup eq x (foldl (\<lambda>m k. fst (EmplaceOrUpdate eq m k s)) m ks) =
       (if \<exists>k \<in> set ks. eq x k then later_status s (um_lookup eq x m) else um_lookup eq x m))"
  using assms
proof (induction ks arbitrary: m)
  case (Cons k ks)
  then have k: "k \<in> C" by simp
  note laws = emplace_laws [of k m s]
  have m': "um_distinct eq (fst (EmplaceOrUpdate eq m k s))" "um_keys (fst (EmplaceOrUpdate eq m k s)) \<subseteq> C"
    using laws k Cons.prems by auto
  have "set ks \<subseteq> C" using Cons.prems(1) by simp
  note IH = Cons.IH [OF this m']
  show ?case using IH laws k Cons.prems(2,3) by auto
qed simp

end

text \<open>Fetching merges the statuses of all entries that are normalized to equal keys.\<close>

definition passes :: "('k \<Rightarrow> bool) option \<Rightarrow> 'k \<Rightarrow> bool" where
  "passes ff k = (case ff of None \<Rightarrow> True | Some f \<Rightarrow> f k)"

definition merge_status :: "ConnStatus option \<Rightarrow> ConnStatus \<Rightarrow> ConnStatus option" where
  "merge_status v s = Some (case v of None \<Rightarrow> s | Some w \<Rightarrow> MergeFrom s w)"

lemma foldl_merge_status:
  "foldl merge_status (Some w) ss = Some (Max (insert w (set ss)))"
proof (induction ss arbitrary: w)
  case (Cons s ss)
  have "Max (insert (max w s) (set ss)) = Max (insert w (set (s # ss)))"
    by (simp add: max.assoc insert_commute)
       (metis (no_types) List.finite_set Max_insert Max_singleton insert_not_empty max.assoc max.commute finite.insertI)
  then show ?case using Cons by (simp add: merge_status_def MergeFrom_def)
qed simp

lemma merge_status_all:
  "foldl merge_status None ss = (if ss = [] then None else Some (Max (set ss)))"
  by (cases ss) (simp_all add: merge_status_def foldl_merge_status)

lemma FetchState_left:
  "snd (FetchState eq clear pf ff fetched m) = (if clear then filter (\<lambda>e. IsActive (snd e)) m else m)"
  by (induction m arbitrary: fetched) (auto simp: Let_def case_prod_beta split: option.splits)

context key_equality
begin

lemma lookup_merge_insert:
  fixes s :: ConnStatus
  assumes "um_distinct eq m" "um_keys m \<subseteq> C" "k \<in> C"
  defines "m' \<equiv> (let (m1, inserted) = um_insert eq k s m
      in if \<not> inserted then um_update eq k (MergeFrom s) m1 else m1)"
  shows "um_distinct eq m'" "um_keys m' \<subseteq> C"
    "x \<in> C \<Longrightarrow> um_lookup eq x m' = (if eq x k then merge_status (um_lookup eq x m) s else um_lookup eq x m)"
proof -
  have keys: "um_keys (fst (um_insert eq k s m)) \<subseteq> C" by (rule keys_insert [OF assms(2,3)])
  have dist: "um_distinct eq (fst (um_insert eq k s m))" by (rule distinct_insert [OF assms(1-3)])
  show "um_distinct eq m'" "um_keys m' \<subseteq> C"
    using keys dist by (auto simp: m'_def Let_def case_prod_beta)
  assume x: "x \<in> C"
  note cong = lookup_cong [OF x assms(3,2)]
  show "um_lookup eq x m' = (if eq x k then merge_status (um_lookup eq x m) s else um_lookup eq x m)"
  proof (cases "um_find eq k m")
    case None
    then have "um_lookup eq k m = None" by (simp add: um_lookup_def)
    then show ?thesis using None lookup_insert [OF assms(3) x assms(2), of s] cong
      by (auto simp: m'_def um_insert_def merge_status_def)
  next
    case (Some e)
    then have "um_lookup eq k m = Some (snd e)" by (rule um_lookup_find)
    then show ?thesis using Some lookup_update [OF assms(3) x assms(2)] cong
      by (auto simp: m'_def um_insert_def merge_status_def)
  qed
qed

lemma lookup_FetchState:
  assumes "\<And>k s. (k, s) \<in> set m \<Longrightarrow> passes ff k \<Longrightarrow> f k \<in> C"
    "um_distinct eq fetched" "um_keys fetched \<subseteq> C" "x \<in> C"
  shows "um_lookup eq x (fst (FetchState eq clear (Some f) ff fetched m)) =
    foldl merge_status (um_lookup eq x fetched)
      (map snd (filter (\<lambda>(k, s). passes ff k \<and> eq x (f k)) m))"
  using assms(1-3)
proof (induction m arbitrary: fetched)
  case (Cons e m)
  obtain k s where e: "e = (k, s)" by (cases e)
  let ?f' = "let (m1, inserted) = um_insert eq (f k) s fetched
      in if \<not> inserted then um_update eq (f k) (MergeFrom s) m1 else m1"
  show ?case
  proof (cases "passes ff k")
    case False
    then have "fst (FetchState eq clear (Some f) ff fetched (e # m)) = fst (FetchState eq clear (Some f) ff fetched m)"
      using e by (cases ff) (simp_all add: Let_def case_prod_beta passes_def)
    moreover have "um_lookup eq x (fst (FetchState eq clear (Some f) ff fetched m)) =
      foldl merge_status (um_lookup eq x fetched) (map snd (filter (\<lambda>(k, s). passes ff k \<and> eq x (f k)) m))"
      using Cons.prems by (intro Cons.IH) auto
    ultimately show ?thesis using False e by (simp del: FetchState.simps)
  next
    case True
    have fk: "f k \<in> C" using Cons.prems(1) [of k s] True e by simp
    note ins = lookup_merge_insert [OF Cons.prems(2,3) fk, where s = s]
    have "fst (FetchState eq clear (Some f) ff fetched (e # m)) = fst (FetchState eq clear (Some f) ff ?f' m)"
      using e True by (cases ff) (simp_all add: Let_def case_prod_beta passes_def)
    moreover have "um_lookup eq x (fst (FetchState eq clear (Some f) ff ?f' m)) =
      foldl merge_status (um_lookup eq x ?f') (map snd (filter (\<lambda>(k, s). passes ff k \<and> eq x (f k)) m))"
      using Cons.prems(1) ins(1,2) by (intro Cons.IH) auto
    ultimately show ?thesis using True e ins(3) [OF assms(4)] by (simp del: FetchState.simps)
  qed
qed simp

lemma lookup_FetchState_Max:
  assumes "\<And>k s. (k, s) \<in> set m \<Longrightarrow> passes ff k \<Longrightarrow> f k \<in> C" "x \<in> C"
  defines "S \<equiv> {s. \<exists>k. (k, s) \<in> set m \<and> passes ff k \<and> eq x (f k)}"
  shows "um_lookup eq x (fst (FetchState eq clear (Some f) ff [] m)) = (if S = {} then None else Some (Max S))"
proof -
  let ?l = "map snd (filter (\<lambda>(k, s). passes ff k \<and> eq x (f k)) m)"
  have S: "S = set ?l" unfolding S_def by force
  have "um_lookup eq x (fst (FetchState eq clear (Some f) ff [] m)) = foldl merge_status None ?l"
    using lookup_FetchState [of m ff f "[]" x clear] assms(1,2) by simp
  also have "\<dots> = (if ?l = [] then None else Some (Max (set ?l)))" by (rule merge_status_all)
  finally show ?thesis unfolding S by (simp only: set_empty)
qed

end

interpretation adv_keys: key_equality AdvertisedEndpointEquality "cep_carrier K" for K
  by unfold_locales
     (auto simp: AdvertisedEndpointEquality_def Endpoint_eq_def cep_carrier_def
       intro: net_keys.eq_refl net_keys.eq_sym net_keys.eq_trans split: option.splits if_splits)

section \<open>The operations on the tracker\<close>

text \<open>The state holds addresses only, as the connections that the system reports do.\<close>

abbreviation raw_conns :: "Connection set" where
  "raw_conns \<equiv> conn_carrier (\<lambda>_. True) (\<lambda>_. True)"

abbreviation raw_endpoints :: "ContainerEndpoint set" where
  "raw_endpoints \<equiv> cep_carrier (\<lambda>_. True)"

definition tracker_inv :: "ConnectionTracker \<Rightarrow> bool" where
  "tracker_inv t \<longleftrightarrow>
     um_distinct Connection_eq (conn_state t) \<and> um_keys (conn_state t) \<subseteq> raw_conns \<and>
     um_distinct ContainerEndpoint_eq (endpoint_state t) \<and> um_keys (endpoint_state t) \<subseteq> raw_endpoints \<and>
     tree_inv (known_ip_networks t) \<and> tree_inv (ignored_networks t) \<and> tree_inv (non_aggregated_networks t)"

lemma tracker_inv_new: "tracker_inv ConnectionTracker_new"
  by (simp add: tracker_inv_def ConnectionTracker_new_def tree_inv_new)

lemma EmplaceOrUpdateConnection_state:
  "conn_state (fst (EmplaceOrUpdateConnection c s st)) = fst (EmplaceOrUpdate Connection_eq (conn_state (fst st)) c s)"
  "endpoint_state (fst (EmplaceOrUpdateConnection c s st)) = endpoint_state (fst st)"
  "known_ip_networks (fst (EmplaceOrUpdateConnection c s st)) = known_ip_networks (fst st)"
  "ignored_networks (fst (EmplaceOrUpdateConnection c s st)) = ignored_networks (fst st)"
  "non_aggregated_networks (fst (EmplaceOrUpdateConnection c s st)) = non_aggregated_networks (fst st)"
  by (simp_all add: EmplaceOrUpdateConnection_def Let_def case_prod_beta)

lemma EmplaceOrUpdateEndpoint_state:
  "conn_state (fst (EmplaceOrUpdateEndpoint e s st)) = conn_state (fst st)"
  "endpoint_state (fst (EmplaceOrUpdateEndpoint e s st)) =
     fst (EmplaceOrUpdate ContainerEndpoint_eq (endpoint_state (fst st)) e s)"
  "known_ip_networks (fst (EmplaceOrUpdateEndpoint e s st)) = known_ip_networks (fst st)"
  "ignored_networks (fst (EmplaceOrUpdateEndpoint e s st)) = ignored_networks (fst st)"
  "non_aggregated_networks (fst (EmplaceOrUpdateEndpoint e s st)) = non_aggregated_networks (fst st)"
  by (simp_all add: EmplaceOrUpdateEndpoint_def Let_def case_prod_beta)

lemma fold_conn_states:
  "conn_state (fst (foldl (\<lambda>st c. EmplaceOrUpdateConnection c s st) st cs)) =
     foldl (\<lambda>m c. fst (EmplaceOrUpdate Connection_eq m c s)) (conn_state (fst st)) cs"
  "endpoint_state (fst (foldl (\<lambda>st c. EmplaceOrUpdateConnection c s st) st cs)) = endpoint_state (fst st)"
  "known_ip_networks (fst (foldl (\<lambda>st c. EmplaceOrUpdateConnection c s st) st cs)) = known_ip_networks (fst st)"
  "ignored_networks (fst (foldl (\<lambda>st c. EmplaceOrUpdateConnection c s st) st cs)) = ignored_networks (fst st)"
  "non_aggregated_networks (fst (foldl (\<lambda>st c. EmplaceOrUpdateConnection c s st) st cs)) =
     non_aggregated_networks (fst st)"
  by (induction cs arbitrary: st) (simp_all add: EmplaceOrUpdateConnection_state)

lemma fold_endpoint_states:
  "conn_state (fst (foldl (\<lambda>st e. EmplaceOrUpdateEndpoint e s st) st es)) = conn_state (fst st)"
  "endpoint_state (fst (foldl (\<lambda>st e. EmplaceOrUpdateEndpoint e s st) st es)) =
     foldl (\<lambda>m e. fst (EmplaceOrUpdate ContainerEndpoint_eq m e s)) (endpoint_state (fst st)) es"
  "known_ip_networks (fst (foldl (\<lambda>st e. EmplaceOrUpdateEndpoint e s st) st es)) = known_ip_networks (fst st)"
  "ignored_networks (fst (foldl (\<lambda>st e. EmplaceOrUpdateEndpoint e s st) st es)) = ignored_networks (fst st)"
  "non_aggregated_networks (fst (foldl (\<lambda>st e. EmplaceOrUpdateEndpoint e s st) st es)) =
     non_aggregated_networks (fst st)"
  by (induction es arbitrary: st) (simp_all add: EmplaceOrUpdateEndpoint_state)

lemma Update_state:
  "conn_state (fst (Update cs es ts st)) =
     foldl (\<lambda>m c. fst (EmplaceOrUpdate Connection_eq m c (ConnStatus_mk ts True)))
       (map (\<lambda>(k, s). (k, SetActive False s)) (conn_state (fst st))) cs"
  "endpoint_state (fst (Update cs es ts st)) =
     foldl (\<lambda>m c. fst (EmplaceOrUpdate ContainerEndpoint_eq m c (ConnStatus_mk ts True)))
       (map (\<lambda>(k, s). (k, SetActive False s)) (endpoint_state (fst st))) es"
  "known_ip_networks (fst (Update cs es ts st)) = known_ip_networks (fst st)"
  "ignored_networks (fst (Update cs es ts st)) = ignored_networks (fst st)"
  "non_aggregated_networks (fst (Update cs es ts st)) = non_aggregated_networks (fst st)"
  by (simp_all add: Update_def Let_def case_prod_beta fold_conn_states fold_endpoint_states)

lemma tracker_inv_emplace_conn:
  assumes "tracker_inv (fst st)" "c \<in> raw_conns"
  shows "tracker_inv (fst (EmplaceOrUpdateConnection c s st))"
  using assms conn_keys.emplace_laws [of c _ _ "conn_state (fst st)" s]
  by (auto simp: tracker_inv_def EmplaceOrUpdateConnection_state)

lemma tracker_inv_Update:
  assumes "tracker_inv (fst st)" "set cs \<subseteq> raw_conns" "set es \<subseteq> raw_endpoints"
  shows "tracker_inv (fst (Update cs es ts st))"
  using assms
    conn_keys.fold_emplace [OF assms(2), of "map (\<lambda>(k, s). (k, SetActive False s)) (conn_state (fst st))"]
    cep_keys.fold_emplace [OF assms(3), of "map (\<lambda>(k, s). (k, SetActive False s)) (endpoint_state (fst st))"]
  by (simp add: tracker_inv_def Update_state)

lemma FetchConnState_state:
  "conn_state (fst (fst (FetchConnState n c st))) =
     (if c then filter (\<lambda>e. IsActive (snd e)) (conn_state (fst st)) else conn_state (fst st))"
  "endpoint_state (fst (fst (FetchConnState n c st))) = endpoint_state (fst st)"
  "known_ip_networks (fst (fst (FetchConnState n c st))) = known_ip_networks (fst st)"
  "ignored_networks (fst (fst (FetchConnState n c st))) = ignored_networks (fst st)"
  "non_aggregated_networks (fst (fst (FetchConnState n c st))) = non_aggregated_networks (fst st)"
  by (simp_all add: FetchConnState_def Let_def case_prod_beta FetchState_left)

lemma FetchEndpointState_state:
  "conn_state (fst (fst (FetchEndpointState n c st))) = conn_state (fst st)"
  "endpoint_state (fst (fst (FetchEndpointState n c st))) =
     (if c then filter (\<lambda>e. IsActive (snd e)) (endpoint_state (fst st)) else endpoint_state (fst st))"
  "known_ip_networks (fst (fst (FetchEndpointState n c st))) = known_ip_networks (fst st)"
  "ignored_networks (fst (fst (FetchEndpointState n c st))) = ignored_networks (fst st)"
  "non_aggregated_networks (fst (fst (FetchEndpointState n c st))) = non_aggregated_networks (fst st)"
  by (simp_all add: FetchEndpointState_def Let_def case_prod_beta FetchState_left)

lemma foldl_concat_insert:
  "foldl (\<lambda>tree pair. foldl (\<lambda>tree network. fst (NRadix_Insert tree network)) tree (snd pair)) t nets =
   foldl (\<lambda>tree network. fst (NRadix_Insert tree network)) t (concat (map snd nets))"
  by (induction nets arbitrary: t) simp_all

lemma UpdateKnownIPNetworks_tree:
  "known_ip_networks (fst (UpdateKnownIPNetworks nets st)) = NRadixTree_of (concat (map snd nets))"
  by (simp add: UpdateKnownIPNetworks_def Let_def case_prod_beta foldl_concat_insert NRadixTree_of_def)

section \<open>Sequences of operations\<close>

datatype tracker_op =
  Op_Add Connection int
| Op_Remove Connection int
| Op_Update "Connection list" "ContainerEndpoint list" int
| Op_FetchConn bool bool
| Op_FetchEndpoint bool bool
| Op_KnownPublicIPs "Address list"
| Op_KnownIPNetworks "(Family, IPNet list) umap"
| Op_ExternalIPs ExternalIPsConfig
| Op_IgnoredPorts "L4ProtoPortPair list"
| Op_IgnoredNetworks "IPNet list"
| Op_NonAggregated "IPNet list"

fun tracker_exec :: "tracker_op \<Rightarrow> ConnectionTracker \<times> CollectorStats \<Rightarrow> ConnectionTracker \<times> CollectorStats" where
  "tracker_exec (Op_Add c ts) st = AddConnection c ts st"
| "tracker_exec (Op_Remove c ts) st = RemoveConnection c ts st"
| "tracker_exec (Op_Update cs es ts) st = Update cs es ts st"
| "tracker_exec (Op_FetchConn n c) st = fst (FetchConnState n c st)"
| "tracker_exec (Op_FetchEndpoint n c) st = fst (FetchEndpointState n c st)"
| "tracker_exec (Op_KnownPublicIPs ips) st = UpdateKnownPublicIPs ips st"
| "tracker_exec (Op_KnownIPNetworks nets) st = UpdateKnownIPNetworks nets st"
| "tracker_exec (Op_ExternalIPs c) st = (SetExternalIPsConfig c (fst st), snd st)"
| "tracker_exec (Op_IgnoredPorts ps) st = (UpdateIgnoredL4ProtoPortPairs ps (fst st), snd st)"
| "tracker_exec (Op_IgnoredNetworks ns) st = (UpdateIgnoredNetworks ns (fst st), snd st)"
| "tracker_exec (Op_NonAggregated ns) st = (UpdateNonAggregatedNetworks ns (fst st), snd st)"

text \<open>The arguments that the callers produce: addresses as endpoints, constructed networks.\<close>

fun op_ok :: "tracker_op \<Rightarrow> bool" where
  "op_ok (Op_Add c ts) = (c \<in> raw_conns)"
| "op_ok (Op_Remove c ts) = (c \<in> raw_conns)"
| "op_ok (Op_Update cs es ts) = (set cs \<subseteq> raw_conns \<and> set es \<subseteq> raw_endpoints)"
| "op_ok (Op_KnownIPNetworks nets) = (\<forall>n \<in> set (concat (map snd nets)). wf_net n)"
| "op_ok (Op_IgnoredNetworks ns) = (\<forall>n \<in> set ns. wf_net n)"
| "op_ok (Op_NonAggregated ns) = (\<forall>n \<in> set ns. wf_net n)"
| "op_ok _ = True"

lemma tracker_inv_exec:
  assumes "tracker_inv (fst st)" "op_ok op"
  shows "tracker_inv (fst (tracker_exec op st))"
proof (cases op)
  case (Op_Add c ts)
  then show ?thesis using assms by (simp add: AddConnection_def UpdateConnection_def tracker_inv_emplace_conn)
next
  case (Op_Remove c ts)
  then show ?thesis using assms by (simp add: RemoveConnection_def UpdateConnection_def tracker_inv_emplace_conn)
next
  case (Op_Update cs es ts)
  then show ?thesis using assms by (simp add: tracker_inv_Update)
next
  case (Op_FetchConn n c)
  then show ?thesis using assms um_distinct_filter [of Connection_eq "conn_state (fst st)"]
      subset_trans [OF um_keys_filter [of _ "conn_state (fst st)"]]
    by (auto simp: tracker_inv_def FetchConnState_state)
next
  case (Op_FetchEndpoint n c)
  then show ?thesis using assms um_distinct_filter [of ContainerEndpoint_eq "endpoint_state (fst st)"]
      subset_trans [OF um_keys_filter [of _ "endpoint_state (fst st)"]]
    by (auto simp: tracker_inv_def FetchEndpointState_state)
next
  case (Op_KnownIPNetworks nets)
  have "conn_state (fst (UpdateKnownIPNetworks nets st)) = conn_state (fst st)"
    "endpoint_state (fst (UpdateKnownIPNetworks nets st)) = endpoint_state (fst st)"
    "ignored_networks (fst (UpdateKnownIPNetworks nets st)) = ignored_networks (fst st)"
    "non_aggregated_networks (fst (UpdateKnownIPNetworks nets st)) = non_aggregated_networks (fst st)"
    by (simp_all add: UpdateKnownIPNetworks_def Let_def case_prod_beta)
  moreover have "tree_inv (NRadixTree_of (concat (map snd nets)))"
    using NRadixTree_of_laws [of "concat (map snd nets)"] assms(2) Op_KnownIPNetworks by simp
  ultimately show ?thesis using assms(1) Op_KnownIPNetworks
    by (simp add: tracker_inv_def UpdateKnownIPNetworks_tree)
next
  case (Op_IgnoredNetworks ns)
  then show ?thesis using assms NRadixTree_of_laws [of ns]
    by (simp add: tracker_inv_def UpdateIgnoredNetworks_def)
next
  case (Op_NonAggregated ns)
  then show ?thesis using assms NRadixTree_of_laws [of ns]
    by (simp add: tracker_inv_def UpdateNonAggregatedNetworks_def)
qed (use assms in \<open>simp_all add: tracker_inv_def UpdateKnownPublicIPs_def
    SetExternalIPsConfig_def UpdateIgnoredL4ProtoPortPairs_def\<close>)

lemma tracker_inv_run:
  "tracker_inv (fst st) \<Longrightarrow> list_all op_ok ops \<Longrightarrow> tracker_inv (fst (fold tracker_exec ops st))"
  by (induction ops arbitrary: st) (simp_all add: tracker_inv_exec)

section \<open>Closing connections\<close>

lemma CloseConnections_old: "fst (CloseConnections P old delta) = filter (\<lambda>(k, s). \<not> P k) old"
  by (induction P old delta rule: CloseConnections.induct) (simp_all add: Let_def case_prod_beta)

lemma CloseConnections_delta:
  "snd (CloseConnections P old delta) =
     foldl (\<lambda>d (k, s). fst (um_insert Connection_eq k s d)) delta
       (map (\<lambda>(k, s). (k, SetActive False s)) (filter (\<lambda>(k, s). P k) old))"
proof (induction P old delta rule: CloseConnections.induct)
  case (2 P k s rest delta)
  have "(if IsActive s then SetActive False s else s) = SetActive False s"
    by (simp add: status_eq_iff)
  then show ?case using 2 by (simp add: Let_def case_prod_beta)
qed simp

lemma lookup_CloseConnections:
  assumes "um_distinct Connection_eq old" "um_keys old \<subseteq> conn_carrier L R"
    "um_distinct Connection_eq delta" "um_keys delta \<subseteq> conn_carrier L R"
    and P: "\<And>k k'. k \<in> conn_carrier L R \<Longrightarrow> k' \<in> conn_carrier L R \<Longrightarrow> Connection_eq k k' \<Longrightarrow> P k = P k'"
    and x: "x \<in> conn_carrier L R"
  shows "um_lookup Connection_eq x (snd (CloseConnections P old delta)) =
    (case um_lookup Connection_eq x delta of
       Some d \<Rightarrow> Some d
     | None \<Rightarrow> if P x then map_option (SetActive False) (um_lookup Connection_eq x old) else None)"
proof -
  let ?sel = "filter (\<lambda>(k, s). P k) old"
  let ?m = "map (\<lambda>(k, s). (k, SetActive False s)) ?sel"
  have sel: "um_distinct Connection_eq ?sel" "um_keys ?sel \<subseteq> conn_carrier L R"
    using um_distinct_filter [OF assms(1)] subset_trans [OF um_keys_filter assms(2)] by auto
  have m: "um_distinct Connection_eq ?m" "um_keys ?m \<subseteq> conn_carrier L R" using sel by simp_all
  have ls: "um_lookup Connection_eq x ?sel =
      (case um_lookup Connection_eq x old of None \<Rightarrow> None | Some v \<Rightarrow> if P x then Some v else None)"
  proof -
    have "um_lookup Connection_eq x ?sel =
      (case um_lookup Connection_eq x old of None \<Rightarrow> None
       | Some v \<Rightarrow> if (\<lambda>(k, s). P k) (x, v) then Some v else None)"
      by (rule conn_keys.lookup_filter [OF assms(1,2) x]) (simp only: prod.case, rule P)
    then show ?thesis by (cases "um_lookup Connection_eq x old") simp_all
  qed
  have lm: "um_lookup Connection_eq x ?m =
      (if P x then map_option (SetActive False) (um_lookup Connection_eq x old) else None)"
    unfolding um_lookup_map_value ls by (cases "um_lookup Connection_eq x old") simp_all
  show ?thesis
    unfolding CloseConnections_delta conn_keys.lookup_fold_alters [OF conn_keys.alters_insert m assms(3,4) x] lm
    by (cases "um_lookup Connection_eq x delta"; cases "um_lookup Connection_eq x old") simp_all
qed

section \<open>Private networks\<close>

lemma private_networks_wf: "\<forall>n \<in> set PrivateNetworks. wf_net n \<and> 1 \<le> net_bits n"
proof -
  have "\<forall>n \<in> set PrivateIPv4Networks. 1 \<le> net_bits n"
    by (simp add: PrivateIPv4Networks_def net_bits_mk Address_Length_def)
  moreover have "\<forall>n \<in> set PrivateIPv4Networks. addr_family (Address_ToV6 (net_address n)) = IPV6"
    using private_v4_shape family_ToV6 by blast
  ultimately show ?thesis
    by (auto simp: PrivateNetworks_def PrivateIPv6Networks_def PrivateIPv4Networks_def net_bits_mk
        Address_Length_def Address_of_ipv6_def)
qed

definition nets_overlap :: "IPNet \<Rightarrow> IPNet \<Rightarrow> bool" where
  "nets_overlap n m \<longleftrightarrow>
     (net_bits n \<le> net_bits m \<and> IPNet_Contains n (net_address m)) \<or>
     (net_bits m \<le> net_bits n \<and> IPNet_Contains m (net_address n))"

lemma family_separated_mono: "set xs \<subseteq> set ys \<Longrightarrow> family_separated ys \<Longrightarrow> family_separated xs"
  unfolding family_separated_def by blast

lemma subset_of_lists_iff:
  assumes wf: "\<forall>n \<in> set ns. wf_net n \<and> 1 \<le> net_bits n" "\<forall>n \<in> set ms. wf_net n \<and> 1 \<le> net_bits n"
    and sep: "family_separated (ns @ ms)" and f: "f \<noteq> UNKNOWN"
  shows "NRadix_IsAnyIPNetSubset (NRadixTree_of ns) f (NRadixTree_of ms) \<longleftrightarrow>
    (\<exists>n \<in> set ns. \<exists>m \<in> set ms. IPNet_family n = f \<and> IPNet_family m = f \<and> prefix (net_path n) (net_path m))"
proof -
  have wfl: "\<forall>n \<in> set ns. wf_net n" "\<forall>n \<in> set ms. wf_net n" using wf by auto
  note l1 = NRadixTree_of_laws [OF wfl(1)] and l2 = NRadixTree_of_laws [OF wfl(2)]
  have sub: "set (getAll (NRadixTree_of ns)) \<subseteq> set ns" "set (getAll (NRadixTree_of ms)) \<subseteq> set ms"
    using l1 l2 by (auto simp: set_getAll)
  have sep': "family_separated (getAll (NRadixTree_of ns) @ getAll (NRadixTree_of ms))"
    by (rule family_separated_mono [OF _ sep]) (use sub in auto)
  have rep: "\<exists>n' \<in> set (getAll (NRadixTree_of ks)). net_path n' = net_path n \<and> IPNet_family n' = IPNet_family n"
    if k: "n \<in> set ks" "set ks \<subseteq> set (ns @ ms)" "\<forall>n \<in> set ks. wf_net n \<and> 1 \<le> net_bits n" for n ks
  proof -
    have wk: "\<forall>n \<in> set ks. wf_net n" using k(3) by simp
    obtain n' where n': "stored (NRadixTree_of ks) (net_path n) = Some n'"
      using NRadixTree_of_laws [OF wk] k(1,3) by fastforce
    have p: "net_path n' = net_path n" "n' \<in> set ks"
      using NRadixTree_of_laws [OF wk] n' tree_inv_storedD by blast+
    then have "IPNet_family n' = IPNet_family n"
      using sep k(1,2) unfolding family_separated_def by (metis prefix_order.refl subsetD)
    then show ?thesis using n' p by (auto simp: set_getAll)
  qed
  show ?thesis
  proof
    assume "NRadix_IsAnyIPNetSubset (NRadixTree_of ns) f (NRadixTree_of ms)"
    from IsAnyIPNetSubset_sound [OF _ _ sep' f this] l1 l2 sub show
      "\<exists>n \<in> set ns. \<exists>m \<in> set ms. IPNet_family n = f \<and> IPNet_family m = f \<and> prefix (net_path n) (net_path m)"
      by blast
  next
    assume "\<exists>n \<in> set ns. \<exists>m \<in> set ms. IPNet_family n = f \<and> IPNet_family m = f \<and> prefix (net_path n) (net_path m)"
    then obtain n m where nm: "n \<in> set ns" "m \<in> set ms" "IPNet_family n = f" "IPNet_family m = f"
      "prefix (net_path n) (net_path m)" by blast
    obtain n' m' where "n' \<in> set (getAll (NRadixTree_of ns))" "m' \<in> set (getAll (NRadixTree_of ms))"
      "net_path n' = net_path n" "IPNet_family n' = f" "net_path m' = net_path m" "IPNet_family m' = f"
      using rep [OF nm(1) _ wf(1)] rep [OF nm(2) _ wf(2)] nm by auto
    then show "NRadix_IsAnyIPNetSubset (NRadixTree_of ns) f (NRadixTree_of ms)"
      using IsAnyIPNetSubset_complete [OF _ _ sep' f, of n' m'] l1 l2 nm(5) by simp
  qed
qed

lemma ContainsPrivateNetwork_iff:
  assumes "\<forall>n \<in> set ns. wf_net n \<and> 1 \<le> net_bits n" "family_separated (PrivateNetworks @ ns)" "f \<noteq> UNKNOWN"
  shows "ContainsPrivateNetwork f (NRadixTree_of ns) \<longleftrightarrow>
    (\<exists>n \<in> set ns. \<exists>p \<in> set PrivateNetworks. IPNet_family n = f \<and> IPNet_family p = f \<and> nets_overlap n p)"
proof -
  have sep: "family_separated (ns @ PrivateNetworks)"
    using assms(2) unfolding family_separated_def by (simp only: set_append Un_commute)
  have ov: "nets_overlap n p \<longleftrightarrow> prefix (net_path n) (net_path p) \<or> prefix (net_path p) (net_path n)"
    if "n \<in> set ns" "p \<in> set PrivateNetworks" "IPNet_family n = f" "IPNet_family p = f" for n p
    using that assms(1) private_networks_wf prefix_iff_contains_base [of n p] prefix_iff_contains_base [of p n]
    by (auto simp: nets_overlap_def)
  show ?thesis
    unfolding ContainsPrivateNetwork_def private_networks_tree_def
      subset_of_lists_iff [OF assms(1) private_networks_wf sep assms(3)]
      subset_of_lists_iff [OF private_networks_wf assms(1,2,3)]
    using ov by blast
qed

end
