(* ===== verification/ConnTrackerProps.thy ===== *)
theory ConnTrackerProps
  imports ConnTrackerLaws
begin

text \<open>
  The properties of the connection tracker, with the examples that exercise them.
\<close>

lemma um_contains_insert_self: "eq k k \<Longrightarrow> um_contains eq (fst (um_insert eq k v m)) k"
proof (cases "um_find eq k m")
  case None
  moreover assume "eq k k"
  ultimately show ?thesis
    using um_find_None_lookup [of eq k m] by (simp add: um_contains_lookup um_insert_def um_lookup_append)
next
  case (Some e)
  then show ?thesis by (simp add: um_contains_lookup um_insert_def um_lookup_def)
qed

lemma um_contains_insert_mono:
  "um_contains eq m x \<Longrightarrow> um_contains eq (fst (um_insert eq k v m)) x"
  by (auto simp: um_contains_lookup um_insert_def um_lookup_append split: option.splits)

lemma um_insert_values:
  "(\<forall>(k, s) \<in> set m. Q s) \<Longrightarrow> Q v \<Longrightarrow> \<forall>(k, s) \<in> set (fst (um_insert eq k v m)). Q s"
  by (auto simp: um_insert_def split: option.splits)

lemma CloseConnections_inactive:
  "\<forall>(k, s) \<in> set delta. \<not> IsActive s \<Longrightarrow> \<forall>(k, s) \<in> set (snd (CloseConnections P old delta)). \<not> IsActive s"
proof (induction P old delta rule: CloseConnections.induct)
  case (2 P k s rest delta)
  have "\<not> IsActive (if IsActive s then SetActive False s else s)" by simp
  with 2 show ?case
    using um_insert_values [of delta "\<lambda>s. \<not> IsActive s" "if IsActive s then SetActive False s else s" Connection_eq k]
    by (cases "P k") (simp_all add: Let_def case_prod_beta)
qed simp

lemma CloseConnections_keeps:
  "um_contains Connection_eq delta x \<Longrightarrow> um_contains Connection_eq (snd (CloseConnections P old delta)) x"
  by (induction P old delta rule: CloseConnections.induct)
     (simp_all add: Let_def case_prod_beta um_contains_insert_mono)

lemma CloseConnections_closed:
  "(x, s) \<in> set old \<Longrightarrow> P x \<Longrightarrow> um_contains Connection_eq (snd (CloseConnections P old delta)) x"
proof (induction P old delta rule: CloseConnections.induct)
  case (2 P k s' rest delta)
  then show ?case
    by (cases "x = k"; cases "P k")
       (auto simp: Let_def case_prod_beta CloseConnections_keeps um_contains_insert_self)
qed simp

text \<open>The entries of the map from families to the presence of private networks.\<close>

lemma UpdateKnownIPNetworks_exists:
  assumes "um_distinct (=) nets"
  shows "um_lookup (=) f (known_private_networks_exists (fst (UpdateKnownIPNetworks nets st))) =
    (if f \<in> um_keys nets then Some (ContainsPrivateNetwork f (NRadixTree_of (concat (map snd nets)))) else None)"
proof -
  let ?g = "\<lambda>fam. ContainsPrivateNetwork fam (NRadixTree_of (concat (map snd nets)))"
  have "um_lookup (=) f (fst (foldl (\<lambda>(exists, stats) pair.
          (um_put (=) (fst pair) (?g (fst pair)) exists, h pair stats)) (m, s) ns)) =
      (if f \<in> um_keys ns then Some (?g f) else um_lookup (=) f m)" for ns :: "(Family, IPNet list) umap" and m s h
    by (induction ns arbitrary: m s) (auto simp: value_keys.lookup_put)
  from this [of "\<lambda>pair. COUNTER_ADD net_known_ip_networks (of_nat (length (snd pair)))" "[]" _ nets]
  show ?thesis
    by (simp add: UpdateKnownIPNetworks_def Let_def case_prod_beta foldl_concat_insert NRadixTree_of_def)
qed

text \<open>The connections whose representation changes when External IPs are switched.\<close>

definition affected_by_change :: "ConnectionTracker \<Rightarrow> ExternalIPsConfig \<Rightarrow> Connection \<Rightarrow> bool" where
  "affected_by_change t prev conn \<longleftrightarrow>
     (\<not> Connection_is_server conn \<and>
        IsEnabled (external_ips_config t) DirEGRESS \<noteq> IsEnabled prev DirEGRESS \<and>
        should_close t conn (IsEnabled (external_ips_config t) DirEGRESS)) \<or>
     (Connection_is_server conn \<and>
        IsEnabled (external_ips_config t) DirINGRESS \<noteq> IsEnabled prev DirINGRESS \<and>
        should_close t conn (IsEnabled (external_ips_config t) DirINGRESS))"

section \<open>Properties\<close>

text \<open>
  C12: every sequence of operations keeps the tracker well-formed: its maps hold every
  connection and endpoint at most once, all their networks are addresses, and its three radix
  trees are well-formed, for any arguments that the callers produce.
\<close>

theorem tracker_inv_reachable:
  assumes "list_all op_ok ops"
  shows "tracker_inv (fst (fold tracker_exec ops (ConnectionTracker_new, stats)))"
  using tracker_inv_run [OF _ assms, of "(ConnectionTracker_new, stats)"] tracker_inv_new by simp

theorem tracker_inv_reachable_witness:
  "let ops = [Op_Add example_conn 5, Op_FetchConn True True]
   in list_all op_ok ops \<and> tracker_inv (fst (fold tracker_exec ops (ConnectionTracker_new, CollectorStats_new)))"
  using tracker_inv_reachable [of "[Op_Add example_conn 5, Op_FetchConn True True]" CollectorStats_new]
    example_conn_carrier by simp

text \<open>
  a scrape. Every connection that is not listed becomes inactive and keeps its time of last
  activity. A listed connection becomes active at the time of the scrape, unless it is stored
  with that time or a later one: then it keeps its time and is left inactive.
\<close>

theorem Update_scrape:
  assumes "tracker_inv t" "set conns \<subseteq> raw_conns" "x \<in> raw_conns" "0 \<le> ts" "ts < 2 ^ 63"
  shows "um_lookup Connection_eq x (conn_state (fst (Update conns eps ts (t, stats)))) =
    (let old = um_lookup Connection_eq x (conn_state t)
     in if \<exists>c \<in> set conns. Connection_eq x c
        then Some (case old of
               None \<Rightarrow> ConnStatus_mk ts True
             | Some s \<Rightarrow> if LastActiveTime s < ts then ConnStatus_mk ts True else SetActive False s)
        else map_option (SetActive False) old)"
proof -
  let ?m = "map (\<lambda>(k, s). (k, SetActive False s)) (conn_state t)"
  have m: "um_distinct Connection_eq ?m" "um_keys ?m \<subseteq> raw_conns"
    using assms(1) by (simp_all add: tracker_inv_def)
  show ?thesis
    using conn_keys.fold_emplace [OF assms(2) m, of "ConnStatus_mk ts True"] assms(3,4,5)
    by (auto simp: Update_state um_lookup_map_value later_status_def LastActiveTime_mk Let_def
        split: option.splits)
qed

theorem Update_scrape_witness:
  "tracker_inv ConnectionTracker_new \<and>
   um_lookup Connection_eq example_conn
     (conn_state (fst (Update [example_conn] [] 7 (ConnectionTracker_new, CollectorStats_new)))) =
   Some (ConnStatus_mk 7 True)"
  using Update_scrape [OF tracker_inv_new _ example_conn_carrier, of "[example_conn]" 7 "[]" CollectorStats_new]
    example_conn_carrier tracker_inv_new
  by (simp add: ConnectionTracker_new_def)


text \<open>
  C6: how an address is reported. A private address, or one in a network whose addresses are
  not to be aggregated, is kept, with no prefix when no private network of its family is known.
  A known public address is kept. Any other address is reported as the most specific known
  network that contains it; without one, as itself when External IPs are enabled for the
  direction, and otherwise as the canonical external address of its family, whatever it is.
\<close>

theorem NormalizeAddress_cases:
  assumes trees: "known_ip_networks t = NRadixTree_of ns" "non_aggregated_networks t = NRadixTree_of na"
    and wf: "\<forall>n \<in> set (ns @ na). wf_net n" "family_separated ns" "family_separated na"
    and a: "\<not> Address_IsNull a"
  shows "let keep = (\<not> Address_IsPublic a \<or> (\<exists>n \<in> set na. 1 \<le> net_bits n \<and> IPNet_Contains n a));
        covered = (\<exists>n \<in> set ns. 1 \<le> net_bits n \<and> IPNet_Contains n a);
        no_private = (um_lookup (=) (addr_family a) (known_private_networks_exists t) = Some False);
        r = NormalizeAddress t a ext
    in if keep \<and> no_private then r = IPNet_mk a 0 True
    else if keep \<or> a \<in> set (known_public_ips t) then net_address r = a \<and> net_is_addr r
    else if covered then r \<in> set ns \<and> IPNet_Contains r a \<and>
      (\<forall>n \<in> set ns. 1 \<le> net_bits n \<and> IPNet_Contains n a \<longrightarrow> net_bits n \<le> net_bits r)
    else if ext then r = IPNet_mk a (8 * Address_length a) False
    else r = (case addr_family a of
                IPV4 \<Rightarrow> IPNet_mk canonical_external_ipv4_addr 0 True
              | IPV6 \<Rightarrow> IPNet_mk canonical_external_ipv6_addr 0 True
              | UNKNOWN \<Rightarrow> IPNet_default)"
proof -
  have wfs: "\<forall>n \<in> set ns. wf_net n" "\<forall>n \<in> set na. wf_net n" using wf(1) by auto
  define covered where "covered \<longleftrightarrow> (\<exists>n \<in> set ns. 1 \<le> net_bits n \<and> IPNet_Contains n a)"
  define listed where "listed \<longleftrightarrow> (\<exists>n \<in> set na. 1 \<le> net_bits n \<and> IPNet_Contains n a)"
  let ?net = "NRadix_Find_addr (known_ip_networks t) a"
  have agg: "(\<not> IPNet_IsNull (NRadix_Find_addr (non_aggregated_networks t) a)) = listed"
    unfolding trees listed_def by (rule radix.covered_iff [OF wfs(2) wf(3)])
  have cov: "(\<not> IPNet_IsNull ?net) = covered"
    unfolding trees covered_def by (rule radix.covered_iff [OF wfs(1) wf(2)])
  have hit: "covered \<Longrightarrow> ?net \<in> set ns \<and> IPNet_Contains ?net a \<and>
      (\<forall>n \<in> set ns. 1 \<le> net_bits n \<and> IPNet_Contains n a \<longrightarrow> net_bits n \<le> net_bits ?net)"
    using radix.find_hit [OF wfs(1), of a] cov unfolding trees by blast
  show ?thesis
    unfolding NormalizeAddress_def Let_def agg cov covered_def [symmetric] listed_def [symmetric]
    using a hit by (auto simp: mult.commute)
qed


lemma Find_addr_new [simp]: "NRadix_Find_addr NRadixTree_new a = IPNet_default"
proof -
  have "path_find q NRadixTree_new None = None" for q
    by (simp add: path_find_None_iff NRadixTree_new_def)
  then show ?thesis by (simp add: NRadix_Find_addr_def NRadix_Find_eq)
qed

lemma example_not_null: "\<not> Address_IsNull (Address_of_octets 1 2 3 4)"
proof -
  have "fst (addr_data (Address_of_octets 1 2 3 4)) = htonll 0x0102030400000000"
    by (simp add: Address_of_octets_def Address_of_ipv4_def)
  moreover have "htonll 0x0102030400000000 \<noteq> 0" using ntohll_eq_zero [of "htonll 0x0102030400000000"] by simp
  ultimately show ?thesis by (simp add: Address_IsNull_def)
qed

lemma example_normalized:
  "NormalizeAddress (ConnectionTracker_new\<lparr>conn_state := m\<rparr>) (Address_of_octets 1 2 3 4) False =
     IPNet_mk canonical_external_ipv4_addr 0 True"
  by (simp add: NormalizeAddress_def example_not_null IsPublic_octets ConnectionTracker_new_def)

lemma example_normalized_conn:
  "NormalizeConnection (ConnectionTracker_new\<lparr>conn_state := m\<rparr>) example_conn \<in>
     conn_carrier (\<lambda>_. False) (\<lambda>_. True)"
proof -
  let ?t = "ConnectionTracker_new\<lparr>conn_state := m\<rparr>"
  have "Connection_l4proto example_conn = TCP \<and> Connection_is_server example_conn = False"
    unfolding example_conn_def by (rule Connection_flags) simp
  moreover have "Endpoint_address (conn_remote example_conn) = Address_of_octets 1 2 3 4"
    by (simp add: example_conn_def Connection_mk_def Endpoint_address_def Endpoint_of_address_def)
  moreover have "external_ips_config ?t = ExternalIPsConfig_default"
    by (simp add: ConnectionTracker_new_def)
  ultimately show ?thesis
    by (simp add: NormalizeConnection_def example_normalized IsEnabled_iff ExternalIPsConfig_default_def
        Connection_mk_def conn_carrier_def net_carrier_def Endpoint_default_def Endpoint_of_network_def
        IPNet_default_def)
qed


theorem NormalizeAddress_cases_witness:
  "\<not> Address_IsNull (Address_of_octets 1 2 3 4) \<and>
   NormalizeAddress ConnectionTracker_new (Address_of_octets 1 2 3 4) False =
     IPNet_mk canonical_external_ipv4_addr 0 True"
  using NormalizeAddress_cases [of ConnectionTracker_new "[]" "[]" "Address_of_octets 1 2 3 4" False]
    example_not_null IsPublic_octets [of 1 2 3 4]
  by (simp add: ConnectionTracker_new_def NRadixTree_of_def family_separated_def)

text \<open>
  updating the known networks records, for each family given, whether one of the networks
  of that family overlaps a private network: one of the two contains the other.
\<close>

theorem UpdateKnownIPNetworks_private:
  assumes "um_distinct (=) nets" "f \<in> um_keys nets" "f \<noteq> UNKNOWN"
    "\<forall>n \<in> set (concat (map snd nets)). wf_net n \<and> 1 \<le> net_bits n"
    "family_separated (PrivateNetworks @ concat (map snd nets))"
  shows "um_lookup (=) f (known_private_networks_exists (fst (UpdateKnownIPNetworks nets st))) =
    Some (\<exists>n \<in> set (concat (map snd nets)). \<exists>p \<in> set PrivateNetworks.
            IPNet_family n = f \<and> IPNet_family p = f \<and> nets_overlap n p)"
  using UpdateKnownIPNetworks_exists [OF assms(1)] assms(2)
    ContainsPrivateNetwork_iff [OF assms(4,5,3)] by simp

text \<open>
  the counter of inactive endpoints. Fetching the endpoints adds the number of stored
  connections minus the number of endpoints that are left, not the number of endpoints removed.
\<close>

theorem FetchEndpointState_counter:
  "cs_counter (snd (fst (FetchEndpointState normalized clear (t, stats)))) net_cep_inactive =
     cs_counter stats net_cep_inactive + of_nat (length (conn_state t)) -
     of_nat (length (if clear then filter (\<lambda>e. IsActive (snd e)) (endpoint_state t) else endpoint_state t))"
  by (simp add: FetchEndpointState_def Let_def case_prod_beta FetchState_left)

text \<open>The private networks of the two families differ in their first octet.\<close>

definition first_octet_in :: "u8 set \<Rightarrow> IPNet \<Rightarrow> bool" where
  "first_octet_in B n \<longleftrightarrow> 8 \<le> length (net_path n) \<and> take 8 (net_path n) \<in> byte_path ` B"

lemma first_octet_v4:
  "8 \<le> k \<Longrightarrow> first_octet_in {b} (IPNet_mk (Address_of_octets b c d e) k i)"
  by (simp add: first_octet_in_def net_path_def net_bits_mk Address_Length_def addr_path_octets)

lemma first_octet_ToV6:
  "addr_family a = IPV4 \<Longrightarrow> first_octet_in {0} (IPNet_mk (Address_ToV6 a) (k + 96) i)"
proof -
  assume a: "addr_family a = IPV4"
  have "byte_path 0 = replicate 8 False" by (simp add: byte_path_def map_replicate_const)
  then show ?thesis using a
    by (simp add: first_octet_in_def net_path_def net_bits_mk Address_Length_def addr_path_ToV6 family_ToV6)
qed

lemma first_octet_ula:
  "first_octet_in {0xfd} (IPNet_mk (Address_of_ipv6 (htonll 0xfd00000000000000) 0) 8 i)"
  using take_word_path_byte [of "0xfd"]
  by (simp add: first_octet_in_def net_path_def net_bits_mk Address_Length_def Address_of_ipv6_def addr_path_def)

lemma first_octet_mono: "first_octet_in B n \<Longrightarrow> B \<subseteq> B' \<Longrightarrow> first_octet_in B' n"
  by (auto simp: first_octet_in_def)

lemma private_v4_octets: "n \<in> set PrivateIPv4Networks \<Longrightarrow> first_octet_in {10, 100, 169, 172, 192} n"
  by (auto simp: PrivateIPv4Networks_def intro: first_octet_mono [OF first_octet_v4])

lemma private_v6_octets: "n \<in> set PrivateIPv6Networks \<Longrightarrow> first_octet_in {0, 0xfd} n"
  using private_v4_shape
  by (auto simp: PrivateIPv6Networks_def intro: first_octet_mono [OF first_octet_ula] first_octet_mono [OF first_octet_ToV6])

lemma first_octet_prefix:
  assumes "first_octet_in A n" "first_octet_in B m" "prefix (net_path n) (net_path m)"
  shows "A \<inter> B \<noteq> {}"
proof -
  have "take 8 (net_path m) = take 8 (net_path n)"
    using assms(1,3) by (auto simp: first_octet_in_def prefix_def)
  then show ?thesis using assms(1,2) by (auto simp: first_octet_in_def)
qed

lemma private_families:
  "n \<in> set PrivateIPv4Networks \<Longrightarrow> IPNet_family n = IPV4"
  "n \<in> set PrivateIPv6Networks \<Longrightarrow> IPNet_family n = IPV6"
  using private_v4_shape family_ToV6
  by (auto simp: IPNet_family_def PrivateIPv6Networks_def Address_of_ipv6_def)

lemma family_separated_private:
  assumes "\<forall>n \<in> set ns. IPNet_family n = IPV4 \<and> first_octet_in {10, 100, 169, 172, 192} n"
  shows "family_separated (PrivateNetworks @ ns)"
proof -
  let ?P = "\<lambda>n. IPNet_family n = IPV4 \<and> first_octet_in {10, 100, 169, 172, 192} n \<or>
    IPNet_family n = IPV6 \<and> first_octet_in {0, 0xfd} n"
  have P: "?P n" if "n \<in> set (PrivateNetworks @ ns)" for n
    using that assms private_families private_v4_octets private_v6_octets by (auto simp: PrivateNetworks_def)
  have disj: "{10, 100, 169, 172, 192} \<inter> {0, 0xfd} = ({} :: u8 set)" by simp
  have "IPNet_family n = IPNet_family m" if "?P n" "?P m" "prefix (net_path n) (net_path m)" for n m
    using that first_octet_prefix [OF _ _ that(3)] disj by (metis inf_commute)
  then show ?thesis unfolding family_separated_def using P by blast
qed

theorem UpdateKnownIPNetworks_private_witness:
  "let n = IPNet_mk (Address_of_octets 10 1 0 0) 16 False;
       st = UpdateKnownIPNetworks [(IPV4, [n])] (ConnectionTracker_new, CollectorStats_new)
   in family_separated (PrivateNetworks @ [n]) \<and>
      um_lookup (=) IPV4 (known_private_networks_exists (fst st)) = Some True"
proof -
  let ?n = "IPNet_mk (Address_of_octets 10 1 0 0) 16 False"
  let ?p = "IPNet_mk (Address_of_octets 10 0 0 0) 8 False"
  have fam: "IPNet_family ?n = IPV4" "IPNet_family ?p = IPV4" by (simp_all add: IPNet_family_def)
  have sep: "family_separated (PrivateNetworks @ [?n])"
    using fam first_octet_v4 [of 16 10 1 0 0 False] by (intro family_separated_private) (auto intro: first_octet_mono)
  have "?p \<in> set PrivateNetworks" by (simp add: PrivateNetworks_def PrivateIPv4Networks_def)
  moreover have "nets_overlap ?n ?p"
    by (simp add: nets_overlap_def net_bits_mk Address_Length_def Contains_mk_v4 addr_path_octets)
  ultimately have "\<exists>p \<in> set PrivateNetworks. IPNet_family p = IPV4 \<and> nets_overlap ?n p" using fam by blast
  then show ?thesis
    using UpdateKnownIPNetworks_private [of "[(IPV4, [?n])]" IPV4 "(ConnectionTracker_new, CollectorStats_new)"]
      sep fam by (simp add: net_bits_mk Address_Length_def)
qed

end
