(* ===== verification/Utility.thy ===== *)
theory Utility
  imports Prelude CxxLib "HOL-Library.Sublist"
begin

text \<open>
  The string utilities of \<open>Utility.cpp\<close>: signal names, container IDs from control group paths,
  base64 decoding, host paths, splitting and the replacement of invalid UTF-8.
\<close>

section \<open>Signals and container IDs\<close>

definition SignalName :: "int \<Rightarrow> string" where
  "SignalName signum =
     (if signum = 6 then ''SIGABRT''
      else if signum = 11 then ''SIGSEGV''
      else if signum = 15 then ''SIGTERM''
      else if signum = 2 then ''SIGINT''
      else ''<unknown>'')"

definition CONTAINER_ID_LENGTH :: nat where
  "CONTAINER_ID_LENGTH = 64"

definition SHORT_CONTAINER_ID_LENGTH :: nat where
  "SHORT_CONTAINER_ID_LENGTH = 12"

definition IsContainerID :: "string \<Rightarrow> bool" where
  "IsContainerID str =
     (if length str \<noteq> CONTAINER_ID_LENGTH then False else list_all c_isxdigit str)"

text \<open>
  The start position of the search for \<open>-conmon\<close> is a difference of two 64-bit sizes, which
  wraps around for a short prefix.
\<close>

definition size_diff :: "nat \<Rightarrow> nat \<Rightarrow> nat" where
  "size_diff a b = (if b \<le> a then a - b else a + 2 ^ 64 - b)"

definition ExtractContainerIDFromCgroup :: "string \<Rightarrow> string option" where
  "ExtractContainerIDFromCgroup cgroup =
     (if length cgroup < CONTAINER_ID_LENGTH + 1 then None
      else
        (let cgroup1 = (case rfind_str ''.scope'' cgroup of
                          Some scope \<Rightarrow> remove_suffix (length cgroup - scope) cgroup
                        | None \<Rightarrow> cgroup)
         in if length cgroup1 < CONTAINER_ID_LENGTH + 1 then None
            else
              (let part = drop (length cgroup1 - (CONTAINER_ID_LENGTH + 1)) cgroup1
               in if part ! 0 \<noteq> CHR ''/'' \<and> part ! 0 \<noteq> CHR ''-'' \<and> part ! 0 \<noteq> CHR '':'' then None
                  else
                    (let cgroup2 = remove_suffix (CONTAINER_ID_LENGTH + 1) cgroup1
                     in if find_str_from ''-conmon'' (size_diff (length cgroup2) (length ''-conmon'')) cgroup2 \<noteq> None
                        then None
                        else if \<not> IsContainerID (drop 1 part) then None
                        else Some (substr (drop 1 part) 0 SHORT_CONTAINER_ID_LENGTH)))))"

text \<open>The control groups of a thread are pairs of a subsystem and a path.\<close>

fun GetContainerID :: "(string \<times> string) list \<Rightarrow> string" where
  "GetContainerID [] = []"
| "GetContainerID ((subsys, cgroup_path) # rest) =
     (case ExtractContainerIDFromCgroup cgroup_path of
        Some i \<Rightarrow> i
      | None \<Rightarrow> GetContainerID rest)"

text \<open>An event may be null, and so may its thread information.\<close>

definition GetContainerID_event :: "(string \<times> string) list option option \<Rightarrow> string" where
  "GetContainerID_event event =
     (case event of
        None \<Rightarrow> []
      | Some None \<Rightarrow> []
      | Some (Some cgroups) \<Rightarrow> GetContainerID cgroups)"

section \<open>Base64\<close>

definition base64_chars :: string where
  "base64_chars =
     ''ABCDEFGHIJKLMNOPQRSTUVWXYZ'' @ ''abcdefghijklmnopqrstuvwxyz'' @ ''0123456789+/''"

definition is_base64 :: "char \<Rightarrow> bool" where
  "is_base64 c = (c_isalnum c \<or> c = CHR ''+'' \<or> c = CHR ''/'')"

text \<open>\<open>base64_chars.find(c)\<close> stored in an \<open>unsigned char\<close>: \<open>npos\<close> becomes 255.\<close>

definition base64_index :: "char \<Rightarrow> u8" where
  "base64_index c = (case find_char c base64_chars of Some i \<Rightarrow> of_nat i | None \<Rightarrow> 255)"

definition char_array_3 :: "char list \<Rightarrow> u8 list" where
  "char_array_3 cs =
     (let a = map base64_index cs
      in [push_bit 2 (a ! 0) + drop_bit 4 (a ! 1 AND 0x30),
          push_bit 4 (a ! 1 AND 0xf) + drop_bit 2 (a ! 2 AND 0x3c),
          push_bit 6 (a ! 2 AND 0x3) + a ! 3])"

text \<open>The loop keeps the characters of the current group, at most three, and the output.\<close>

fun Base64Decode_loop :: "string \<Rightarrow> char list \<Rightarrow> u8 list \<Rightarrow> char list \<times> u8 list" where
  "Base64Decode_loop [] grp ret = (grp, ret)"
| "Base64Decode_loop (c # rest) grp ret =
     (if c = CHR ''='' \<or> \<not> is_base64 c then (grp, ret)
      else
        (let grp' = grp @ [c]
         in if length grp' = 4
            then Base64Decode_loop rest [] (ret @ char_array_3 grp')
            else Base64Decode_loop rest grp' ret))"

definition Base64Decode :: "string \<Rightarrow> u8 list" where
  "Base64Decode encoded_string =
     (let (grp, ret) = Base64Decode_loop encoded_string [] [];
          i = length grp
      in if i \<noteq> 0
         then ret @ take (i - 1) (char_array_3 (grp @ replicate (4 - i) nul))
         else ret)"

section \<open>Paths and environment\<close>

text \<open>\<open>std::filesystem::path\<close> on a POSIX system.\<close>

definition path_is_absolute :: "string \<Rightarrow> bool" where
  "path_is_absolute p = (p \<noteq> [] \<and> hd p = CHR ''/'')"

definition path_relative :: "string \<Rightarrow> string" where
  "path_relative p = dropWhile (\<lambda>c. c = CHR ''/'') p"

definition path_append :: "string \<Rightarrow> string \<Rightarrow> string" where
  "path_append p q =
     (if path_is_absolute q then q
      else if p \<noteq> [] \<and> last p \<noteq> CHR ''/'' then p @ CHR ''/'' # q
      else p @ q)"

definition GetHostPath :: "string option \<Rightarrow> string \<Rightarrow> string" where
  "GetHostPath COLLECTOR_HOST_ROOT file =
     (let host_root = (case COLLECTOR_HOST_ROOT of None \<Rightarrow> [] | Some r \<Rightarrow> r)
      in path_append host_root (if path_is_absolute file then path_relative file else file))"

definition GetSNIHostname :: "string option \<Rightarrow> string" where
  "GetSNIHostname SNI_HOSTNAME =
     (case SNI_HOSTNAME of
        Some hostname \<Rightarrow> if hostname \<noteq> [] then hostname else ''sensor.stackrox''
      | None \<Rightarrow> ''sensor.stackrox'')"

section \<open>Splitting\<close>

function SplitStringView_loop :: "char \<Rightarrow> string \<Rightarrow> nat \<Rightarrow> string list \<Rightarrow> string list" where
  "SplitStringView_loop delim sv offset parts =
     (case find_char_from delim offset sv of
        Some n \<Rightarrow> SplitStringView_loop delim sv (n + 1) (parts @ [substr sv offset (n - offset)])
      | None \<Rightarrow> parts @ [drop offset sv])"
  by pat_completeness auto
termination
  by (relation "measure (\<lambda>(delim, sv, offset, parts). Suc (length sv) - offset)")
     (auto simp: find_char_from_def split: if_splits dest: find_char_SomeD)

definition SplitStringView :: "string \<Rightarrow> char \<Rightarrow> string list" where
  "SplitStringView sv delim = SplitStringView_loop delim sv 0 []"

section \<open>UTF-8\<close>

text \<open>
  \<open>utf8_range::SpanStructurallyValid\<close> is a parameter: the length of the longest prefix that is
  structurally valid. Each round replaces one byte and looks at what follows it.
\<close>

function SanitizedUTF8_loop :: "(string \<Rightarrow> nat) \<Rightarrow> string \<Rightarrow> string \<Rightarrow> nat \<Rightarrow> nat \<Rightarrow> string" where
  "SanitizedUTF8_loop span output str len i =
     (if i < length output then
        (let output' = output[i := CHR ''?''];
             str' = drop (len + 1) str;
             len' = span str'
         in SanitizedUTF8_loop span output' str' len' (i + (len' + 1)))
      else output)"
  by pat_completeness auto
termination
  by (relation "measure (\<lambda>(span, output, str, len, i). length output - i)") (auto simp: Let_def)

definition SanitizedUTF8 :: "(string \<Rightarrow> nat) \<Rightarrow> string \<Rightarrow> string option" where
  "SanitizedUTF8 span str =
     (let len = span str
      in if len = length str then None else Some (SanitizedUTF8_loop span str str len len))"

declare SplitStringView_loop.simps [simp del] SanitizedUTF8_loop.simps [simp del]

section \<open>Container IDs\<close>

text \<open>What the path of a container's control group looks like, without a trailing scope.\<close>

definition cgroup_base :: "string \<Rightarrow> string" where
  "cgroup_base c = (case rfind_str ''.scope'' c of Some i \<Rightarrow> take i c | None \<Rightarrow> c)"

definition cgroup_of_container :: "string \<Rightarrow> string \<Rightarrow> bool" where
  "cgroup_of_container c full \<longleftrightarrow>
     (\<exists>pre sep. cgroup_base c = pre @ sep # full \<and> sep \<in> set ''/-:'' \<and> length full = 64 \<and>
        list_all c_isxdigit full \<and> \<not> suffix ''-conmon'' pre)"

lemma rfind_str_le: "rfind_str p s = Some i \<Longrightarrow> i \<le> length s"
  by (induction s arbitrary: i) (auto split: if_splits option.splits)

lemma find_str_short: "length s < length p \<Longrightarrow> find_str p s = None"
  by (induction s) (auto simp: is_prefix_iff)

lemma find_str_same_length: "length s = length p \<Longrightarrow> find_str p s \<noteq> None \<longleftrightarrow> s = p"
  by (cases s) (auto simp: is_prefix_iff find_str_short)

lemma find_str_from_suffix:
  assumes "length s < 2 ^ 63" "length p < 2 ^ 63" "p \<noteq> []"
  shows "find_str_from p (size_diff (length s) (length p)) s \<noteq> None \<longleftrightarrow> suffix p s"
proof (cases "length p \<le> length s")
  case True
  have "find_str p (drop (length s - length p) s) \<noteq> None \<longleftrightarrow> drop (length s - length p) s = p"
    using True by (intro find_str_same_length) simp
  moreover have "suffix p s \<longleftrightarrow> drop (length s - length p) s = p"
    by (metis True append_eq_conv_conj append_take_drop_id length_drop diff_diff_cancel suffix_def
        suffix_take length_append diff_add_inverse2)
  ultimately show ?thesis using True by (simp add: find_str_from_def size_diff_def)
next
  case False
  then have "\<not> suffix p s" using suffix_length_le by fastforce
  moreover have "\<not> length s + 2 ^ 64 - length p \<le> length s" using assms(2) by simp
  ultimately show ?thesis using False by (simp only: find_str_from_def size_diff_def if_False) simp
qed

lemma split_off_last:
  assumes "n < length c"
  shows "c = take (length c - Suc n) c @ c ! (length c - Suc n) # drop (length c - n) c"
proof -
  have "Suc (length c - Suc n) = length c - n" using assms by simp
  then show ?thesis using id_take_nth_drop [of "length c - Suc n" c] assms by simp
qed

lemma cgroup_of_container_iff:
  "cgroup_of_container c full \<longleftrightarrow>
     (let b = cgroup_base c; n = length b - 65 in
      65 \<le> length b \<and> full = drop (Suc n) b \<and> b ! n \<in> set ''/-:'' \<and> list_all c_isxdigit full \<and>
      \<not> suffix ''-conmon'' (take n b))"
proof
  assume "cgroup_of_container c full"
  then obtain pre sep where "cgroup_base c = pre @ sep # full" "sep \<in> set ''/-:''" "length full = 64"
    "list_all c_isxdigit full" "\<not> suffix ''-conmon'' pre"
    unfolding cgroup_of_container_def by blast
  then show "let b = cgroup_base c; n = length b - 65 in
      65 \<le> length b \<and> full = drop (Suc n) b \<and> b ! n \<in> set ''/-:'' \<and> list_all c_isxdigit full \<and>
      \<not> suffix ''-conmon'' (take n b)"
    by (simp add: Let_def)
next
  assume h: "let b = cgroup_base c; n = length b - 65 in
      65 \<le> length b \<and> full = drop (Suc n) b \<and> b ! n \<in> set ''/-:'' \<and> list_all c_isxdigit full \<and>
      \<not> suffix ''-conmon'' (take n b)"
  then have "cgroup_base c = take (length (cgroup_base c) - 65) (cgroup_base c) @
      cgroup_base c ! (length (cgroup_base c) - 65) # full"
    using split_off_last [of 64 "cgroup_base c"]
    by (simp add: Let_def Suc_diff_le [symmetric] flip: One_nat_def)
  moreover have "length full = 64" using h by (auto simp: Let_def)
  ultimately show "cgroup_of_container c full"
    using h unfolding cgroup_of_container_def by (auto simp: Let_def)
qed

section \<open>Base64 round trip\<close>

text \<open>The standard encoding, with padding.\<close>

definition base64_char :: "u8 \<Rightarrow> char" where
  "base64_char v = base64_chars ! unat v"

fun base64_encode :: "u8 list \<Rightarrow> string" where
  "base64_encode [] = []"
| "base64_encode [x] =
     [base64_char (drop_bit 2 x), base64_char (push_bit 4 (x AND 3)), CHR ''='', CHR ''='']"
| "base64_encode [x, y] =
     [base64_char (drop_bit 2 x), base64_char (push_bit 4 (x AND 3) OR drop_bit 4 y),
      base64_char (push_bit 2 (y AND 15)), CHR ''='']"
| "base64_encode (x # y # z # rest) =
     [base64_char (drop_bit 2 x), base64_char (push_bit 4 (x AND 3) OR drop_bit 4 y),
      base64_char (push_bit 2 (y AND 15) OR drop_bit 6 z), base64_char (z AND 63)] @ base64_encode rest"

lemma base64_alphabet:
  "list_all (\<lambda>k. is_base64 (base64_chars ! k) \<and> base64_chars ! k \<noteq> CHR ''='' \<and>
     find_char (base64_chars ! k) base64_chars = Some k) [0..<64]"
  by code_simp

lemma base64_char_facts:
  assumes "v < 64"
  shows "is_base64 (base64_char v)" "base64_char v \<noteq> CHR ''=''" "base64_index (base64_char v) = v"
proof -
  have "unat v \<in> set [0..<64]" using assms by (simp add: word_less_nat_alt)
  then show "is_base64 (base64_char v)" "base64_char v \<noteq> CHR ''=''" "base64_index (base64_char v) = v"
    using base64_alphabet unfolding list_all_iff base64_index_def base64_char_def by auto
qed

lemma u8_less_64I:
  assumes "\<And>n. 6 \<le> n \<Longrightarrow> \<not> bit (v :: u8) n"
  shows "v < 64"
proof -
  have "take_bit 6 v = v" by (rule bit_word_eqI) (meson assms bit_take_bit_iff not_le)
  then have "unat v = take_bit 6 (unat v)" by (metis unsigned_take_bit_eq)
  then have "unat v < 2 ^ 6" using take_bit_nat_less_exp by metis
  then show ?thesis by (simp add: word_less_nat_alt)
qed

lemma sextets_less:
  fixes x y z :: u8
  shows "drop_bit 2 x < 64" "push_bit 4 (x AND 3) OR drop_bit 4 y < 64"
    "push_bit 2 (y AND 15) OR drop_bit 6 z < 64" "z AND 63 < 64"
    "push_bit 4 (x AND 3) < 64" "push_bit 2 (y AND 15) < 64"
proof -
  have m: "(3 :: u8) = mask 2" "(15 :: u8) = mask 4" "(63 :: u8) = mask 6" by (simp_all add: mask_eq_exp_minus_1)
  have h: "\<not> bit w n" if "8 \<le> n" for w :: u8 and n using that by (simp add: bit_word.rep_eq)
  show "drop_bit 2 x < 64" "push_bit 4 (x AND 3) OR drop_bit 4 y < 64"
    "push_bit 2 (y AND 15) OR drop_bit 6 z < 64" "z AND 63 < 64"
    "push_bit 4 (x AND 3) < 64" "push_bit 2 (y AND 15) < 64"
    unfolding m by (rule u8_less_64I; use h in \<open>auto simp: bit_simps\<close>)+
qed

lemma u8_eqI:
  assumes "bit a 0 = bit b 0" "bit a 1 = bit b 1" "bit a 2 = bit b 2" "bit a 3 = bit b 3"
    "bit a 4 = bit b 4" "bit a 5 = bit b 5" "bit a 6 = bit b 6" "bit a 7 = bit b 7"
  shows "a = (b :: u8)"
proof (rule bit_word_eqI)
  fix n assume "n < LENGTH(8)"
  then have "n = 0 \<or> n = 1 \<or> n = 2 \<or> n = 3 \<or> n = 4 \<or> n = 5 \<or> n = 6 \<or> n = 7" by (simp, arith)
  then show "bit a n = bit b n" using assms by auto
qed

lemma u8_octets:
  fixes x y z :: u8
  shows "push_bit 2 (drop_bit 2 x) + drop_bit 4 ((push_bit 4 (x AND 3) OR drop_bit 4 y) AND 0x30) = x"
    "push_bit 2 (drop_bit 2 x) + drop_bit 4 (push_bit 4 (x AND 3) AND 0x30) = x"
    "push_bit 4 ((push_bit 4 (x AND 3) OR drop_bit 4 y) AND 0xf) +
       drop_bit 2 ((push_bit 2 (y AND 15) OR drop_bit 6 z) AND 0x3c) = y"
    "push_bit 4 ((push_bit 4 (x AND 3) OR drop_bit 4 y) AND 0xf) +
       drop_bit 2 (push_bit 2 (y AND 15) AND 0x3c) = y"
    "push_bit 6 ((push_bit 2 (y AND 15) OR drop_bit 6 z) AND 0x3) + (z AND 63) = z"
proof -
  have m: "(3 :: u8) = mask 2" "(15 :: u8) = mask 4" "(63 :: u8) = mask 6"
    "(0x30 :: u8) = push_bit 4 (mask 2)" "(0x3c :: u8) = push_bit 2 (mask 4)"
    by (simp_all add: mask_eq_exp_minus_1 push_bit_eq_mult)
  show "push_bit 2 (drop_bit 2 x) + drop_bit 4 ((push_bit 4 (x AND 3) OR drop_bit 4 y) AND 0x30) = x"
    "push_bit 2 (drop_bit 2 x) + drop_bit 4 (push_bit 4 (x AND 3) AND 0x30) = x"
    "push_bit 4 ((push_bit 4 (x AND 3) OR drop_bit 4 y) AND 0xf) +
       drop_bit 2 ((push_bit 2 (y AND 15) OR drop_bit 6 z) AND 0x3c) = y"
    "push_bit 4 ((push_bit 4 (x AND 3) OR drop_bit 4 y) AND 0xf) +
       drop_bit 2 (push_bit 2 (y AND 15) AND 0x3c) = y"
    "push_bit 6 ((push_bit 2 (y AND 15) OR drop_bit 6 z) AND 0x3) + (z AND 63) = z"
    unfolding m
    by ((subst disjunctive_add, auto simp: bit_simps u8_bit_high)[1], rule u8_eqI;
        simp add: bit_simps u8_bit_high)+
qed

lemma Base64Decode_loop_groups:
  assumes "is_base64 a" "a \<noteq> CHR ''=''" "is_base64 b" "b \<noteq> CHR ''=''"
  shows "Base64Decode_loop (a # b # CHR ''='' # rest) [] ret = ([a, b], ret)"
    "is_base64 c \<Longrightarrow> c \<noteq> CHR ''='' \<Longrightarrow> Base64Decode_loop (a # b # c # CHR ''='' # rest) [] ret = ([a, b, c], ret)"
    "is_base64 c \<Longrightarrow> c \<noteq> CHR ''='' \<Longrightarrow> is_base64 d \<Longrightarrow> d \<noteq> CHR ''='' \<Longrightarrow>
       Base64Decode_loop (a # b # c # d # rest) [] ret = Base64Decode_loop rest [] (ret @ char_array_3 [a, b, c, d])"
  using assms by (simp_all add: Let_def)

lemma char_array_3_Cons:
  "char_array_3 [a, b, c, d] =
     [push_bit 2 (base64_index a) + drop_bit 4 (base64_index b AND 0x30),
      push_bit 4 (base64_index b AND 0xf) + drop_bit 2 (base64_index c AND 0x3c),
      push_bit 6 (base64_index c AND 0x3) + base64_index d]"
  by (simp add: char_array_3_def Let_def)

lemma take_two: "take 2 [p, q, r] = [p, q]"
  by simp

lemma char_array_3_sextets:
  assumes "base64_index a = drop_bit 2 x"
  shows "base64_index b = push_bit 4 (x AND 3) \<Longrightarrow> hd (char_array_3 [a, b, c, d]) = x"
    "base64_index b = push_bit 4 (x AND 3) OR drop_bit 4 y \<Longrightarrow> base64_index c = push_bit 2 (y AND 15) \<Longrightarrow>
       take 2 (char_array_3 [a, b, c, d]) = [x, y]"
    "base64_index b = push_bit 4 (x AND 3) OR drop_bit 4 y \<Longrightarrow>
       base64_index c = push_bit 2 (y AND 15) OR drop_bit 6 z \<Longrightarrow> base64_index d = z AND 63 \<Longrightarrow>
       char_array_3 [a, b, c, d] = [x, y, z]"
  using assms
  by (simp_all only: char_array_3_Cons list.sel take_two u8_octets)

lemma Base64Decode_loop_encode:
  "(case Base64Decode_loop (base64_encode bs) [] ret of
      (grp, ret') \<Rightarrow>
        if length grp \<noteq> 0
        then ret' @ take (length grp - 1) (char_array_3 (grp @ replicate (4 - length grp) nul)) else ret') =
   ret @ bs"
proof (induction bs arbitrary: ret rule: base64_encode.induct)
  case (2 x)
  note h = base64_char_facts [OF sextets_less(1), of x] base64_char_facts [OF sextets_less(5), of x]
  have "take 1 (char_array_3 [base64_char (drop_bit 2 x), base64_char (push_bit 4 (x AND 3)), nul, nul]) = [x]"
    using char_array_3_sextets(1) [OF h(3) h(6), of nul nul] by (simp add: char_array_3_def Let_def)
  then show ?case
    unfolding base64_encode.simps Base64Decode_loop_groups(1) [OF h(1,2,4,5)] by (simp add: numeral_eq_Suc)
next
  case (3 x y)
  note h = base64_char_facts [OF sextets_less(1), of x] base64_char_facts [OF sextets_less(2), of x y]
    base64_char_facts [OF sextets_less(6), of y]
  show ?case
    unfolding base64_encode.simps Base64Decode_loop_groups(2) [OF h(1,2,4,5,7,8)]
    using char_array_3_sextets(2) [OF h(3) h(6) h(9), of nul]
    by (simp add: numeral_eq_Suc del: push_bit_and drop_bit_and)
next
  case (4 x y z rest)
  note h = base64_char_facts [OF sextets_less(1), of x] base64_char_facts [OF sextets_less(2), of x y]
    base64_char_facts [OF sextets_less(3), of y z] base64_char_facts [OF sextets_less(4), of z]
  show ?case
    unfolding base64_encode.simps append_Cons append_Nil Base64Decode_loop_groups(3) [OF h(1,2,4,5,7,8,10,11)]
      char_array_3_sextets(3) [OF h(3) h(6) h(9) h(12)] 4 by simp
qed simp

section \<open>Splitting\<close>

fun join_with :: "char \<Rightarrow> string list \<Rightarrow> string" where
  "join_with d [] = []"
| "join_with d [p] = p"
| "join_with d (p # ps) = p @ d # join_with d ps"

lemma join_with_Cons: "ps \<noteq> [] \<Longrightarrow> join_with d (p # ps) = p @ d # join_with d ps"
  by (cases ps) simp_all

lemma split_first:
  "d \<notin> set p \<Longrightarrow> d \<notin> set q \<Longrightarrow> p @ d # xs = q @ d # ys \<longleftrightarrow> p = q \<and> xs = ys"
proof (induction p arbitrary: q)
  case Nil
  then show ?case by (cases q) auto
next
  case (Cons a p)
  then show ?case by (cases q) auto
qed

lemma join_with_delim:
  "ps \<noteq> [] \<Longrightarrow> list_all (\<lambda>p. d \<notin> set p) ps \<Longrightarrow> d \<in> set (join_with d ps) \<longleftrightarrow> 2 \<le> length ps"
  by (induction d ps rule: join_with.induct) (auto simp: Suc_le_eq)

lemma join_with_inject:
  assumes "ps \<noteq> []" "qs \<noteq> []" "list_all (\<lambda>p. d \<notin> set p) ps" "list_all (\<lambda>p. d \<notin> set p) qs"
    "join_with d ps = join_with d qs"
  shows "ps = qs"
  using assms
proof (induction ps arbitrary: qs)
  case (Cons p ps)
  obtain q qs' where qs: "qs = q # qs'" using Cons.prems(2) by (cases qs) auto
  have two: "2 \<le> length (p # ps) \<longleftrightarrow> 2 \<le> length qs"
    using join_with_delim [OF Cons.prems(1,3)] join_with_delim [OF Cons.prems(2,4)] Cons.prems(5) by simp
  show ?case
  proof (cases ps)
    case Nil
    then have "qs' = []" using two qs by (cases qs') auto
    then show ?thesis using Cons.prems(5) Nil qs by simp
  next
    case (Cons p' ps')
    then have ne: "ps \<noteq> []" "qs' \<noteq> []" using two qs by (auto simp: Suc_le_eq)
    then have "p @ d # join_with d ps = q @ d # join_with d qs'"
      using Cons.prems(5) qs by (simp add: join_with_Cons)
    then have "p = q" "join_with d ps = join_with d qs'"
      using split_first [of d p q] Cons.prems(3,4) qs by simp_all
    then show ?thesis using Cons.IH [OF ne(1) ne(2)] Cons.prems(3,4) qs by simp
  qed
qed simp

lemma SplitStringView_loop_laws:
  assumes "offset \<le> length sv"
  shows "\<exists>ps. SplitStringView_loop d sv offset parts = parts @ ps \<and> ps \<noteq> [] \<and>
    list_all (\<lambda>p. d \<notin> set p) ps \<and> join_with d ps = drop offset sv"
  using assms
proof (induction d sv offset parts rule: SplitStringView_loop.induct)
  case (1 d sv offset parts)
  show ?case
  proof (cases "find_char_from d offset sv")
    case None
    then have "d \<notin> set (drop offset sv)" using 1(2) by (simp add: find_char_from_def find_char_None_iff)
    then show ?thesis using None by (subst SplitStringView_loop.simps) simp
  next
    case (Some n)
    then obtain k where k: "find_char d (drop offset sv) = Some k" "n = k + offset"
      using 1(2) by (auto simp: find_char_from_def)
    note kd = find_char_SomeD [OF k(1)]
    have n: "n + 1 \<le> length sv" using kd k(2) by (simp add: less_diff_conv Suc_le_eq)
    obtain ps where ps: "SplitStringView_loop d sv (n + 1) (parts @ [substr sv offset (n - offset)]) =
        (parts @ [substr sv offset (n - offset)]) @ ps" "ps \<noteq> []" "list_all (\<lambda>p. d \<notin> set p) ps"
      "join_with d ps = drop (n + 1) sv"
      using 1(1) [OF Some n] by blast
    have "drop offset sv = take k (drop offset sv) @ d # drop (n + 1) sv"
      using id_take_nth_drop [of k "drop offset sv"] kd k(2) by (simp add: add.commute)
    then show ?thesis using Some ps kd k(2)
      by (intro exI [of _ "substr sv offset (n - offset) # ps"], subst SplitStringView_loop.simps)
         (simp add: substr_def join_with_Cons)
  qed
qed

section \<open>UTF-8\<close>

lemma SanitizedUTF8_loop_laws:
  assumes span: "\<And>s. span s \<le> length s" "\<And>s. valid (take (span s) s)"
    and valid: "\<And>a b. valid a \<Longrightarrow> valid b \<Longrightarrow> valid (a @ b)" "valid ''?''"
  shows "\<exists>tail. SanitizedUTF8_loop span (pre @ str) str (span str) (length pre + span str) = pre @ tail \<and>
    list_all2 (\<lambda>out c. out = c \<or> out = CHR ''?'') tail str \<and> valid tail"
proof (induction "length str" arbitrary: pre str rule: less_induct)
  case less
  show ?case
  proof (cases "span str < length str")
    case False
    then have "span str = length str" using span(1) [of str] by simp
    then have "valid str" using span(2) [of str] by simp
    then show ?thesis using False by (subst SanitizedUTF8_loop.simps) (simp add: list_all2_refl)
  next
    case True
    let ?k = "span str"
    let ?pre = "pre @ take ?k str @ ''?''" and ?str = "drop (?k + 1) str"
    have "(pre @ str)[length pre + ?k := CHR ''?''] = ?pre @ ?str"
      using True by (simp add: list_update_append upd_conv_take_nth_drop)
    moreover have "length pre + ?k + (span ?str + 1) = length ?pre + span ?str" using True by simp
    ultimately have step: "SanitizedUTF8_loop span (pre @ str) str ?k (length pre + ?k) =
        SanitizedUTF8_loop span (?pre @ ?str) ?str (span ?str) (length ?pre + span ?str)"
      using True by (subst SanitizedUTF8_loop.simps) (simp add: Let_def)
    have shorter: "length ?str < length str" using True by simp
    obtain tail where tail: "SanitizedUTF8_loop span (?pre @ ?str) ?str (span ?str) (length ?pre + span ?str) =
        ?pre @ tail" "list_all2 (\<lambda>out c. out = c \<or> out = CHR ''?'') tail ?str" "valid tail"
      using less [OF shorter, of ?pre] by blast
    have "str = take ?k str @ str ! ?k # ?str" using id_take_nth_drop [OF True] by simp
    moreover have "list_all2 (\<lambda>out c. out = c \<or> out = CHR ''?'')
        (take ?k str @ CHR ''?'' # tail) (take ?k str @ str ! ?k # ?str)"
      using tail(2) by (intro list_all2_appendI) (simp_all add: list_all2_refl)
    moreover have "valid (take ?k str @ CHR ''?'' # tail)"
      using valid(1) [OF span(2) valid(1) [OF valid(2) tail(3)], of str] by simp
    ultimately show ?thesis unfolding step tail(1) by (intro exI [of _ "take ?k str @ CHR ''?'' # tail"]) simp
  qed
qed

section \<open>Properties\<close>

text \<open>
  C16: the container ID is found exactly in paths that end, before the last \<open>.scope\<close> if there is
  one, with a separator and 64 hexadecimal digits, and whose part before the separator does not
  end in \<open>-conmon\<close>; it is the first 12 digits.
\<close>

theorem ExtractContainerIDFromCgroup_iff:
  assumes "length c < 2 ^ 63"
  shows "ExtractContainerIDFromCgroup c = Some i \<longleftrightarrow>
    (\<exists>full. cgroup_of_container c full \<and> i = take 12 full)"
proof -
  let ?b = "cgroup_base c"
  have base: "(case rfind_str ''.scope'' c of
      Some scope \<Rightarrow> remove_suffix (length c - scope) c | None \<Rightarrow> c) = ?b"
    using rfind_str_le by (auto simp: cgroup_base_def remove_suffix_def split: option.split)
  have len: "length ?b \<le> length c"
    using rfind_str_le by (auto simp: cgroup_base_def split: option.split)
  show ?thesis
  proof (cases "65 \<le> length ?b")
    case False
    then show ?thesis
      by (auto simp: ExtractContainerIDFromCgroup_def base CONTAINER_ID_LENGTH_def Let_def cgroup_of_container_iff)
  next
    case True
    let ?n = "length ?b - 65"
    have conmon: "find_str_from ''-conmon'' (size_diff (length (take ?n ?b)) (length ''-conmon'')) (take ?n ?b) \<noteq> None \<longleftrightarrow>
        suffix ''-conmon'' (take ?n ?b)"
      using len assms by (intro find_str_from_suffix) simp_all
    have part: "drop ?n ?b ! 0 = ?b ! ?n" "drop 1 (drop ?n ?b) = drop (Suc ?n) ?b" using True by simp_all
    have id: "IsContainerID (drop (Suc ?n) ?b) \<longleftrightarrow> list_all c_isxdigit (drop (Suc ?n) ?b)"
      using True by (simp add: IsContainerID_def CONTAINER_ID_LENGTH_def)
    have bounds: "\<not> length c < 65" "\<not> length ?b < 65" using True len by simp_all
    have sum: "64 + 1 = (65 :: nat)" by simp
    have "ExtractContainerIDFromCgroup c =
        (if ?b ! ?n \<noteq> CHR ''/'' \<and> ?b ! ?n \<noteq> CHR ''-'' \<and> ?b ! ?n \<noteq> CHR '':'' then None
         else if suffix ''-conmon'' (take ?n ?b) then None
         else if \<not> list_all c_isxdigit (drop (Suc ?n) ?b) then None
         else Some (take 12 (drop (Suc ?n) ?b)))"
      unfolding ExtractContainerIDFromCgroup_def base
      unfolding Let_def remove_suffix_def substr_def drop_0 CONTAINER_ID_LENGTH_def SHORT_CONTAINER_ID_LENGTH_def
      by (simp only: part id conmon bounds if_False sum)
    moreover have "(\<exists>full. cgroup_of_container c full \<and> i = take 12 full) \<longleftrightarrow>
        ?b ! ?n \<in> set ''/-:'' \<and> list_all c_isxdigit (drop (Suc ?n) ?b) \<and>
        \<not> suffix ''-conmon'' (take ?n ?b) \<and> i = take 12 (drop (Suc ?n) ?b)"
      unfolding cgroup_of_container_iff Let_def using True by (simp only: simp_thms) metis
    ultimately show ?thesis by (auto simp only: list.set insert_iff empty_iff option.inject option.distinct split: if_splits)
  qed
qed

theorem ExtractContainerIDFromCgroup_iff_witness:
  "ExtractContainerIDFromCgroup (''/docker/'' @ replicate 64 (CHR ''a'')) = Some (replicate 12 (CHR ''a'')) \<and>
   cgroup_of_container (''/docker/'' @ replicate 64 (CHR ''a'')) (replicate 64 (CHR ''a''))"
proof -
  let ?c = "''/docker/'' @ replicate 64 (CHR ''a'')"
  have "rfind_str ''.scope'' ?c = None" by code_simp
  then have "cgroup_base ?c = ''/docker'' @ CHR ''/'' # replicate 64 (CHR ''a'')"
    by (simp add: cgroup_base_def)
  moreover have "\<not> suffix ''-conmon'' ''/docker''" by (simp add: suffix_def Cons_eq_append_conv)
  moreover have "list_all c_isxdigit (replicate 64 (CHR ''a''))" by code_simp
  ultimately have c: "cgroup_of_container ?c (replicate 64 (CHR ''a''))"
    unfolding cgroup_of_container_def
    by (intro exI [of _ "''/docker''"] exI [of _ "CHR ''/''"] conjI) simp_all
  moreover have "replicate 12 (CHR ''a'') = take 12 (replicate 64 (CHR ''a''))" by simp
  ultimately show ?thesis
    using ExtractContainerIDFromCgroup_iff [of ?c "replicate 12 (CHR ''a'')"] by auto
qed

text \<open>
  decoding inverts the standard base64 encoding, for every sequence of bytes and with every
  amount of padding; the filler that the last incomplete group is padded with never reaches the
  output.
\<close>

theorem Base64Decode_encode: "Base64Decode (base64_encode bs) = bs"
  using Base64Decode_loop_encode [of bs "[]"]
  by (simp add: Base64Decode_def Let_def split: prod.splits)

text \<open>
  splitting at a delimiter gives the one non-empty list of delimiter-free parts that joins
  back to the string.
\<close>

theorem SplitStringView_iff:
  "ps = SplitStringView sv d \<longleftrightarrow>
     ps \<noteq> [] \<and> list_all (\<lambda>p. d \<notin> set p) ps \<and> join_with d ps = sv"
proof -
  have laws: "SplitStringView sv d \<noteq> [] \<and> list_all (\<lambda>p. d \<notin> set p) (SplitStringView sv d) \<and>
      join_with d (SplitStringView sv d) = sv"
    using SplitStringView_loop_laws [of 0 sv d "[]"] by (auto simp: SplitStringView_def)
  then show ?thesis using join_with_inject [of ps "SplitStringView sv d" d] by metis
qed

text \<open>
  sanitizing. For a span function that gives the length of a valid prefix, the whole length
  exactly for valid strings, nothing is returned for a valid string; otherwise the result is
  valid, has the same length and differs from the input only by question marks.
\<close>

theorem SanitizedUTF8_valid:
  assumes "\<And>s. span s \<le> length s" "\<And>s. valid (take (span s) s)" "\<And>s. span s = length s \<longleftrightarrow> valid s"
    "\<And>a b. valid a \<Longrightarrow> valid b \<Longrightarrow> valid (a @ b)" "valid ''?''"
  shows "case SanitizedUTF8 span s of
      None \<Rightarrow> valid s
    | Some out \<Rightarrow> \<not> valid s \<and> valid out \<and> list_all2 (\<lambda>out c. out = c \<or> out = CHR ''?'') out s"
  using SanitizedUTF8_loop_laws [of span valid "[]" s, OF assms(1,2,4,5)] assms(3) [of s]
  by (auto simp: SanitizedUTF8_def Let_def)

theorem SanitizedUTF8_valid_witness:
  "SanitizedUTF8 (\<lambda>s. length (takeWhile (\<lambda>c. cc c < 128) s)) [CHR ''a'', char_of (200 :: nat), CHR ''b''] =
     Some ''a?b'' \<and> list_all (\<lambda>c. cc c < 128) ''a?b''"
proof -
  let ?span = "\<lambda>s. length (takeWhile (\<lambda>c. cc c < 128) s)" and ?s = "[CHR ''a'', char_of (200 :: nat), CHR ''b'']"
  have span: "?span s = length s \<longleftrightarrow> list_all (\<lambda>c. cc c < 128) s" for s
    by (induction s) auto
  have take: "take (?span s) s = takeWhile (\<lambda>c. cc c < 128) s" for s
    by (metis takeWhile_eq_take)
  have "SanitizedUTF8 ?span ?s = Some ''a?b''"
    by (simp add: SanitizedUTF8_def cc_def SanitizedUTF8_loop.simps)
  moreover have "case SanitizedUTF8 ?span ?s of
      None \<Rightarrow> list_all (\<lambda>c. cc c < 128) ?s
    | Some out \<Rightarrow> \<not> list_all (\<lambda>c. cc c < 128) ?s \<and> list_all (\<lambda>c. cc c < 128) out \<and>
        list_all2 (\<lambda>out c. out = c \<or> out = CHR ''?'') out ?s"
  proof (rule SanitizedUTF8_valid [where span = ?span and valid = "list_all (\<lambda>c. cc c < 128)"])
    show "?span s \<le> length s" for s by (rule length_takeWhile_le)
    show "list_all (\<lambda>c. cc c < 128) (take (?span s) s)" for s
      unfolding take by (auto simp: list_all_iff dest: set_takeWhileD)
  qed (use span in \<open>simp_all add: cc_def\<close>)
  ultimately show ?thesis by simp
qed

end
