(* ===== verification/Logging.thy ===== *)
theory Logging
  imports CxxLib
begin

text \<open>
  The logging of \<open>Logging.h\<close>, \<open>Logging.cpp\<close> and \<open>LogLevel.cpp\<close>: levels and their names, the
  throttled log statements, the callback for messages of the inspector, and the request that
  changes the level at run time. The global level is passed explicitly.
\<close>

section \<open>Levels\<close>

datatype LogLevel = FATAL | CRITICAL | ERROR | WARNING | NOTICE | INFO | DEBUG | TRACE

definition LogLevel_value :: "LogLevel \<Rightarrow> nat" where
  "LogLevel_value level =
     (case level of FATAL \<Rightarrow> 1 | CRITICAL \<Rightarrow> 2 | ERROR \<Rightarrow> 3 | WARNING \<Rightarrow> 4 | NOTICE \<Rightarrow> 5 | INFO \<Rightarrow> 6
      | DEBUG \<Rightarrow> 7 | TRACE \<Rightarrow> 8)"

definition all_levels :: "LogLevel list" where
  "all_levels = [TRACE, DEBUG, INFO, WARNING, ERROR, FATAL]"

definition GetLogLevelName :: "LogLevel \<Rightarrow> string" where
  "GetLogLevelName level =
     (case level of TRACE \<Rightarrow> ''TRACE'' | DEBUG \<Rightarrow> ''DEBUG'' | INFO \<Rightarrow> ''INFO'' | WARNING \<Rightarrow> ''WARNING''
      | ERROR \<Rightarrow> ''ERROR'' | FATAL \<Rightarrow> ''FATAL'' | _ \<Rightarrow> ''UNKNOWN'')"

definition GetLogLevelShortName :: "LogLevel \<Rightarrow> char" where
  "GetLogLevelShortName level =
     (case level of TRACE \<Rightarrow> CHR ''T'' | DEBUG \<Rightarrow> CHR ''D'' | INFO \<Rightarrow> CHR ''I'' | WARNING \<Rightarrow> CHR ''W''
      | ERROR \<Rightarrow> CHR ''E'' | FATAL \<Rightarrow> CHR ''F'' | _ \<Rightarrow> CHR ''U'')"

definition GetNameToLevelMap :: "(string, LogLevel) umap" where
  "GetNameToLevelMap = foldl (\<lambda>m level. fst (um_insert (=) (GetLogLevelName level) level m)) [] all_levels"

definition CheckLogLevel :: "LogLevel \<Rightarrow> LogLevel \<Rightarrow> bool" where
  "CheckLogLevel g_level level = (LogLevel_value level \<le> LogLevel_value g_level)"

definition ParseLogLevelName :: "string \<Rightarrow> LogLevel option" where
  "ParseLogLevelName name = um_lookup (=) (map c_toupper name) GetNameToLevelMap"

section \<open>Throttled messages\<close>

text \<open>Times and the interval are in ticks of the steady clock; a call to \<open>Suppress\<close> reads it twice.\<close>

record ThrottledLogHeader =
  tl_last_log :: int
  tl_interval :: int
  tl_count :: u64

definition ThrottledLogHeader_mk :: "int \<Rightarrow> ThrottledLogHeader" where
  "ThrottledLogHeader_mk interval = \<lparr>tl_last_log = 0, tl_interval = interval, tl_count = 0\<rparr>"

definition Suppress :: "int \<Rightarrow> int \<Rightarrow> ThrottledLogHeader \<Rightarrow> ThrottledLogHeader \<times> bool" where
  "Suppress now1 now2 h =
     (let elapsed = now1 - tl_last_log h;
          h' = h\<lparr>tl_count := tl_count h + 1\<rparr>
      in if elapsed < tl_interval h then (h', True) else (h'\<lparr>tl_last_log := now2\<rparr>, False))"

text \<open>Printing the header shows the number of messages since the last one and resets it.\<close>

definition ThrottledLogHeader_PrintHeader :: "ThrottledLogHeader \<Rightarrow> ThrottledLogHeader \<times> u64" where
  "ThrottledLogHeader_PrintHeader h = (h\<lparr>tl_count := 0\<rparr>, tl_count h)"

text \<open>The macro: the level, then the condition, then the throttle; the count printed, if any.\<close>

definition CLOG_THROTTLED_IF ::
  "LogLevel \<Rightarrow> bool \<Rightarrow> LogLevel \<Rightarrow> int \<Rightarrow> int \<Rightarrow> ThrottledLogHeader \<Rightarrow> ThrottledLogHeader \<times> u64 option" where
  "CLOG_THROTTLED_IF g_level cond lvl now1 now2 h =
     (if CheckLogLevel g_level lvl \<and> cond then
        (let (h', suppressed) = Suppress now1 now2 h
         in if suppressed then (h', None)
            else (let (h'', n) = ThrottledLogHeader_PrintHeader h' in (h'', Some n)))
      else (h, None))"

section \<open>Messages of the inspector\<close>

text \<open>
  The header of the callback is a static variable: it is constructed by the first message that
  passes the level check and keeps the severity of that message. A printed message carries the
  level of the header, and a header of level \<open>FATAL\<close> ends the process.
\<close>

record PrintedMessage =
  pm_level :: LogLevel
  pm_text :: string
  pm_exits :: bool

definition InspectorLogCallback ::
  "LogLevel \<Rightarrow> string \<Rightarrow> LogLevel \<Rightarrow> LogLevel option \<Rightarrow> LogLevel option \<times> PrintedMessage option" where
  "InspectorLogCallback g_level msg severity header =
     (let collector_severity =
            (if severity = DEBUG \<and> is_prefix ''libbpf:'' msg then TRACE else severity)
      in if \<not> CheckLogLevel g_level collector_severity then (header, None)
         else
           (let h = (case header of None \<Rightarrow> collector_severity | Some l \<Rightarrow> l)
            in (Some h, Some \<lparr>pm_level = h, pm_text = msg, pm_exits = (h = FATAL)\<rparr>)))"

section \<open>Changing the level at run time\<close>

datatype LogLevelResponse = Level_reported string | Level_set | Level_invalid string

text \<open>\<open>buf\<close> holds what \<open>mg_read\<close> stored and \<open>bytes\<close> is its return value.\<close>

definition LogLevelHandler_handlePost :: "int \<Rightarrow> string \<Rightarrow> LogLevel \<Rightarrow> LogLevel \<times> LogLevelResponse" where
  "LogLevelHandler_handlePost bytes buf g_level =
     (let request = take (nat (max bytes 0)) buf
      in if request = [] then (g_level, Level_reported (GetLogLevelName g_level))
         else
           (case ParseLogLevelName request of
              Some level \<Rightarrow> (level, Level_set)
            | None \<Rightarrow> (g_level, Level_invalid (''Invalid log level '' @ CHR 0x27 # request @ [CHR 0x27]))))"

section \<open>Laws\<close>

lemma GetNameToLevelMap_eq:
  "GetNameToLevelMap =
     [(''TRACE'', TRACE), (''DEBUG'', DEBUG), (''INFO'', INFO), (''WARNING'', WARNING), (''ERROR'', ERROR),
      (''FATAL'', FATAL)]"
  by (simp add: GetNameToLevelMap_def all_levels_def GetLogLevelName_def um_insert_def)

lemma ParseLogLevelName_iff:
  "ParseLogLevelName name = Some level \<longleftrightarrow>
     level \<in> set all_levels \<and> map c_toupper name = GetLogLevelName level"
  by (cases level)
     (auto simp: ParseLogLevelName_def GetNameToLevelMap_eq all_levels_def GetLogLevelName_def split: if_splits)

text \<open>A run of one throttled statement: pairs of clock readings, and the counts printed with the
  times of the statements that printed.\<close>

fun throttled_run :: "(int \<times> int) list \<Rightarrow> ThrottledLogHeader \<Rightarrow> ThrottledLogHeader \<times> (int \<times> u64) list" where
  "throttled_run [] h = (h, [])"
| "throttled_run ((now1, now2) # rest) h =
     (let (h1, printed) = CLOG_THROTTLED_IF INFO True INFO now1 now2 h;
          (h2, out) = throttled_run rest h1
      in (h2, (case printed of None \<Rightarrow> out | Some n \<Rightarrow> (now1, n) # out)))"

fun spaced :: "int \<Rightarrow> int \<Rightarrow> (int \<times> 'a) list \<Rightarrow> bool" where
  "spaced d t [] = True"
| "spaced d t ((u, x) # rest) = (t + d \<le> u \<and> spaced d u rest)"

lemma spaced_mono: "t \<le> t' \<Longrightarrow> spaced d t' xs \<Longrightarrow> spaced d t xs"
  by (cases "(d, t, xs)" rule: spaced.cases) auto

lemma throttled_run_laws:
  assumes "throttled_run ts h = (h', out)"
  shows "(\<Sum>(u, n) \<leftarrow> out. n) + tl_count h' = tl_count h + of_nat (length ts) \<and> tl_interval h' = tl_interval h"
  using assms
proof (induction ts arbitrary: h h' out)
  case (Cons a ts)
  obtain now1 now2 where a: "a = (now1, now2)" by (cases a)
  obtain h1 p where h1: "CLOG_THROTTLED_IF INFO True INFO now1 now2 h = (h1, p)" by fastforce
  obtain h2 out2 where h2: "throttled_run ts h1 = (h2, out2)" by fastforce
  have r: "h' = h2" "out = (case p of None \<Rightarrow> out2 | Some n \<Rightarrow> (now1, n) # out2)"
    using Cons.prems a h1 h2 by simp_all
  have "tl_interval h1 = tl_interval h" "(case p of None \<Rightarrow> 0 | Some n \<Rightarrow> n) + tl_count h1 = tl_count h + 1"
    using h1 by (auto simp: CLOG_THROTTLED_IF_def CheckLogLevel_def Suppress_def Let_def
        ThrottledLogHeader_PrintHeader_def split: if_splits)
  then show ?case using Cons.IH [OF h2] r by (cases p) (auto simp: algebra_simps)
qed simp

lemma throttled_run_spaced:
  assumes "throttled_run ts h = (h', out)" "list_all (\<lambda>(a, b). a \<le> b) ts"
  shows "spaced (tl_interval h) (tl_last_log h) out"
  using assms
proof (induction ts arbitrary: h h' out)
  case (Cons a ts)
  obtain now1 now2 where a: "a = (now1, now2)" by (cases a)
  obtain h1 p where h1: "CLOG_THROTTLED_IF INFO True INFO now1 now2 h = (h1, p)" by fastforce
  obtain h2 out2 where h2: "throttled_run ts h1 = (h2, out2)" by fastforce
  have r: "out = (case p of None \<Rightarrow> out2 | Some n \<Rightarrow> (now1, n) # out2)"
    using Cons.prems a h1 h2 by simp_all
  have IH: "spaced (tl_interval h1) (tl_last_log h1) out2" using Cons.IH [OF h2] Cons.prems(2) by simp
  have step: "tl_interval h1 = tl_interval h"
    "p = None \<Longrightarrow> tl_last_log h1 = tl_last_log h"
    "p \<noteq> None \<Longrightarrow> tl_last_log h1 = now2 \<and> tl_last_log h + tl_interval h \<le> now1"
    using h1 by (auto simp: CLOG_THROTTLED_IF_def CheckLogLevel_def Suppress_def Let_def
        ThrottledLogHeader_PrintHeader_def split: if_splits)
  show ?case
  proof (cases p)
    case None
    then show ?thesis using r step IH by simp
  next
    case (Some n)
    then have "spaced (tl_interval h) now1 out2"
      using IH step Cons.prems(2) a by (intro spaced_mono [of now1 now2]) simp_all
    then show ?thesis using Some r step by simp
  qed
qed simp

section \<open>Properties\<close>

text \<open>
  a throttled log statement, over any sequence of calls whose clock readings are ordered,
  prints messages at least one interval apart, and loses no call: the printed counts and the
  pending count add up to the number of calls, modulo the width of the counter.
\<close>

theorem CLOG_THROTTLED_IF_spaced_and_counted:
  assumes "list_all (\<lambda>(a, b). a \<le> b) ts" "throttled_run ts (ThrottledLogHeader_mk d) = (h', out)"
  shows "spaced d 0 out \<and> (\<Sum>(u, n) \<leftarrow> out. n) + tl_count h' = of_nat (length ts)"
  using throttled_run_laws [OF assms(2)] throttled_run_spaced [OF assms(2,1)]
  by (simp add: ThrottledLogHeader_mk_def)

theorem CLOG_THROTTLED_IF_spaced_and_counted_witness:
  "throttled_run [(10, 11), (12, 12), (25, 26)] (ThrottledLogHeader_mk 10) =
     (\<lparr>tl_last_log = 26, tl_interval = 10, tl_count = 0\<rparr>, [(10, 1), (25, 2)]) \<and>
   spaced 10 0 [(10, 1 :: u64), (25, 2)]"
proof -
  let ?ts = "[(10, 11), (12, 12), (25, 26)] :: (int \<times> int) list"
  have "throttled_run ?ts (ThrottledLogHeader_mk 10) =
     (\<lparr>tl_last_log = 26, tl_interval = 10, tl_count = 0\<rparr>, [(10, 1), (25, 2)])"
    by (simp add: CLOG_THROTTLED_IF_def CheckLogLevel_def Suppress_def Let_def ThrottledLogHeader_mk_def
        ThrottledLogHeader_PrintHeader_def)
  then show ?thesis using CLOG_THROTTLED_IF_spaced_and_counted [of ?ts 10] by simp
qed

text \<open>
  the inspector's messages are printed with the level of the first one that was printed:
  a later message of any severity, \<open>FATAL\<close> included, is shown with that level and ends the
  process only if that level is \<open>FATAL\<close>.
\<close>

theorem InspectorLogCallback_first_level:
  assumes "InspectorLogCallback g msg severity None = (Some l, Some m)"
    "InspectorLogCallback g' msg' severity' (Some l) = (header', Some m')"
  shows "header' = Some l \<and> pm_level m' = pm_level m \<and> pm_exits m' = (pm_level m = FATAL)"
  using assms by (auto simp: InspectorLogCallback_def Let_def split: if_splits)

theorem InspectorLogCallback_first_level_witness:
  "InspectorLogCallback INFO ''a'' INFO None = (Some INFO, Some \<lparr>pm_level = INFO, pm_text = ''a'', pm_exits = False\<rparr>) \<and>
   InspectorLogCallback INFO ''b'' FATAL (Some INFO) =
     (Some INFO, Some \<lparr>pm_level = INFO, pm_text = ''b'', pm_exits = False\<rparr>) \<and> FATAL \<noteq> INFO"
  using InspectorLogCallback_first_level [of INFO "''a''" INFO INFO _ INFO "''b''" FATAL "Some INFO"]
  by (simp add: InspectorLogCallback_def CheckLogLevel_def LogLevel_value_def)

end
