(* ===== verification/HostInfo.thy ===== *)
theory HostInfo
  imports Utility
begin

text \<open>
  What the collector finds out about its host: \<open>HostInfo.h\<close> and \<open>HostInfo.cpp\<close>. The operating
  system is a record of what it answers: environment variables, \<open>uname\<close>, readable files and
  directories, and the probes of libbpf. The lazily filled members of the singleton are a record
  that the accessors update.
\<close>

section \<open>The host\<close>

record HostEnv =
  he_getenv :: "string \<Rightarrow> string option"
  he_uname :: "(string \<times> string \<times> string) option"
  he_file :: "string \<Rightarrow> string option"
  he_readable :: "string \<Rightarrow> bool"
  he_is_directory :: "string \<Rightarrow> bool option"
  he_readdir :: "string \<Rightarrow> string list option"
  he_probe_ringbuf :: int
  he_probe_tracing :: int
  he_num_possible_cpus :: int

definition host_path :: "HostEnv \<Rightarrow> string \<Rightarrow> string" where
  "host_path env file = GetHostPath (he_getenv env ''COLLECTOR_HOST_ROOT'') file"

section \<open>Kernel versions\<close>

record KernelVersion =
  kv_kernel :: int
  kv_major :: int
  kv_minor :: int
  kv_build_id :: int
  kv_release :: string
  kv_version :: string
  kv_machine :: string

definition KernelVersion_default :: KernelVersion where
  "KernelVersion_default =
     \<lparr>kv_kernel = 0, kv_major = 0, kv_minor = 0, kv_build_id = 0, kv_release = [], kv_version = [],
      kv_machine = []\<rparr>"

text \<open>
  The regular expression: digits, a dot, digits, a dot, digits, optionally a hyphen and digits, and
  then anything but line terminators. Each group of digits is as long as possible; the next
  character is then no digit, so that no shorter group could match either. The result has the
  groups 1, 2, 3 and 5.
\<close>

definition take_digits :: "string \<Rightarrow> (string \<times> string) option" where
  "take_digits s = (case takeWhile c_isdigit s of [] \<Rightarrow> None | ds \<Rightarrow> Some (ds, dropWhile c_isdigit s))"

definition take_char :: "char \<Rightarrow> string \<Rightarrow> string option" where
  "take_char c s = (case s of [] \<Rightarrow> None | x # xs \<Rightarrow> if x = c then Some xs else None)"

definition match_three :: "string \<Rightarrow> (string \<times> string \<times> string \<times> string) option" where
  "match_three s =
     Option.bind (take_digits s) (\<lambda>(a, s1).
     Option.bind (take_char (CHR ''.'') s1) (\<lambda>s2.
     Option.bind (take_digits s2) (\<lambda>(b, s3).
     Option.bind (take_char (CHR ''.'') s3) (\<lambda>s4.
     Option.bind (take_digits s4) (\<lambda>(c, s5). Some (a, b, c, s5))))))"

definition release_re :: "string \<Rightarrow> (string \<times> string \<times> string \<times> string) option" where
  "release_re s =
     (case match_three s of
        None \<Rightarrow> None
      | Some (a, b, c, rest) \<Rightarrow>
          (let build = (case Option.bind (take_char (CHR ''-'') rest) take_digits of
                          Some (ds, _) \<Rightarrow> ds | None \<Rightarrow> [])
           in if newline \<in> set rest \<or> char_of (13 :: nat) \<in> set rest then None
              else Some (a, b, c, build)))"

definition KernelVersion_mk :: "string \<Rightarrow> string \<Rightarrow> string \<Rightarrow> cxx_fault + KernelVersion" where
  "KernelVersion_mk release version machine =
     (let kv = KernelVersion_default\<lparr>kv_release := release, kv_version := version, kv_machine := machine\<rparr>
      in case release_re release of
           None \<Rightarrow> Inr kv
         | Some (a, b, c, build) \<Rightarrow>
             res_bind (lift_exception (stoi a)) (\<lambda>k.
             res_bind (lift_exception (stoi b)) (\<lambda>mj.
             res_bind (lift_exception (stoi c)) (\<lambda>mn.
             res_bind (if build \<noteq> [] then lift_exception (stoi build) else Inr 0) (\<lambda>bd.
             Inr (kv\<lparr>kv_kernel := k, kv_major := mj, kv_minor := mn, kv_build_id := bd\<rparr>))))))"

definition KernelVersion_FromHost :: "HostEnv \<Rightarrow> cxx_fault + KernelVersion" where
  "KernelVersion_FromHost env =
     (let release = (case he_getenv env ''KERNEL_VERSION'' of None \<Rightarrow> [] | Some v \<Rightarrow> v)
      in case he_uname env of
           Some (uts_release, uts_version, uts_machine) \<Rightarrow>
             KernelVersion_mk (if release = [] then uts_release else release) uts_version uts_machine
         | None \<Rightarrow> KernelVersion_mk release [] [])"

definition KernelVersion_HasEBPFSupport :: "KernelVersion \<Rightarrow> bool" where
  "KernelVersion_HasEBPFSupport kv =
     (if kv_kernel kv < 4 \<or> (kv_kernel kv = 4 \<and> kv_major kv < 14) then False else True)"

definition HasSecureBootParam :: "KernelVersion \<Rightarrow> bool" where
  "HasSecureBootParam kv =
     (if kv_kernel kv < 4 \<or> (kv_kernel kv = 4 \<and> kv_major kv < 11) then False else True)"

definition ShortRelease :: "KernelVersion \<Rightarrow> string" where
  "ShortRelease kv =
     show_int (kv_kernel kv) @ ''.'' @ show_int (kv_major kv) @ ''.'' @ show_int (kv_minor kv)"

definition MIN_RHEL_BUILD_ID :: int where
  "MIN_RHEL_BUILD_ID = 957"

definition isRHEL76 :: "KernelVersion \<Rightarrow> string \<Rightarrow> bool" where
  "isRHEL76 kernel_v os_id =
     (if os_id = ''rhel'' \<or> os_id = ''centos'' then
        if find_str ''.el7.'' (kv_release kernel_v) \<noteq> None then
          if kv_kernel kernel_v = 3 \<and> kv_major kernel_v = 10 then kv_build_id kernel_v \<ge> MIN_RHEL_BUILD_ID
          else False
        else False
      else False)"

definition hasEBPFSupport :: "KernelVersion \<Rightarrow> string \<Rightarrow> bool" where
  "hasEBPFSupport kernel_v os_id =
     (if isRHEL76 kernel_v os_id then True else KernelVersion_HasEBPFSupport kernel_v)"

section \<open>Files\<close>

text \<open>
  The value after the key; reading the last character of an empty value is out of bounds.
\<close>

definition unquote :: "string \<Rightarrow> cxx_fault + string" where
  "unquote val =
     (let v1 = (if val \<noteq> [] \<and> hd val = dquote then tl val else val)
      in if v1 = [] then Inl Undefined_behaviour
         else if last v1 = dquote then Inr (butlast v1) else Inr v1)"

fun filterForKey :: "string list \<Rightarrow> string \<Rightarrow> cxx_fault + string" where
  "filterForKey [] name = Inr []"
| "filterForKey (line # rest) name =
     (case find_char (CHR ''='') line of
        None \<Rightarrow> filterForKey rest name
      | Some idx \<Rightarrow>
          if take idx line = name then unquote (drop (idx + 1) line) else filterForKey rest name)"

definition GetHostnameFromFile :: "HostEnv \<Rightarrow> string \<Rightarrow> string" where
  "GetHostnameFromFile env hostnamePath =
     (case he_file env (host_path env hostnamePath) of
        None \<Rightarrow> []
      | Some content \<Rightarrow> (case getlines content of [] \<Rightarrow> [] | l # _ \<Rightarrow> l))"

definition GetOSReleaseValue :: "HostEnv \<Rightarrow> string \<Rightarrow> cxx_fault + string" where
  "GetOSReleaseValue env name =
     (case he_file env (host_path env ''/etc/os-release'') of
        Some content \<Rightarrow> filterForKey (getlines content) name
      | None \<Rightarrow>
          (case he_file env (host_path env ''/usr/lib/os-release'') of
             Some content \<Rightarrow> filterForKey (getlines content) name
           | None \<Rightarrow> Inr []))"

section \<open>The singleton\<close>

datatype SecureBootStatus = SB_UNSET | SB_NOT_DETERMINED | SB_DISABLED | SB_ENABLED

definition SecureBootStatus_of :: "u8 \<Rightarrow> SecureBootStatus" where
  "SecureBootStatus_of v =
     (if v = 3 then SB_ENABLED else if v = 2 then SB_DISABLED else if v = 1 then SB_NOT_DETERMINED
      else SB_UNSET)"

record HostInfo =
  hi_kernel_version :: KernelVersion
  hi_distro :: string
  hi_hostname :: string
  hi_build_id :: string
  hi_os_id :: string
  hi_secure_boot_status :: SecureBootStatus

definition HostInfo_new :: HostInfo where
  "HostInfo_new =
     \<lparr>hi_kernel_version = KernelVersion_default, hi_distro = [], hi_hostname = [], hi_build_id = [],
      hi_os_id = [], hi_secure_boot_status = SB_UNSET\<rparr>"

definition GetKernelVersion :: "HostEnv \<Rightarrow> HostInfo \<Rightarrow> cxx_fault + HostInfo \<times> KernelVersion" where
  "GetKernelVersion env h =
     (if kv_release (hi_kernel_version h) = [] then
        res_bind (KernelVersion_FromHost env) (\<lambda>kv. Inr (h\<lparr>hi_kernel_version := kv\<rparr>, kv))
      else Inr (h, hi_kernel_version h))"

definition GetHostnameInner :: "HostEnv \<Rightarrow> HostInfo \<Rightarrow> cxx_fault + HostInfo \<times> string" where
  "GetHostnameInner env h =
     (if hi_hostname h \<noteq> [] then Inr (h, hi_hostname h)
      else
        (case he_getenv env ''NODE_HOSTNAME'' of
           Some (c # cs) \<Rightarrow> Inr (h\<lparr>hi_hostname := c # cs\<rparr>, c # cs)
         | _ \<Rightarrow>
             (let first = GetHostnameFromFile env ''/etc/hostname'';
                  name = (if first \<noteq> [] then first else GetHostnameFromFile env ''/proc/sys/kernel/hostname'')
              in if name = [] then Inl Fatal_exit else Inr (h\<lparr>hi_hostname := name\<rparr>, name))))"

definition GetDistro :: "HostEnv \<Rightarrow> HostInfo \<Rightarrow> cxx_fault + HostInfo \<times> string" where
  "GetDistro env h =
     (if hi_distro h = [] then
        res_bind (GetOSReleaseValue env ''PRETTY_NAME'') (\<lambda>v.
          (let d = (if v = [] then ''Linux'' else v) in Inr (h\<lparr>hi_distro := d\<rparr>, d)))
      else Inr (h, hi_distro h))"

definition GetBuildID :: "HostEnv \<Rightarrow> HostInfo \<Rightarrow> cxx_fault + HostInfo \<times> string" where
  "GetBuildID env h =
     (if hi_build_id h = [] then
        res_bind (GetOSReleaseValue env ''BUILD_ID'') (\<lambda>v. Inr (h\<lparr>hi_build_id := v\<rparr>, v))
      else Inr (h, hi_build_id h))"

definition GetOSID :: "HostEnv \<Rightarrow> HostInfo \<Rightarrow> cxx_fault + HostInfo \<times> string" where
  "GetOSID env h =
     (if hi_os_id h = [] then
        res_bind (GetOSReleaseValue env ''ID'') (\<lambda>v. Inr (h\<lparr>hi_os_id := v\<rparr>, v))
      else Inr (h, hi_os_id h))"

definition IsCOS :: "HostEnv \<Rightarrow> HostInfo \<Rightarrow> cxx_fault + HostInfo \<times> bool" where
  "IsCOS env h =
     res_bind (GetOSID env h) (\<lambda>(h1, i).
       if i = ''cos'' then res_bind (GetBuildID env h1) (\<lambda>(h2, b). Inr (h2, b \<noteq> []))
       else Inr (h1, False))"

definition IsCoreOS :: "HostEnv \<Rightarrow> HostInfo \<Rightarrow> cxx_fault + HostInfo \<times> bool" where
  "IsCoreOS env h = res_bind (GetOSID env h) (\<lambda>(h1, i). Inr (h1, i = ''coreos''))"

definition IsDockerDesktop :: "HostEnv \<Rightarrow> HostInfo \<Rightarrow> cxx_fault + HostInfo \<times> bool" where
  "IsDockerDesktop env h = res_bind (GetDistro env h) (\<lambda>(h1, d). Inr (h1, d = ''Docker Desktop''))"

definition IsUbuntu :: "HostEnv \<Rightarrow> HostInfo \<Rightarrow> cxx_fault + HostInfo \<times> bool" where
  "IsUbuntu env h = res_bind (GetOSID env h) (\<lambda>(h1, i). Inr (h1, i = ''ubuntu''))"

definition IsGarden :: "HostEnv \<Rightarrow> HostInfo \<Rightarrow> cxx_fault + HostInfo \<times> bool" where
  "IsGarden env h = res_bind (GetDistro env h) (\<lambda>(h1, d). Inr (h1, is_prefix ''Garden Linux'' d))"

definition IsMinikube :: "HostEnv \<Rightarrow> HostInfo \<Rightarrow> cxx_fault + HostInfo \<times> bool" where
  "IsMinikube env h = res_bind (GetHostnameInner env h) (\<lambda>(h1, n). Inr (h1, n = ''minikube''))"

definition IsRHEL76 :: "HostEnv \<Rightarrow> HostInfo \<Rightarrow> cxx_fault + HostInfo \<times> bool" where
  "IsRHEL76 env h =
     res_bind (GetKernelVersion env h) (\<lambda>(h1, kernel_v).
     res_bind (GetOSID env h1) (\<lambda>(h2, i). Inr (h2, isRHEL76 kernel_v i)))"

definition IsRHEL86 :: "HostEnv \<Rightarrow> HostInfo \<Rightarrow> cxx_fault + HostInfo \<times> bool" where
  "IsRHEL86 env h =
     res_bind (GetKernelVersion env h) (\<lambda>(h1, kernel_v).
     res_bind (GetOSID env h1) (\<lambda>(h2, i).
       if i = ''rhel'' then Inr (h2, find_str ''.el8_6.'' (kv_release kernel_v) \<noteq> None)
       else
         res_bind (GetOSID env h2) (\<lambda>(h3, i').
           if i' = ''rhcos'' then Inr (h3, find_str ''.el8_6.'' (kv_release kernel_v) \<noteq> None)
           else Inr (h3, False))))"

definition HostInfo_HasEBPFSupport :: "HostEnv \<Rightarrow> HostInfo \<Rightarrow> cxx_fault + HostInfo \<times> bool" where
  "HostInfo_HasEBPFSupport env h =
     res_bind (GetKernelVersion env h) (\<lambda>(h1, kernel_v).
     res_bind (GetOSID env h1) (\<lambda>(h2, i). Inr (h2, hasEBPFSupport kernel_v i)))"

text \<open>
  The candidate files, each with whether it is looked up under the host's mount point;
  \<open>snprintf\<close> cuts a path at \<open>PATH_MAX - 1\<close> characters.
\<close>

definition btf_locations :: "string \<Rightarrow> (string \<times> bool) list" where
  "btf_locations r =
     [(''/sys/kernel/btf/vmlinux'', False),
      (''/boot/vmlinux-'' @ r, False),
      (''/lib/modules/'' @ r @ ''/vmlinux-'' @ r, False),
      (''/lib/modules/'' @ r @ ''/build/vmlinux'', False),
      (''/usr/lib/modules/'' @ r @ ''/kernel/vmlinux'', True),
      (''/usr/lib/debug/boot/vmlinux-'' @ r, True),
      (''/usr/lib/debug/boot/vmlinux-'' @ r @ ''.debug'', True),
      (''/usr/lib/debug/lib/modules/'' @ r @ ''/vmlinux'', True)]"

definition HasBTFSymbols :: "HostEnv \<Rightarrow> HostInfo \<Rightarrow> bool" where
  "HasBTFSymbols env h =
     list_ex (\<lambda>(pattern, mounted).
         (let path = take 4095 pattern in he_readable env (if mounted then host_path env path else path)))
       (btf_locations (kv_release (hi_kernel_version h)))"

definition HasBPFRingBufferSupport :: "HostEnv \<Rightarrow> bool" where
  "HasBPFRingBufferSupport env = (he_probe_ringbuf env \<noteq> 0)"

definition HasBPFTracingSupport :: "HostEnv \<Rightarrow> bool" where
  "HasBPFTracingSupport env = (he_probe_tracing env \<noteq> 0)"

definition NumPossibleCPU :: "HostEnv \<Rightarrow> int" where
  "NumPossibleCPU env = (if he_num_possible_cpus env < 0 then 0 else he_num_possible_cpus env)"

definition IsUEFI :: "HostEnv \<Rightarrow> bool" where
  "IsUEFI env =
     (case he_is_directory env (host_path env ''/sys/firmware/efi'') of
        None \<Rightarrow> False
      | Some d \<Rightarrow> d)"

section \<open>Secure boot\<close>

text \<open>
  The buffers that the files are read into are not initialised; \<open>stack\<close> stands for what they hold
  when a file is too short.
\<close>

definition file_bytes :: "string \<Rightarrow> u8 list" where
  "file_bytes s = map (\<lambda>c. of_nat (cc c)) s"

definition GetSecureBootFromVars :: "HostEnv \<Rightarrow> u8 list \<Rightarrow> SecureBootStatus" where
  "GetSecureBootFromVars env stack =
     (let efi_path = host_path env ''/sys/firmware/efi/efivars''
      in case he_readdir env efi_path of
           None \<Rightarrow> SB_NOT_DETERMINED
         | Some names \<Rightarrow>
             (case find (is_prefix ''SecureBoot-'') names of
                None \<Rightarrow> SB_NOT_DETERMINED
              | Some name \<Rightarrow>
                  (case he_file env (path_append efi_path name) of
                     None \<Rightarrow> SB_NOT_DETERMINED
                   | Some content \<Rightarrow>
                       (let read = take 5 (file_bytes content);
                            status = (read @ drop (length read) stack) ! 4
                        in if status \<noteq> 0 \<and> status \<noteq> 1 then SB_NOT_DETERMINED
                           else SecureBootStatus_of status))))"

definition SECURE_BOOT_OFFSET :: nat where
  "SECURE_BOOT_OFFSET = 0x1EC"

definition GetSecureBootFromParams :: "HostEnv \<Rightarrow> u8 \<Rightarrow> SecureBootStatus" where
  "GetSecureBootFromParams env stack =
     (case he_file env (host_path env ''/sys/kernel/boot_params/data'') of
        None \<Rightarrow> SB_NOT_DETERMINED
      | Some content \<Rightarrow>
          (let status = (case drop SECURE_BOOT_OFFSET (file_bytes content) of [] \<Rightarrow> stack | b # _ \<Rightarrow> b)
           in if status < 1 \<or> status > 3 then SB_NOT_DETERMINED else SecureBootStatus_of status))"

definition GetSecureBootStatus ::
  "HostEnv \<Rightarrow> u8 list \<Rightarrow> u8 \<Rightarrow> HostInfo \<Rightarrow> cxx_fault + HostInfo \<times> SecureBootStatus" where
  "GetSecureBootStatus env stack_vars stack_params h =
     res_bind (GetKernelVersion env h) (\<lambda>(h1, kernel_v).
       if hi_secure_boot_status h1 \<noteq> SB_UNSET then Inr (h1, hi_secure_boot_status h1)
       else
         (let status = (if HasSecureBootParam kernel_v then GetSecureBootFromParams env stack_params
                        else GetSecureBootFromVars env stack_vars)
          in Inr (h1\<lparr>hi_secure_boot_status := status\<rparr>, status)))"

section \<open>Minikube\<close>

text \<open>A search for \<open>v\<close> and three dotted numbers: the first position where they start.\<close>

fun search_version :: "string \<Rightarrow> string option" where
  "search_version [] = None"
| "search_version (c # cs) =
     (case (if c = CHR ''v'' then match_three cs else None) of
        Some (a, b, d, rest) \<Rightarrow> Some (CHR ''v'' # a @ ''.'' @ b @ ''.'' @ d)
      | None \<Rightarrow> search_version cs)"

definition GetMinikubeVersion :: "HostEnv \<Rightarrow> string" where
  "GetMinikubeVersion env =
     (case he_file env (host_path env ''/etc/VERSION'') of
        None \<Rightarrow> []
      | Some content \<Rightarrow>
          (case search_version (case getlines content of [] \<Rightarrow> [] | l # _ \<Rightarrow> l) of
             None \<Rightarrow> []
           | Some v \<Rightarrow> v))"

section \<open>Laws\<close>

text \<open>The members that are filled hold what the host answers.\<close>

definition distro_of :: "HostEnv \<Rightarrow> cxx_fault + string" where
  "distro_of env = res_bind (GetOSReleaseValue env ''PRETTY_NAME'') (\<lambda>v. Inr (if v = [] then ''Linux'' else v))"

definition hi_ok :: "HostEnv \<Rightarrow> HostInfo \<Rightarrow> bool" where
  "hi_ok env h \<longleftrightarrow>
     (kv_release (hi_kernel_version h) \<noteq> [] \<longrightarrow> KernelVersion_FromHost env = Inr (hi_kernel_version h)) \<and>
     (hi_distro h \<noteq> [] \<longrightarrow> distro_of env = Inr (hi_distro h)) \<and>
     (hi_build_id h \<noteq> [] \<longrightarrow> GetOSReleaseValue env ''BUILD_ID'' = Inr (hi_build_id h)) \<and>
     (hi_os_id h \<noteq> [] \<longrightarrow> GetOSReleaseValue env ''ID'' = Inr (hi_os_id h))"

lemma hi_ok_new [simp]: "hi_ok env HostInfo_new"
  by (simp add: hi_ok_def HostInfo_new_def KernelVersion_default_def)

text \<open>Caching is transparent: an accessor is the query followed by the store.\<close>

lemma accessors_uncached:
  assumes "hi_ok env h"
  shows "GetKernelVersion env h =
      res_bind (KernelVersion_FromHost env) (\<lambda>kv. Inr (h\<lparr>hi_kernel_version := kv\<rparr>, kv))"
    "GetDistro env h = res_bind (distro_of env) (\<lambda>v. Inr (h\<lparr>hi_distro := v\<rparr>, v))"
    "GetBuildID env h = res_bind (GetOSReleaseValue env ''BUILD_ID'') (\<lambda>v. Inr (h\<lparr>hi_build_id := v\<rparr>, v))"
    "GetOSID env h = res_bind (GetOSReleaseValue env ''ID'') (\<lambda>v. Inr (h\<lparr>hi_os_id := v\<rparr>, v))"
  using assms
  by (auto simp: hi_ok_def GetKernelVersion_def GetDistro_def GetBuildID_def GetOSID_def distro_of_def
      res_bind_def Let_def split: sum.splits)

lemma hi_ok_stores [simp]:
  "hi_ok env h \<Longrightarrow> KernelVersion_FromHost env = Inr kv \<Longrightarrow> hi_ok env (h\<lparr>hi_kernel_version := kv\<rparr>)"
  "hi_ok env h \<Longrightarrow> distro_of env = Inr d \<Longrightarrow> hi_ok env (h\<lparr>hi_distro := d\<rparr>)"
  "hi_ok env h \<Longrightarrow> GetOSReleaseValue env ''BUILD_ID'' = Inr b \<Longrightarrow> hi_ok env (h\<lparr>hi_build_id := b\<rparr>)"
  "hi_ok env h \<Longrightarrow> GetOSReleaseValue env ''ID'' = Inr i \<Longrightarrow> hi_ok env (h\<lparr>hi_os_id := i\<rparr>)"
  by (auto simp: hi_ok_def)

lemma take_digits_append:
  assumes "list_all c_isdigit ds" "ds \<noteq> []" "rest = [] \<or> \<not> c_isdigit (hd rest)"
  shows "take_digits (ds @ rest) = Some (ds, rest)"
proof -
  have "takeWhile c_isdigit (ds @ rest) = ds" "dropWhile c_isdigit (ds @ rest) = rest"
    using assms(1,3) by (cases rest; auto simp: list_all_iff takeWhile_append2 dropWhile_append2)+
  then show ?thesis using assms(2) by (cases ds) (simp_all add: take_digits_def)
qed

lemma stoi_show:
  assumes "0 \<le> i" "i < 2 ^ 31"
  shows "stoi (show_int i) = Inr i"
proof -
  have d: "list_all c_isdigit (show_int i)" "show_int i \<noteq> []" "digits_value (show_int i) = nat i"
    using show_nat_digits [of "nat i"] assms(1) by (simp_all add: show_int_def)
  have "digits_value (show_int i) < 2 ^ (32 - 1)" using assms d(3) by (simp add: nat_less_iff)
  then show ?thesis using sto_signed_digits [OF d(1,2), of "[]" 32] d(3) assms(1) by (simp add: stoi_def)
qed

lemma show_int_digits: "0 \<le> i \<Longrightarrow> list_all c_isdigit (show_int i) \<and> show_int i \<noteq> []"
  using show_nat_digits [of "nat i"] by (simp add: show_int_def)

lemma match_three_show:
  assumes "0 \<le> a" "0 \<le> b" "0 \<le> c" "rest = [] \<or> \<not> c_isdigit (hd rest)"
  shows "match_three (show_int a @ CHR ''.'' # show_int b @ CHR ''.'' # show_int c @ rest) =
    Some (show_int a, show_int b, show_int c, rest)"
proof -
  have dot: "\<not> c_isdigit (CHR ''.'')" by (simp add: c_isdigit_def cc_def)
  note td = take_digits_append [OF conjunct1 [OF show_int_digits] conjunct2 [OF show_int_digits]]
  show ?thesis
    using td [OF assms(1) assms(1), of "CHR ''.'' # show_int b @ CHR ''.'' # show_int c @ rest"]
      td [OF assms(2) assms(2), of "CHR ''.'' # show_int c @ rest"] td [OF assms(3) assms(3) assms(4)] dot
    by (simp add: match_three_def take_char_def)
qed

section \<open>Properties\<close>

text \<open>
  a release string that starts with a printed short release followed by text that begins with
  neither a digit nor a hyphen and has no line break is parsed back to the same numbers.
\<close>

theorem KernelVersion_ShortRelease:
  assumes "0 \<le> kv_kernel kv" "kv_kernel kv < 2 ^ 31" "0 \<le> kv_major kv" "kv_major kv < 2 ^ 31"
    "0 \<le> kv_minor kv" "kv_minor kv < 2 ^ 31"
    "rest = [] \<or> \<not> c_isdigit (hd rest) \<and> hd rest \<noteq> CHR ''-''" "newline \<notin> set rest" "char_of (13 :: nat) \<notin> set rest"
  shows "KernelVersion_mk (ShortRelease kv @ rest) version machine =
    Inr (kv\<lparr>kv_build_id := 0, kv_release := ShortRelease kv @ rest, kv_version := version, kv_machine := machine\<rparr>)"
proof -
  have "take_char (CHR ''-'') rest = None" using assms(7) by (cases rest) (auto simp: take_char_def)
  then have "release_re (ShortRelease kv @ rest) =
      Some (show_int (kv_kernel kv), show_int (kv_major kv), show_int (kv_minor kv), [])"
    using match_three_show [OF assms(1,3,5), of rest] assms(7-9)
    by (auto simp: release_re_def ShortRelease_def)
  then show ?thesis
    using stoi_show [OF assms(1,2)] stoi_show [OF assms(3,4)] stoi_show [OF assms(5,6)]
    by (simp add: KernelVersion_mk_def Let_def KernelVersion_default_def)
qed

theorem KernelVersion_ShortRelease_witness:
  "KernelVersion_mk ''5.14.0.el9'' ''v'' ''x86_64'' =
     Inr \<lparr>kv_kernel = 5, kv_major = 14, kv_minor = 0, kv_build_id = 0, kv_release = ''5.14.0.el9'',
          kv_version = ''v'', kv_machine = ''x86_64''\<rparr>"
proof -
  let ?kv = "\<lparr>kv_kernel = 5, kv_major = 14, kv_minor = 0, kv_build_id = 0, kv_release = [],
      kv_version = [], kv_machine = []\<rparr>"
  have "ShortRelease ?kv = ''5.14.0''"
    by code_simp
  moreover have "newline \<notin> set ''.el9''" "char_of (13 :: nat) \<notin> set ''.el9''"
    by (simp_all add: newline_def char_of_def)
  ultimately show ?thesis using KernelVersion_ShortRelease [of ?kv "''.el9''" "''v''" "''x86_64''"]
    by (simp add: c_isdigit_def cc_def)
qed

text \<open>
  the EFI variable is never read as enabled or disabled: its values 0 and 1 are taken for the
  enumerators of those values, which mean that no detection was done and that the status could
  not be determined.
\<close>

theorem GetSecureBootFromVars_undetermined:
  "GetSecureBootFromVars env stack \<noteq> SB_ENABLED \<and> GetSecureBootFromVars env stack \<noteq> SB_DISABLED"
  by (auto simp: GetSecureBootFromVars_def SecureBootStatus_of_def Let_def split: option.split)

end
