(* ===== verification/HostHeuristics.thy ===== *)
theory HostHeuristics
  imports HostInfo
begin

text \<open>
  The collection methods of \<open>CollectionMethod.cpp\<close>, the host configuration of \<open>HostConfig.h\<close> and
  the heuristics of \<open>HostHeuristics.cpp\<close>, which decide whether the collector can run on the host.
\<close>

section \<open>Collection methods\<close>

datatype CollectionMethod = EBPF | CORE_BPF

definition CollectionMethodName :: "CollectionMethod \<Rightarrow> string" where
  "CollectionMethodName method = (case method of EBPF \<Rightarrow> ''ebpf'' | CORE_BPF \<Rightarrow> ''core_bpf'')"

definition ParseCollectionMethod :: "string \<Rightarrow> CollectionMethod" where
  "ParseCollectionMethod method =
     (let cm = map (\<lambda>c. if c = CHR ''-'' then CHR ''_'' else c) (map c_tolower method)
      in if cm = ''ebpf'' then EBPF
         else if cm = ''core_bpf'' then CORE_BPF
         else CORE_BPF)"

lemma ParseCollectionMethod_name: "ParseCollectionMethod (CollectionMethodName m) = m"
  by (cases m) (simp_all add: CollectionMethodName_def ParseCollectionMethod_def c_tolower_def c_isupper_def cc_def)

section \<open>Host configuration\<close>

text \<open>The number of CPUs of a default-constructed configuration is not initialised.\<close>

record HostConfig =
  hc_collection_method :: "CollectionMethod option"
  hc_num_possible_cpus :: u32

definition HostConfig_default :: "u32 \<Rightarrow> HostConfig" where
  "HostConfig_default uninitialised = \<lparr>hc_collection_method = None, hc_num_possible_cpus = uninitialised\<rparr>"

section \<open>Heuristics\<close>

type_synonym heuristic =
  "HostEnv \<Rightarrow> CollectionMethod \<Rightarrow> HostInfo \<times> HostConfig \<Rightarrow> cxx_fault + HostInfo \<times> HostConfig"

text \<open>
  A message of level \<open>FATAL\<close> is built before the process exits. With the plain eBPF method the
  heuristic only logs.
\<close>

definition CollectionHeuristic_Process :: heuristic where
  "CollectionHeuristic_Process env method st =
     (let (h, hconfig) = st
      in res_bind (HostInfo_HasEBPFSupport env h) (\<lambda>(h1, ebpf).
           if \<not> ebpf
           then res_bind (GetDistro env h1) (\<lambda>(h2, _).
                res_bind (GetKernelVersion env h2) (\<lambda>_. Inl Fatal_exit))
           else
             res_bind (GetKernelVersion env h1) (\<lambda>(h2, _).
               if method = CORE_BPF then
                 if \<not> HasBTFSymbols env h2 then Inl Fatal_exit
                 else if \<not> HasBPFRingBufferSupport env then Inl Fatal_exit
                 else if \<not> HasBPFTracingSupport env then Inl Fatal_exit
                 else Inr (h2, hconfig)
               else Inr (h2, hconfig))))"

definition DockerDesktopHeuristic_Process :: heuristic where
  "DockerDesktopHeuristic_Process env method st =
     (let (h, hconfig) = st
      in res_bind (IsDockerDesktop env h) (\<lambda>(h1, docker).
           if docker then res_bind (GetDistro env h1) (\<lambda>_. Inl Fatal_exit) else Inr (h1, hconfig)))"

definition PowerHeuristic_Process :: heuristic where
  "PowerHeuristic_Process env method st =
     (let (h, hconfig) = st
      in res_bind (GetKernelVersion env h) (\<lambda>(h1, k).
           if kv_machine k \<noteq> ''ppc64le'' then Inr (h1, hconfig)
           else if kv_kernel k = 4 \<and> kv_major k = 18 \<and> kv_build_id k < 477 then Inl Fatal_exit
           else Inr (h1, hconfig)))"

definition CPUHeuristic_Process :: heuristic where
  "CPUHeuristic_Process env method st =
     (let (h, hconfig) = st
      in Inr (h, hconfig\<lparr>hc_num_possible_cpus := word_of_int (NumPossibleCPU env)\<rparr>))"

definition g_host_heuristics :: "heuristic list" where
  "g_host_heuristics =
     [CollectionHeuristic_Process, DockerDesktopHeuristic_Process, PowerHeuristic_Process, CPUHeuristic_Process]"

definition ProcessHostHeuristics ::
  "HostEnv \<Rightarrow> CollectionMethod \<Rightarrow> u32 \<Rightarrow> HostInfo \<Rightarrow> cxx_fault + HostInfo \<times> HostConfig" where
  "ProcessHostHeuristics env method uninitialised h =
     foldl (\<lambda>r heuristic. res_bind r (heuristic env method))
       (Inr (h, HostConfig_default uninitialised)) g_host_heuristics"

section \<open>Properties\<close>

text \<open>The hosts that the heuristics accept, from the answers of the operating system.\<close>

definition host_supported :: "HostEnv \<Rightarrow> CollectionMethod \<Rightarrow> KernelVersion \<Rightarrow> string \<Rightarrow> string \<Rightarrow> bool" where
  "host_supported env method kv os_id distro \<longleftrightarrow>
     (isRHEL76 kv os_id \<or> 4 < kv_kernel kv \<or> kv_kernel kv = 4 \<and> 14 \<le> kv_major kv) \<and>
     (method = EBPF \<or>
      (\<exists>(path, mounted) \<in> set (btf_locations (kv_release kv)).
         he_readable env (if mounted then host_path env (take 4095 path) else take 4095 path)) \<and>
      he_probe_ringbuf env \<noteq> 0 \<and> he_probe_tracing env \<noteq> 0) \<and>
     distro \<noteq> ''Docker Desktop'' \<and>
     (kv_machine kv = ''ppc64le'' \<and> kv_kernel kv = 4 \<and> kv_major kv = 18 \<longrightarrow> 477 \<le> kv_build_id kv)"

lemma hasEBPFSupport_iff:
  "hasEBPFSupport kv i \<longleftrightarrow> isRHEL76 kv i \<or> 4 < kv_kernel kv \<or> kv_kernel kv = 4 \<and> 14 \<le> kv_major kv"
  by (auto simp: hasEBPFSupport_def KernelVersion_HasEBPFSupport_def)

lemma HasBTFSymbols_iff:
  "HasBTFSymbols env h \<longleftrightarrow>
     (\<exists>(path, mounted) \<in> set (btf_locations (kv_release (hi_kernel_version h))).
        he_readable env (if mounted then host_path env (take 4095 path) else take 4095 path))"
  by (simp add: HasBTFSymbols_def list_ex_iff Let_def split_def)

lemma method_not_CORE: "m \<noteq> CORE_BPF \<longleftrightarrow> m = EBPF"
  by (cases m) simp_all

text \<open>
  the heuristics let the collector start exactly when the host's answers can be read and the
  host is supported: the kernel is at least 4.14 or that of RHEL 7.6, for the CO-RE method a BTF
  file is readable and neither probe fails, the distribution is not Docker Desktop, and the kernel
  is not an early RHEL 8 one on POWER; the configuration then has the number of possible CPUs.
\<close>

theorem ProcessHostHeuristics_iff:
  assumes "hi_ok env h"
  shows "(\<exists>h'. ProcessHostHeuristics env method u h = Inr (h', hc)) \<longleftrightarrow>
    (\<exists>kv os_id distro. KernelVersion_FromHost env = Inr kv \<and> GetOSReleaseValue env ''ID'' = Inr os_id \<and>
       distro_of env = Inr distro \<and> host_supported env method kv os_id distro) \<and>
    hc = \<lparr>hc_collection_method = None, hc_num_possible_cpus = word_of_int (max 0 (he_num_possible_cpus env))\<rparr>"
proof (cases "KernelVersion_FromHost env")
  case (Inl e)
  then show ?thesis using accessors_uncached [OF assms]
    by (simp add: ProcessHostHeuristics_def g_host_heuristics_def CollectionHeuristic_Process_def
        HostInfo_HasEBPFSupport_def)
next
  case kv: (Inr kv)
  show ?thesis
  proof (cases "GetOSReleaseValue env ''ID''")
    case (Inl e)
    then show ?thesis using assms kv
      by (simp add: ProcessHostHeuristics_def g_host_heuristics_def CollectionHeuristic_Process_def
          HostInfo_HasEBPFSupport_def accessors_uncached)
  next
    case os: (Inr i)
    show ?thesis
    proof (cases "distro_of env")
      case (Inl e)
      then show ?thesis using assms kv os
        by (auto simp: ProcessHostHeuristics_def g_host_heuristics_def CollectionHeuristic_Process_def
            HostInfo_HasEBPFSupport_def accessors_uncached DockerDesktopHeuristic_Process_def
            IsDockerDesktop_def)
    next
      case distro: (Inr d)
      show ?thesis using assms kv os distro
        by (auto simp: ProcessHostHeuristics_def g_host_heuristics_def CollectionHeuristic_Process_def
            HostInfo_HasEBPFSupport_def accessors_uncached DockerDesktopHeuristic_Process_def
            IsDockerDesktop_def PowerHeuristic_Process_def CPUHeuristic_Process_def HostConfig_default_def
            host_supported_def hasEBPFSupport_iff HasBTFSymbols_iff HasBPFRingBufferSupport_def
            HasBPFTracingSupport_def NumPossibleCPU_def method_not_CORE max_def)
    qed
  qed
qed

definition example_host :: HostEnv where
  "example_host =
     \<lparr>he_getenv = (\<lambda>_. None), he_uname = Some (''5.14.0'', ''v'', ''x86_64''), he_file = (\<lambda>_. None),
      he_readable = (\<lambda>_. True), he_is_directory = (\<lambda>_. None), he_readdir = (\<lambda>_. None),
      he_probe_ringbuf = 1, he_probe_tracing = 1, he_num_possible_cpus = 4\<rparr>"

theorem ProcessHostHeuristics_iff_witness:
  "\<exists>h'. ProcessHostHeuristics example_host CORE_BPF 0 HostInfo_new =
     Inr (h', \<lparr>hc_collection_method = None, hc_num_possible_cpus = 4\<rparr>)"
proof -
  let ?kv = "\<lparr>kv_kernel = 5, kv_major = 14, kv_minor = 0, kv_build_id = 0, kv_release = ''5.14.0'',
      kv_version = ''v'', kv_machine = ''x86_64''\<rparr>"
  have "KernelVersion_FromHost example_host = Inr ?kv" by code_simp
  moreover have "GetOSReleaseValue example_host ''ID'' = Inr []" "distro_of example_host = Inr ''Linux''"
    by (simp_all add: GetOSReleaseValue_def distro_of_def example_host_def)
  moreover have "host_supported example_host CORE_BPF ?kv [] ''Linux''"
    by (simp add: host_supported_def example_host_def btf_locations_def) blast
  ultimately show ?thesis
    using ProcessHostHeuristics_iff [OF hi_ok_new, of example_host CORE_BPF 0
        "\<lparr>hc_collection_method = None, hc_num_possible_cpus = 4\<rparr>"]
    by (simp add: example_host_def)
qed

end
