(* ===== verification/CxxFloat.thy ===== *)
theory CxxFloat
  imports Complex_Main "HOL-Library.Log_Nat"
begin

text \<open>
  Binary floating-point arithmetic as the sources use it on moderate numbers: a value is a
  rational, and every operation rounds its exact result to the nearest number with \<open>p\<close>
  significant bits, ties to even: 24 bits for \<open>float\<close>, 53 for \<open>double\<close>. Overflow, subnormal
  numbers, infinities and NaN do not occur for the integers that the sources convert.
\<close>

section \<open>Rounding\<close>

definition pow2 :: "int \<Rightarrow> rat" where
  "pow2 e = (if 0 \<le> e then 2 ^ nat e else 1 / 2 ^ nat (- e))"

text \<open>The exponent of the leading bit, from the bit lengths of numerator and denominator.\<close>

definition floor_log2 :: "rat \<Rightarrow> int" where
  "floor_log2 x =
     (let (n, d) = quotient_of x;
          k = int (floorlog 2 (nat n)) - int (floorlog 2 (nat d))
      in if pow2 k \<le> x then k else k - 1)"

definition round_even :: "rat \<Rightarrow> int" where
  "round_even q =
     (let f = \<lfloor>q\<rfloor>; r = q - of_int f
      in if r < 1 / 2 then f else if r > 1 / 2 then f + 1 else if even f then f else f + 1)"

definition fl :: "nat \<Rightarrow> rat \<Rightarrow> rat" where
  "fl p x =
     (if x = 0 then 0
      else (let u = pow2 (floor_log2 \<bar>x\<bar> - int p + 1) in of_int (round_even (x / u)) * u))"

text \<open>\<open>std::round\<close>: half away from zero.\<close>

definition round_away :: "rat \<Rightarrow> int" where
  "round_away q = (if 0 \<le> q then \<lfloor>q + 1 / 2\<rfloor> else \<lceil>q - 1 / 2\<rceil>)"

section \<open>Laws\<close>

lemma pow2_pos [simp]: "0 < pow2 e"
  by (simp add: pow2_def)

lemma pow2_nonzero [simp]: "pow2 e \<noteq> 0"
  using pow2_pos [of e] by linarith

lemma pow2_abs [simp]: "\<bar>pow2 e\<bar> = pow2 e"
  by (simp add: less_imp_le)

lemma divide_by_inverse:
  assumes "a * b = (1 :: rat)"
  shows "x / a = x * b"
proof -
  have "x * b * a = x" using assms by (metis mult.assoc mult.commute mult.right_neutral)
  moreover have "a \<noteq> 0" using assms by auto
  ultimately show ?thesis by (simp add: divide_eq_eq)
qed

lemma pow2_nat [simp]: "pow2 (int n) = 2 ^ n"
  by (simp add: pow2_def)

lemma pow2_Suc: "pow2 (e + 1) = 2 * pow2 e"
proof (cases "0 \<le> e")
  case True
  then show ?thesis by (simp add: pow2_def nat_add_distrib)
next
  case False
  then have "nat (- e) = Suc (nat (- (e + 1)))" by simp
  then show ?thesis using False by (cases "e = - 1") (simp_all add: pow2_def)
qed

lemma pow2_add_nat: "pow2 (e + int n) = pow2 e * 2 ^ n"
proof (induction n)
  case (Suc n)
  have "pow2 (e + int (Suc n)) = 2 * pow2 (e + int n)"
    using pow2_Suc [of "e + int n"] by (simp add: algebra_simps)
  then show ?case using Suc by simp
qed simp

lemma pow2_add: "pow2 (a + b) = pow2 a * pow2 b"
proof (cases "0 \<le> b")
  case True
  then show ?thesis using pow2_add_nat [of a "nat b"] by (simp add: pow2_def)
next
  case False
  have "pow2 a = pow2 (a + b) * 2 ^ nat (- b)" using False pow2_add_nat [of "a + b" "nat (- b)"] by simp
  then show ?thesis using False by (simp add: pow2_def)
qed

lemma pow2_mono:
  assumes "a \<le> b"
  shows "pow2 a \<le> pow2 b"
proof -
  have "pow2 a * 1 \<le> pow2 a * 2 ^ nat (b - a)" by (intro mult_left_mono) (simp_all add: less_imp_le)
  then show ?thesis using pow2_add_nat [of a "nat (b - a)"] assms by simp
qed

lemma pow2_less_cancel: "pow2 a < pow2 b \<Longrightarrow> a < b"
  using pow2_mono [of b a] by (meson not_le)

lemma floorlog_2_bounds:
  assumes "0 < n"
  shows "2 ^ floorlog 2 n \<le> 2 * n" "n < 2 ^ floorlog 2 n"
proof -
  have b: "2 ^ (floorlog 2 n - 1) \<le> n" "n < 2 ^ floorlog 2 n" using floorlog_bounds [of n 2] assms by simp_all
  then obtain k where "floorlog 2 n = Suc k" using assms by (cases "floorlog 2 n") auto
  then show "2 ^ floorlog 2 n \<le> 2 * n" "n < 2 ^ floorlog 2 n" using b by simp_all
qed

lemma rat_bounds_floorlog:
  assumes "0 < n"
  shows "(2 :: rat) ^ floorlog 2 (nat n) \<le> 2 * of_int n" "(of_int n :: rat) < 2 ^ floorlog 2 (nat n)"
proof -
  have "int (2 ^ floorlog 2 (nat n)) \<le> int (2 * nat n)" "int (nat n) < int (2 ^ floorlog 2 (nat n))"
    using floorlog_2_bounds [of "nat n"] assms unfolding of_nat_le_iff of_nat_less_iff by simp_all
  then have "(2 :: int) ^ floorlog 2 (nat n) \<le> 2 * n" "n < 2 ^ floorlog 2 (nat n)" using assms by simp_all
  then have "(of_int (2 ^ floorlog 2 (nat n)) :: rat) \<le> of_int (2 * n)"
    "(of_int n :: rat) < of_int (2 ^ floorlog 2 (nat n))"
    unfolding of_int_le_iff of_int_less_iff .
  then show "(2 :: rat) ^ floorlog 2 (nat n) \<le> 2 * of_int n" "(of_int n :: rat) < 2 ^ floorlog 2 (nat n)"
    by simp_all
qed

lemma floor_log2_bounds:
  assumes "0 < x"
  shows "pow2 (floor_log2 x) \<le> x \<and> x < pow2 (floor_log2 x + 1)"
proof -
  obtain n d where q: "quotient_of x = (n, d)" by fastforce
  have d: "0 < d" and x: "x = of_int n / of_int d" using quotient_of_denom_pos [OF q] quotient_of_div [OF q] by simp_all
  then have n: "0 < n" using assms by (simp add: zero_less_divide_iff)
  let ?a = "floorlog 2 (nat n)" and ?b = "floorlog 2 (nat d)"
  let ?k = "int ?a - int ?b"
  have k: "pow2 ?k * 2 ^ ?b = 2 ^ ?a" using pow2_add_nat [of ?k ?b] by simp
  note bn = rat_bounds_floorlog [OF n] and bd = rat_bounds_floorlog [OF d]
  have "x * of_int d = of_int n" using d x by simp
  have "x * 2 ^ ?b < 2 * 2 ^ ?a * 1"
  proof -
    have "x * 2 ^ ?b \<le> x * (2 * of_int d)" using bd(1) assms by (intro mult_left_mono) simp_all
    also have "\<dots> = 2 * of_int n" using \<open>x * of_int d = of_int n\<close> by simp
    also have "\<dots> < 2 * 2 ^ ?a * 1" using bn(2) by simp
    finally show ?thesis .
  qed
  then have hi: "x < pow2 (?k + 1)" using k unfolding pow2_Suc
    by (metis (no_types, lifting) mult.assoc mult.right_neutral mult_less_cancel_right_pos zero_less_numeral zero_less_power)
  have "pow2 (?k - 1) * 2 = pow2 ?k" using pow2_Suc [of "?k - 1"] by simp
  have "2 ^ ?a < 2 * (x * 2 ^ ?b)"
  proof -
    have "2 ^ ?a \<le> 2 * (x * of_int d)" using bn(1) \<open>x * of_int d = of_int n\<close> by simp
    also have "\<dots> < 2 * (x * 2 ^ ?b)" using bd(2) assms by simp
    finally show ?thesis .
  qed
  then have "pow2 (?k - 1) * 2 * 2 ^ ?b < x * 2 * 2 ^ ?b"
    using k \<open>pow2 (?k - 1) * 2 = pow2 ?k\<close> by (simp add: mult.commute mult.left_commute)
  then have lo: "pow2 (?k - 1) < x" by simp
  show ?thesis using hi lo q by (auto simp: floor_log2_def Let_def)
qed

lemma round_even_error: "\<bar>of_int (round_even q) - q\<bar> \<le> 1 / 2"
proof -
  have f: "of_int \<lfloor>q\<rfloor> \<le> q" "q < of_int \<lfloor>q\<rfloor> + 1" using floor_correct [of q] by simp_all
  show ?thesis unfolding round_even_def Let_def abs_le_iff using f by (simp split: if_split) linarith
qed

lemma round_even_int [simp]: "round_even (of_int n) = n"
  by (simp add: round_even_def Let_def)

text \<open>The relative error of one rounding.\<close>

lemma fl_error: "\<bar>fl p x - x\<bar> \<le> \<bar>x\<bar> / 2 ^ p"
proof (cases "x = 0")
  case False
  let ?e = "floor_log2 \<bar>x\<bar>"
  let ?u = "pow2 (?e - int p + 1)"
  have u: "?u * 2 ^ p = 2 * pow2 ?e" using pow2_add_nat [of "?e - int p + 1" p] pow2_Suc [of ?e] by simp
  have "fl p x - x = (of_int (round_even (x / ?u)) - x / ?u) * ?u"
    using False by (simp add: fl_def Let_def left_diff_distrib)
  then have "\<bar>fl p x - x\<bar> = \<bar>of_int (round_even (x / ?u)) - x / ?u\<bar> * ?u"
    by (simp add: abs_mult)
  also have "\<dots> \<le> 1 / 2 * ?u" using round_even_error by (intro mult_right_mono) (simp_all add: less_imp_le)
  also have "\<dots> = pow2 ?e / 2 ^ p" using u by (simp add: field_simps)
  also have "\<dots> \<le> \<bar>x\<bar> / 2 ^ p" using floor_log2_bounds [of "\<bar>x\<bar>"] False by (intro divide_right_mono) simp_all
  finally show ?thesis .
qed (simp add: fl_def)

text \<open>Integers of at most \<open>p\<close> bits are exact.\<close>

lemma fl_int_exact:
  assumes "\<bar>n\<bar> < 2 ^ p"
  shows "fl p (of_int n) = of_int n"
proof (cases "n = 0")
  case False
  let ?x = "of_int n :: rat"
  let ?e = "floor_log2 \<bar>?x\<bar>"
  have "pow2 ?e \<le> \<bar>?x\<bar>" using floor_log2_bounds [of "\<bar>?x\<bar>"] False by simp
  also have "\<bar>?x\<bar> < pow2 (int p)"
    using assms by (metis of_int_abs of_int_less_iff of_int_numeral of_int_power pow2_nat)
  finally have e: "?e < int p" by (rule pow2_less_cancel)
  have "pow2 0 = 1" by (simp add: pow2_def)
  then have "pow2 (?e - int p + 1) * 2 ^ nat (int p - 1 - ?e) = 1"
    using pow2_add_nat [of "?e - int p + 1" "nat (int p - 1 - ?e)"] e by simp
  then have "?x / pow2 (?e - int p + 1) = of_int (n * 2 ^ nat (int p - 1 - ?e))"
    unfolding of_int_mult of_int_power of_int_numeral by (rule divide_by_inverse)
  then have "of_int (round_even (?x / pow2 (?e - int p + 1))) = ?x / pow2 (?e - int p + 1)"
    by (metis round_even_int)
  then show ?thesis using False pow2_pos [of "?e - int p + 1"] by (simp add: fl_def Let_def)
qed (simp add: fl_def)

lemma fl_nonneg:
  assumes "0 < p" "0 \<le> x"
  shows "0 \<le> fl p x"
proof -
  have "(2 :: rat) ^ p \<ge> 1" by simp
  then have "\<bar>x\<bar> / 2 ^ p \<le> \<bar>x\<bar>" using assms by (simp add: divide_le_eq mult_le_cancel_left1)
  then show ?thesis using fl_error [of p x] assms(2) by (auto simp: abs_le_iff)
qed

text \<open>Rounding is to a nearest multiple of the last place.\<close>

lemma round_even_nearest: "\<bar>of_int (round_even q) - q\<bar> \<le> \<bar>of_int m - q\<bar>"
proof -
  let ?f = "of_int \<lfloor>q\<rfloor> :: rat"
  have f: "?f \<le> q" "q < ?f + 1" using floor_correct [of q] by simp_all
  have err: "\<bar>of_int (round_even q) - q\<bar> = min (q - ?f) (?f + 1 - q)"
    using f unfolding round_even_def Let_def by (simp add: min_def)
  show ?thesis
  proof (cases "m \<le> \<lfloor>q\<rfloor>")
    case True
    then have "(of_int m :: rat) \<le> ?f" by simp
    then have "q - ?f \<le> \<bar>of_int m - q\<bar>" using f by linarith
    then show ?thesis unfolding err by linarith
  next
    case False
    then have "?f + 1 \<le> (of_int m :: rat)" by (metis not_le of_int_1 of_int_add of_int_le_iff zless_imp_add1_zle)
    then have "?f + 1 - q \<le> \<bar>of_int m - q\<bar>" using f by linarith
    then show ?thesis unfolding err by linarith
  qed
qed

lemma fl_nearest:
  assumes "x \<noteq> 0"
  shows "\<bar>fl p x - x\<bar> \<le> \<bar>of_int m * pow2 (floor_log2 \<bar>x\<bar> - int p + 1) - x\<bar>"
proof -
  let ?u = "pow2 (floor_log2 \<bar>x\<bar> - int p + 1)"
  have scale: "\<bar>of_int n * ?u - x\<bar> = \<bar>of_int n - x / ?u\<bar> * ?u" for n
  proof -
    have "of_int n * ?u - x = (of_int n - x / ?u) * ?u" by (simp add: left_diff_distrib)
    then show ?thesis by (simp add: abs_mult)
  qed
  have "fl p x = of_int (round_even (x / ?u)) * ?u" using assms by (simp add: fl_def Let_def)
  then show ?thesis unfolding scale using scale [of "round_even (x / ?u)"] round_even_nearest
    by (simp add: mult_right_mono less_imp_le)
qed

text \<open>Every multiple of \<open>2 ^ - j\<close> is a multiple of the last place of a number below \<open>2 ^ (p - j)\<close>.\<close>

lemma fl_nearest_dyadic:
  assumes "x \<noteq> 0" "\<bar>x\<bar> < 2 ^ (p - j)" "j \<le> p"
  shows "\<bar>fl p x - x\<bar> \<le> \<bar>of_int n / 2 ^ j - x\<bar>"
proof -
  let ?e = "floor_log2 \<bar>x\<bar>"
  have "pow2 ?e \<le> \<bar>x\<bar>" using floor_log2_bounds [of "\<bar>x\<bar>"] assms(1) by simp
  also have "\<bar>x\<bar> < pow2 (int (p - j))" using assms(2) by simp
  finally have "?e < int (p - j)" by (rule pow2_less_cancel)
  then have k: "0 \<le> int p - int j - 1 - ?e" using assms(3) by simp
  let ?k = "nat (int p - int j - 1 - ?e)"
  have "?e - int p + 1 + int (?k + j) = 0" using k by simp
  then have "pow2 (?e - int p + 1) * 2 ^ (?k + j) = 1"
    using pow2_add_nat [of "?e - int p + 1" "?k + j"] by (simp only: pow2_def) simp
  then have "pow2 (?e - int p + 1) * 2 ^ ?k = 1 / 2 ^ j"
    by (simp add: power_add field_simps)
  then have "of_int (n * 2 ^ ?k) * pow2 (?e - int p + 1) = of_int n / 2 ^ j"
    by (simp add: mult.assoc mult.commute [of "2 ^ ?k"])
  then show ?thesis using fl_nearest [OF assms(1), of p "n * 2 ^ ?k"] by simp
qed

lemma ceiling_fl_div:
  assumes "0 < a" "a < 2 ^ p" "0 < b"
  shows "\<lceil>fl p (of_int a / of_int b)\<rceil> = \<lceil>of_int a / of_int b :: rat\<rceil>"
proof -
  define q :: rat where "q = of_int a / of_int b"
  define k where "k = \<lceil>q\<rceil>"
  have q: "0 < q" "q * of_int b = of_int a" using assms by (simp_all add: q_def)
  have a: "(of_int a :: rat) < 2 ^ p" using assms(2) by (metis of_int_less_iff of_int_numeral of_int_power)
  have "q \<le> of_int a" using assms by (simp add: q_def divide_le_eq mult_le_cancel_left1)
  then have "q < 2 ^ p" using a by (rule le_less_trans)
  then have lt: "\<bar>q\<bar> < 2 ^ (p - 0)" using q(1) by simp
  have "\<bar>fl p q - q\<bar> \<le> \<bar>of_int k / 2 ^ 0 - q\<bar>" using q(1) by (intro fl_nearest_dyadic [OF _ lt]) auto
  moreover have "q \<le> of_int k" unfolding k_def by (rule le_of_int_ceiling)
  ultimately have hi: "fl p q \<le> of_int k" by simp
  have "of_int (k - 1) < q" using ceiling_correct [of q] by (simp add: k_def)
  then have "of_int (k - 1) * of_int b < q * (of_int b :: rat)" using assms(3) by (intro mult_strict_right_mono) simp_all
  then have "(of_int ((k - 1) * b) :: rat) < of_int a" using q(2) by simp
  then have "(k - 1) * b + 1 \<le> a" unfolding of_int_less_iff by simp
  then have "(of_int ((k - 1) * b + 1) :: rat) \<le> of_int a" unfolding of_int_le_iff .
  then have "of_int ((k - 1) * b + 1) / of_int b \<le> q"
    unfolding q_def using assms(3) by (intro divide_right_mono) simp_all
  then have gap: "of_int k - 1 + 1 / of_int b \<le> q" using assms(3) by (simp add: add_divide_distrib)
  have "of_int a / 2 ^ p < (1 :: rat)" using a by (simp only: divide_less_eq_1 zero_less_power zero_less_numeral) simp
  then have "of_int a / 2 ^ p / of_int b < 1 / (of_int b :: rat)"
    using assms(3) by (intro divide_strict_right_mono) simp_all
  then have "q / 2 ^ p < 1 / of_int b" by (simp add: q_def mult.commute)
  then have "\<bar>fl p q - q\<bar> < 1 / of_int b" using fl_error [of p q] q(1) by simp
  then have lo: "of_int k - 1 < fl p q" using gap by linarith
  have "\<lceil>fl p q\<rceil> = k" using hi lo by (intro ceiling_unique)
  then show ?thesis by (simp add: q_def k_def)
qed

end
