(* ===== verification/CollectorConfig.thy ===== *)
theory CollectorConfig
  imports ConnTracker HostHeuristics Logging CxxFloat
begin

text \<open>
  The configuration of the collector: \<open>EnvVar.h\<close>, \<open>CollectorConfig.h\<close>, \<open>CollectorConfig.cpp\<close>, the
  address check of \<open>GRPC.cpp\<close>, \<open>TlsConfig.h\<close> and the arguments of \<open>CollectorArgs.cpp\<close>. The JSON
  library, the conversion of decimal text to floating point and the defaults of the driver are
  parameters.
\<close>

section \<open>Environment variables\<close>

text \<open>
  A parser stores a value and returns true, returns false, or throws. The environment does not
  change, so that reading a variable once or every time makes no difference.
\<close>

definition EnvVar_tryValue ::
  "(string \<Rightarrow> cxx_fault + 'a option) \<Rightarrow> 'a option \<Rightarrow> string option \<Rightarrow> cxx_fault + 'a option" where
  "EnvVar_tryValue parse def env_val =
     (case env_val of
        None \<Rightarrow> Inr def
      | Some s \<Rightarrow> res_bind (parse s) (\<lambda>r. Inr (case r of None \<Rightarrow> def | Some v \<Rightarrow> Some v)))"

definition EnvVar_value ::
  "(string \<Rightarrow> cxx_fault + 'a option) \<Rightarrow> 'a option \<Rightarrow> string option \<Rightarrow> cxx_fault + 'a" where
  "EnvVar_value parse def env_val =
     res_bind (EnvVar_tryValue parse def env_val) (\<lambda>r.
       case r of None \<Rightarrow> Inl (Throws Bad_optional_access) | Some v \<Rightarrow> Inr v)"

definition EnvVar_hasValue ::
  "(string \<Rightarrow> cxx_fault + 'a option) \<Rightarrow> 'a option \<Rightarrow> string option \<Rightarrow> cxx_fault + bool" where
  "EnvVar_hasValue parse def env_val = res_bind (EnvVar_tryValue parse def env_val) (\<lambda>r. Inr (r \<noteq> None))"

definition EnvVar_valueOr ::
  "(string \<Rightarrow> cxx_fault + 'a option) \<Rightarrow> 'a option \<Rightarrow> string option \<Rightarrow> 'a \<Rightarrow> cxx_fault + 'a" where
  "EnvVar_valueOr parse def env_val alt =
     res_bind (EnvVar_hasValue parse def env_val) (\<lambda>b. if b then EnvVar_value parse def env_val else Inr alt)"

definition ParseBool :: "string \<Rightarrow> cxx_fault + bool option" where
  "ParseBool str_val = (if str_val = [] then Inr None else Inr (Some (map c_tolower str_val = ''true'')))"

definition ParseStringList :: "string \<Rightarrow> cxx_fault + string list option" where
  "ParseStringList str_val = Inr (Some (SplitStringView str_val (CHR '','')))"

definition ParseString :: "string \<Rightarrow> cxx_fault + string option" where
  "ParseString str_val = Inr (Some str_val)"

definition ParsePath :: "string \<Rightarrow> cxx_fault + string option" where
  "ParsePath str_val = Inr (Some str_val)"

definition ParseInt :: "string \<Rightarrow> cxx_fault + int option" where
  "ParseInt str_val = res_bind (lift_exception (stoi str_val)) (\<lambda>v. Inr (Some v))"

definition ParseFloat :: "(string \<Rightarrow> cxx_exception + rat) \<Rightarrow> string \<Rightarrow> cxx_fault + rat option" where
  "ParseFloat stof str_val = res_bind (lift_exception (stof str_val)) (\<lambda>v. Inr (Some v))"

section \<open>Addresses, arguments and parameters\<close>

datatype ArgStatus = ARG_NONE | ARG_OK | ARG_IGNORE | ARG_ILLEGAL

definition CheckGrpcServer :: "string \<Rightarrow> ArgStatus \<times> string" where
  "CheckGrpcServer server =
     (if server = [] then
        (ARG_IGNORE, ''Missing grpc list. Cannot configure GRPC client. Reverting to stdout.'')
      else if length server > 255 then (ARG_ILLEGAL, ''GRPC Server addr too long (> 255)'')
      else
        (case find_char (CHR '':'') server of
           None \<Rightarrow> (ARG_ILLEGAL, ''Malformed grpc server addr'')
         | Some marker \<Rightarrow>
             if substr server 0 marker = [] then (ARG_ILLEGAL, ''Missing grpc host'')
             else if drop (marker + 1) server = [] then (ARG_ILLEGAL, ''Missing grpc port'')
             else (ARG_OK, [])))"

definition CheckGrpcServer_ptr :: "string option \<Rightarrow> ArgStatus \<times> string" where
  "CheckGrpcServer_ptr server =
     (case server of
        None \<Rightarrow> (ARG_IGNORE, ''Missing grpc list. Cannot configure GRPC client. Reverting to stdout.'')
      | Some s \<Rightarrow> CheckGrpcServer s)"

record TlsConfig =
  tls_ca :: string
  tls_client_cert :: string
  tls_client_key :: string

definition TlsConfig_IsValid :: "TlsConfig \<Rightarrow> bool" where
  "TlsConfig_IsValid t = (tls_ca t \<noteq> [] \<and> tls_client_cert t \<noteq> [] \<and> tls_client_key t \<noteq> [])"

text \<open>The JSON values and the operations on them that the sources call.\<close>

record 'j JsonOps =
  j_null :: 'j
  j_parse :: "string \<Rightarrow> string + 'j"
  j_get :: "'j \<Rightarrow> string \<Rightarrow> cxx_fault + 'j"
  j_empty :: "'j \<Rightarrow> bool"
  j_asString :: "'j \<Rightarrow> cxx_fault + string"
  j_asInt :: "'j \<Rightarrow> cxx_fault + int"
  j_asBool :: "'j \<Rightarrow> cxx_fault + bool"

definition CheckConfiguration :: "'j JsonOps \<Rightarrow> string option \<Rightarrow> 'j \<Rightarrow> (ArgStatus \<times> string) \<times> 'j" where
  "CheckConfiguration js config root_v =
     (case config of
        None \<Rightarrow> ((ARG_IGNORE, ''Missing collector config''), root_v)
      | Some c \<Rightarrow>
          (case j_parse js c of
             Inl err \<Rightarrow>
               ((ARG_ILLEGAL, ''A valid JSON configuration is required to start the collector: '' @ err), root_v)
           | Inr v \<Rightarrow> ((ARG_OK, []), v)))"

record 'j CollectorArgs =
  args_collectorConfig :: 'j
  args_collectionMethod :: "CollectionMethod option"
  args_message :: string
  args_grpcServer :: string

definition CollectorArgs_new :: "'j JsonOps \<Rightarrow> 'j CollectorArgs" where
  "CollectorArgs_new js =
     \<lparr>args_collectorConfig = j_null js, args_collectionMethod = None, args_message = [], args_grpcServer = []\<rparr>"

definition checkCollectionMethod :: "string option \<Rightarrow> bool \<Rightarrow> 'j CollectorArgs \<Rightarrow> 'j CollectorArgs \<times> ArgStatus" where
  "checkCollectionMethod arg msg a =
     (case arg of
        None \<Rightarrow>
          (if msg then a\<lparr>args_message := ''Missing collection method, using default.''\<rparr> else a, ARG_OK)
      | Some s \<Rightarrow> (a\<lparr>args_collectionMethod := Some (ParseCollectionMethod s)\<rparr>, ARG_OK))"

definition checkCollectorConfig ::
  "'j JsonOps \<Rightarrow> string option \<Rightarrow> bool \<Rightarrow> 'j CollectorArgs \<Rightarrow> 'j CollectorArgs \<times> ArgStatus" where
  "checkCollectorConfig js arg msg a =
     (let ((status, m), root_v) = CheckConfiguration js arg (j_null js);
          a1 = (if msg then a\<lparr>args_message := m\<rparr> else a);
          a2 = (if status = ARG_OK then a1\<lparr>args_collectorConfig := root_v\<rparr> else a1)
      in (a2, status))"

definition checkGRPCServer :: "string option \<Rightarrow> bool \<Rightarrow> 'j CollectorArgs \<Rightarrow> 'j CollectorArgs \<times> ArgStatus" where
  "checkGRPCServer arg msg a =
     (let (status, m) = CheckGrpcServer_ptr arg;
          a1 = (case arg of Some s \<Rightarrow> if status = ARG_OK then a\<lparr>args_grpcServer := s\<rparr> else a | None \<Rightarrow> a);
          a2 = (if msg then a1\<lparr>args_message := m\<rparr> else a1)
      in (a2, status))"

text \<open>
  The rest of the environment of the configuration: the host, the JSON library, the conversions
  of decimal text to \<open>float\<close> and \<open>double\<close>, the resolver, and the driver's defaults.
\<close>

record 'j ConfigEnv =
  ce_host :: HostEnv
  ce_json :: "'j JsonOps"
  ce_stof :: "string \<Rightarrow> cxx_exception + rat"
  ce_stod :: "string \<Rightarrow> cxx_exception + rat"
  ce_getaddrinfo :: getaddrinfo_t
  ce_sockaddr :: "u8 list"
  ce_default_cpu_for_each_buffer :: u32
  ce_default_driver_buffer_bytes_dim :: u32

definition env_var :: "'j ConfigEnv \<Rightarrow> string \<Rightarrow> string option" where
  "env_var env name = he_getenv (ce_host env) name"

definition env_bool :: "'j ConfigEnv \<Rightarrow> string \<Rightarrow> bool \<Rightarrow> cxx_fault + bool" where
  "env_bool env name def = EnvVar_value ParseBool (Some def) (env_var env name)"

section \<open>State\<close>

record CollectorConfig =
  cc_scrape_interval :: int
  cc_collection_method :: CollectionMethod
  cc_turn_off_scrape :: bool
  cc_syscalls :: "string list"
  cc_host_proc :: string
  cc_disable_network_flows :: bool
  cc_scrape_listen_endpoints :: bool
  cc_ignored_l4proto_port_pairs :: "L4ProtoPortPair list"
  cc_ignored_networks :: "IPNet list"
  cc_non_aggregated_networks :: "IPNet list"
  cc_host_config :: HostConfig
  cc_afterglow_period_micros :: int
  cc_enable_afterglow :: bool
  cc_enable_core_dump :: bool
  cc_enable_processes_listening_on_ports :: bool
  cc_import_users :: bool
  cc_collect_connection_status :: bool
  cc_enable_external_ips :: bool
  cc_enable_connection_stats :: bool
  cc_enable_detailed_metrics :: bool
  cc_enable_runtime_config :: bool
  cc_use_docker_ce :: bool
  cc_use_podman_ce :: bool
  cc_enable_introspection :: bool
  cc_track_send_recv :: bool
  cc_connection_stats_quantiles :: "rat list"
  cc_connection_stats_error :: rat
  cc_connection_stats_window :: u32
  cc_max_connections_per_minute :: int
  cc_grpc_server :: "string option"
  cc_disable_process_arguments :: bool
  cc_sinsp_cpu_per_buffer :: u32
  cc_sinsp_buffer_size :: u32
  cc_sinsp_total_buffer_size :: u32
  cc_sinsp_thread_cache_size :: u32
  cc_tls_config :: "TlsConfig option"
  cc_runtime_config :: "RuntimeConfig option"

definition kMaxConnectionsPerMinute :: int where
  "kMaxConnectionsPerMinute = 2048"

definition kSyscalls :: "string list" where
  "kSyscalls =
     [''accept'', ''accept4'', ''chdir'', ''clone'', ''clone3'', ''close'', ''connect'', ''execve'',
      ''fchdir'', ''fork'', ''getsockopt'', ''procexit'', ''procinfo'', ''setresgid'', ''setresuid'',
      ''setgid'', ''setuid'', ''shutdown'', ''socket'', ''vfork'']"

definition kSendRecvSyscalls :: "string list" where
  "kSendRecvSyscalls = [''sendto'', ''sendmsg'', ''sendmmsg'', ''recvfrom'', ''recvmsg'', ''recvmmsg'']"

definition kIgnoredL4ProtoPortPairs :: "L4ProtoPortPair list" where
  "kIgnoredL4ProtoPortPairs = [(UDP, 9)]"

text \<open>
  The constructor: members with initialisers and the three defaults set in the body. The members
  without one, which \<open>InitCollectorConfig\<close> sets first, are taken from \<open>junk\<close>.
\<close>

definition CollectorConfig_new :: "CollectorConfig \<Rightarrow> CollectorConfig" where
  "CollectorConfig_new junk =
     junk\<lparr>cc_scrape_interval := 30, cc_turn_off_scrape := False, cc_collection_method := CORE_BPF,
          cc_syscalls := [], cc_host_proc := [], cc_disable_network_flows := False,
          cc_scrape_listen_endpoints := False, cc_ignored_l4proto_port_pairs := [],
          cc_ignored_networks := [], cc_non_aggregated_networks := [],
          cc_host_config := (cc_host_config junk)\<lparr>hc_collection_method := None\<rparr>,
          cc_afterglow_period_micros := 300000000, cc_enable_afterglow := False,
          cc_enable_core_dump := False, cc_enable_external_ips := False,
          cc_connection_stats_quantiles := [],
          cc_max_connections_per_minute := kMaxConnectionsPerMinute, cc_grpc_server := None,
          cc_disable_process_arguments := False, cc_sinsp_cpu_per_buffer := 0, cc_sinsp_buffer_size := 0,
          cc_sinsp_total_buffer_size := 512 * 1024 * 1024, cc_sinsp_thread_cache_size := 32768,
          cc_tls_config := None, cc_runtime_config := None\<rparr>"

section \<open>Accessors and the runtime configuration\<close>

definition Config_GetCollectionMethod :: "CollectorConfig \<Rightarrow> CollectionMethod" where
  "Config_GetCollectionMethod c =
     (case hc_collection_method (cc_host_config c) of Some m \<Rightarrow> m | None \<Rightarrow> cc_collection_method c)"

definition GetExternalIPsConf :: "CollectorConfig \<Rightarrow> ExternalIPsConfig" where
  "GetExternalIPsConf c = ExternalIPsConfig_of (cc_runtime_config c) (cc_enable_external_ips c)"

definition RuntimeConfigHeuristics :: "CollectorConfig \<Rightarrow> CollectorConfig" where
  "RuntimeConfigHeuristics c =
     (case cc_runtime_config c of
        None \<Rightarrow> c
      | Some rc \<Rightarrow>
          if rc_max_connections_per_minute rc = 0
          then c\<lparr>cc_runtime_config :=
                   Some (rc\<lparr>rc_max_connections_per_minute := kMaxConnectionsPerMinute\<rparr>)\<rparr>
          else c)"

definition MaxConnectionsPerMinute :: "CollectorConfig \<Rightarrow> int" where
  "MaxConnectionsPerMinute c =
     (case cc_runtime_config c of
        Some rc \<Rightarrow> rc_max_connections_per_minute rc
      | None \<Rightarrow> cc_max_connections_per_minute c)"

text \<open>The product is computed in \<open>float\<close>, the quotient in \<open>double\<close>.\<close>

definition PerContainerRateLimit :: "CollectorConfig \<Rightarrow> cxx_fault + int" where
  "PerContainerRateLimit c =
     (let v = round_away (fl 53 (fl 24 (fl 24 (of_int (MaxConnectionsPerMinute c)) *
                                        fl 24 (of_int (cc_scrape_interval c))) / 60))
      in if v < - (2 ^ 63) \<or> v \<ge> 2 ^ 63 then Inl Undefined_behaviour else Inr v)"

definition ResetRuntimeConfig :: "CollectorConfig \<Rightarrow> CollectorConfig" where
  "ResetRuntimeConfig c = c\<lparr>cc_runtime_config := None\<rparr>"

definition SetRuntimeConfig :: "RuntimeConfig \<Rightarrow> CollectorConfig \<Rightarrow> CollectorConfig" where
  "SetRuntimeConfig rc c = c\<lparr>cc_runtime_config := Some rc\<rparr>"

definition to_u32 :: "int \<Rightarrow> cxx_fault + u32" where
  "to_u32 i = (if i < 0 \<or> i \<ge> 2 ^ 32 then Inl Undefined_behaviour else Inr (word_of_int i))"

text \<open>\<open>std::log2\<close> of an unsigned integer, truncated, is the position of its leading bit.\<close>

definition n_buffers :: "u32 \<Rightarrow> u32 \<Rightarrow> cxx_fault + u32" where
  "n_buffers cpus cpu_per_buffer =
     to_u32 \<lceil>fl 24 (fl 24 (of_int (uint cpus)) / fl 24 (of_int (uint cpu_per_buffer)))\<rceil>"

definition max_buffer_size :: "u32 \<Rightarrow> u32 \<Rightarrow> cxx_fault + u32" where
  "max_buffer_size total_v n = to_u32 \<lceil>fl 24 (fl 24 (of_int (uint total_v)) / fl 24 (of_int (uint n)))\<rceil>"

definition GetSinspBufferSize :: "CollectorConfig \<Rightarrow> cxx_fault + u32" where
  "GetSinspBufferSize c =
     (if cc_sinsp_total_buffer_size c = 0 then Inr (cc_sinsp_buffer_size c)
      else if cc_sinsp_cpu_per_buffer c = 0 then Inr (cc_sinsp_buffer_size c)
      else if hc_num_possible_cpus (cc_host_config c) = 0 then Inr (cc_sinsp_buffer_size c)
      else
        res_bind (n_buffers (hc_num_possible_cpus (cc_host_config c)) (cc_sinsp_cpu_per_buffer c)) (\<lambda>n.
        res_bind (max_buffer_size (cc_sinsp_total_buffer_size c) n) (\<lambda>mx.
          (let exponent = max 14 (floorlog 2 (unat mx) - 1)
           in Inr (min (cc_sinsp_buffer_size c) (push_bit exponent 1))))))"

section \<open>Initialisation\<close>

definition HandleAfterglowEnvVars :: "'j ConfigEnv \<Rightarrow> CollectorConfig \<Rightarrow> cxx_fault + CollectorConfig" where
  "HandleAfterglowEnvVars env c =
     res_bind (EnvVar_value (ParseFloat (ce_stof env)) (Some 300) (env_var env ''ROX_AFTERGLOW_PERIOD'')) (\<lambda>period.
       (let v = fl 24 (period * fl 24 1000000);
            t = (if 0 \<le> v then \<lfloor>v\<rfloor> else \<lceil>v\<rceil>)
        in if t < 0 \<or> t \<ge> 2 ^ 64 then Inl Undefined_behaviour
           else
             (let micros = sint (word_of_int t :: u64);
                  c1 = c\<lparr>cc_afterglow_period_micros := micros\<rparr>
              in if micros < 0 then Inr c1
                 else if micros = 0 then Inr c1
                 else
                   (let c2 = (if micros > 300000000 then c1\<lparr>cc_afterglow_period_micros := 300000000\<rparr> else c1)
                    in res_bind (env_bool env ''ROX_ENABLE_AFTERGLOW'' True) (\<lambda>b.
                         Inr (c2\<lparr>cc_enable_afterglow := b\<rparr>))))))"

text \<open>
  The quantiles are the parts of the variable between commas; a part, an error value or a window
  that does not convert is skipped.
\<close>

definition HandleConnectionStatsEnvVars :: "'j ConfigEnv \<Rightarrow> CollectorConfig \<Rightarrow> CollectorConfig" where
  "HandleConnectionStatsEnvVars env c =
     (let quantiles =
        (case env_var env ''ROX_COLLECTOR_CONNECTION_STATS_QUANTILES'' of
           None \<Rightarrow> [1 / 2, 9 / 10, 95 / 100]
         | Some v \<Rightarrow>
             List.map_filter (\<lambda>q. case ce_stod env q of Inr x \<Rightarrow> Some x | Inl _ \<Rightarrow> None)
               (SplitStringView v (CHR '','')));
          err_value =
        (case env_var env ''ROX_COLLECTOR_CONNECTION_STATS_ERROR'' of
           None \<Rightarrow> 1 / 100
         | Some v \<Rightarrow> (case ce_stod env v of Inr x \<Rightarrow> x | Inl _ \<Rightarrow> 1 / 100));
          window =
        (case env_var env ''ROX_COLLECTOR_CONNECTION_STATS_WINDOW'' of
           None \<Rightarrow> 60
         | Some v \<Rightarrow> (case stoi v of Inr x \<Rightarrow> word_of_int x | Inl _ \<Rightarrow> 60))
      in c\<lparr>cc_connection_stats_quantiles := quantiles, cc_connection_stats_error := err_value,
           cc_connection_stats_window := window\<rparr>)"

text \<open>An integer variable, truncated to 32 bits; one that does not convert keeps the value.\<close>

definition sinsp_var :: "'j ConfigEnv \<Rightarrow> string \<Rightarrow> (string \<Rightarrow> cxx_exception + int) \<Rightarrow> u32 \<Rightarrow> u32" where
  "sinsp_var env name conv old =
     (case env_var env name of
        None \<Rightarrow> old
      | Some v \<Rightarrow> (case conv v of Inr x \<Rightarrow> word_of_int x | Inl _ \<Rightarrow> old))"

definition HandleSinspEnvVars :: "'j ConfigEnv \<Rightarrow> CollectorConfig \<Rightarrow> CollectorConfig" where
  "HandleSinspEnvVars env c =
     c\<lparr>cc_sinsp_cpu_per_buffer :=
         sinsp_var env ''ROX_COLLECTOR_SINSP_CPU_PER_BUFFER'' stoi (ce_default_cpu_for_each_buffer env),
       cc_sinsp_buffer_size :=
         sinsp_var env ''ROX_COLLECTOR_SINSP_BUFFER_SIZE'' stol (ce_default_driver_buffer_bytes_dim env),
       cc_sinsp_total_buffer_size :=
         sinsp_var env ''ROX_COLLECTOR_SINSP_TOTAL_BUFFER_SIZE'' stol (cc_sinsp_total_buffer_size c),
       cc_sinsp_thread_cache_size :=
         sinsp_var env ''ROX_COLLECTOR_SINSP_THREAD_CACHE_SIZE'' stol (cc_sinsp_thread_cache_size c)\<rparr>"

definition Init_flags :: "'j ConfigEnv \<Rightarrow> CollectorConfig \<Rightarrow> cxx_fault + CollectorConfig" where
  "Init_flags env c =
     res_bind (env_bool env ''ROX_PROCESSES_LISTENING_ON_PORT'' True) (\<lambda>b1.
     res_bind (env_bool env ''ROX_COLLECTOR_SET_IMPORT_USERS'' False) (\<lambda>b2.
     res_bind (env_bool env ''ROX_COLLECT_CONNECTION_STATUS'' True) (\<lambda>b3.
     res_bind (env_bool env ''ROX_COLLECTOR_EXTERNAL_IPS_ENABLE'' False) (\<lambda>b4.
     res_bind (env_bool env ''ROX_COLLECTOR_ENABLE_CONNECTION_STATS'' True) (\<lambda>b5.
     res_bind (env_bool env ''ROX_COLLECTOR_ENABLE_DETAILED_METRICS'' True) (\<lambda>b6.
     res_bind (env_bool env ''ROX_COLLECTOR_RUNTIME_CONFIG_ENABLED'' False) (\<lambda>b7.
     res_bind (env_bool env ''ROX_COLLECTOR_CE_USE_DOCKER'' False) (\<lambda>b8.
     res_bind (env_bool env ''ROX_COLLECTOR_CE_USE_PODMAN'' False) (\<lambda>b9.
     res_bind (env_bool env ''ROX_COLLECTOR_INTROSPECTION_ENABLE'' False) (\<lambda>b10.
     res_bind (env_bool env ''ROX_COLLECTOR_TRACK_SEND_RECV'' False) (\<lambda>b11.
     res_bind (env_bool env ''ROX_COLLECTOR_NO_PROCESS_ARGUMENTS'' False) (\<lambda>b12.
       Inr (c\<lparr>cc_enable_processes_listening_on_ports := b1, cc_import_users := b2,
              cc_collect_connection_status := b3, cc_enable_external_ips := b4,
              cc_enable_connection_stats := b5, cc_enable_detailed_metrics := b6,
              cc_enable_runtime_config := b7, cc_use_docker_ce := b8, cc_use_podman_ce := b9,
              cc_enable_introspection := b10, cc_track_send_recv := b11,
              cc_disable_process_arguments := b12\<rparr>)))))))))))))"

definition Init_syscalls :: "'j ConfigEnv \<Rightarrow> CollectorConfig \<Rightarrow> CollectorConfig" where
  "Init_syscalls env c =
     c\<lparr>cc_syscalls := cc_syscalls c @ kSyscalls @ (if cc_track_send_recv c then kSendRecvSyscalls else []),
       cc_host_proc := host_path (ce_host env) ''/proc''\<rparr>"

text \<open>
  The options given by the user: the JSON of the command line, or of the environment if the former
  is empty and the latter parses; a key of it wins over the environment variable of the same
  meaning. The global log level is part of the state.
\<close>

definition user_json :: "'j ConfigEnv \<Rightarrow> 'j CollectorArgs \<Rightarrow> cxx_fault + 'j" where
  "user_json env args =
     (let config = args_collectorConfig args
      in if j_empty (ce_json env) config then
           res_bind (EnvVar_tryValue ParseString None (env_var env ''COLLECTOR_CONFIG'')) (\<lambda>r.
             case r of
               None \<Rightarrow> Inr config
             | Some text_v \<Rightarrow>
                 (let ((status, msg), root_v) = CheckConfiguration (ce_json env) (Some text_v) (j_null (ce_json env))
                  in Inr (if status = ARG_OK then root_v else config)))
         else Inr config)"

definition setLogLevel :: "string \<Rightarrow> LogLevel \<Rightarrow> LogLevel" where
  "setLogLevel level g_level = (case ParseLogLevelName level of Some lvl \<Rightarrow> lvl | None \<Rightarrow> g_level)"

definition Init_log_level :: "'j ConfigEnv \<Rightarrow> 'j \<Rightarrow> LogLevel \<Rightarrow> cxx_fault + LogLevel" where
  "Init_log_level env config g_level =
     res_bind (j_get (ce_json env) config ''logLevel'') (\<lambda>v.
       if \<not> j_empty (ce_json env) v
       then res_bind (j_asString (ce_json env) v) (\<lambda>s. Inr (setLogLevel s g_level))
       else
         res_bind (EnvVar_tryValue ParseString None (env_var env ''ROX_COLLECTOR_LOG_LEVEL'')) (\<lambda>r.
           Inr (case r of Some s \<Rightarrow> setLogLevel s g_level | None \<Rightarrow> g_level)))"

definition Init_scrape_interval :: "'j ConfigEnv \<Rightarrow> 'j \<Rightarrow> CollectorConfig \<Rightarrow> cxx_fault + CollectorConfig" where
  "Init_scrape_interval env config c =
     res_bind (j_get (ce_json env) config ''scrapeInterval'') (\<lambda>v.
       if \<not> j_empty (ce_json env) v
       then res_bind (j_asInt (ce_json env) v) (\<lambda>i. Inr (c\<lparr>cc_scrape_interval := i\<rparr>))
       else
         res_bind (EnvVar_tryValue ParseInt None (env_var env ''ROX_COLLECTOR_SCRAPE_INTERVAL'')) (\<lambda>r.
           Inr (case r of Some i \<Rightarrow> c\<lparr>cc_scrape_interval := i\<rparr> | None \<Rightarrow> c)))"

definition Init_scrape_off :: "'j ConfigEnv \<Rightarrow> 'j \<Rightarrow> CollectorConfig \<Rightarrow> cxx_fault + CollectorConfig" where
  "Init_scrape_off env config c =
     res_bind (j_get (ce_json env) config ''turnOffScrape'') (\<lambda>v.
       if \<not> j_empty (ce_json env) v
       then res_bind (j_asBool (ce_json env) v) (\<lambda>b. Inr (c\<lparr>cc_turn_off_scrape := b\<rparr>))
       else
         res_bind (EnvVar_tryValue ParseBool None (env_var env ''ROX_COLLECTOR_SCRAPE_DISABLED'')) (\<lambda>r.
           Inr (case r of Some b \<Rightarrow> c\<lparr>cc_turn_off_scrape := b\<rparr> | None \<Rightarrow> c)))"

definition Init_collection_method ::
  "'j ConfigEnv \<Rightarrow> 'j CollectorArgs \<Rightarrow> CollectorConfig \<Rightarrow> cxx_fault + CollectorConfig" where
  "Init_collection_method env args c =
     (case args_collectionMethod args of
        Some cm \<Rightarrow> Inr (c\<lparr>cc_collection_method := cm\<rparr>)
      | None \<Rightarrow>
          res_bind (EnvVar_tryValue ParseString None (env_var env ''COLLECTION_METHOD'')) (\<lambda>r.
            Inr (case r of Some s \<Rightarrow> c\<lparr>cc_collection_method := ParseCollectionMethod s\<rparr> | None \<Rightarrow> c)))"

definition json_path :: "'j JsonOps \<Rightarrow> 'j \<Rightarrow> string \<Rightarrow> cxx_fault + string" where
  "json_path js tls key = res_bind (j_get js tls key) (j_asString js)"

definition tls_env :: "'j ConfigEnv \<Rightarrow> string \<Rightarrow> string \<Rightarrow> cxx_fault + string" where
  "tls_env env name alt = EnvVar_valueOr ParsePath None (env_var env name) alt"

definition Init_tls :: "'j ConfigEnv \<Rightarrow> 'j \<Rightarrow> CollectorConfig \<Rightarrow> cxx_fault + CollectorConfig" where
  "Init_tls env config c =
     (let js = ce_json env
      in res_bind (j_get js config ''tlsConfig'') (\<lambda>tls.
         res_bind (EnvVar_tryValue ParsePath None (env_var env ''ROX_COLLECTOR_TLS_CERTS'')) (\<lambda>base.
           (let base_dir = (\<lambda>file. case base of Some b \<Rightarrow> path_append b file | None \<Rightarrow> []);
                pick = (\<lambda>key name file.
                  if \<not> j_empty js tls then json_path js tls key else tls_env env name (base_dir file))
            in res_bind (pick ''caCertPath'' ''ROX_COLLECTOR_TLS_CA'' ''ca.pem'') (\<lambda>ca.
               res_bind (pick ''clientCertPath'' ''ROX_COLLECTOR_TLS_CLIENT_CERT'' ''cert.pem'') (\<lambda>cert.
               res_bind (pick ''clientKeyPath'' ''ROX_COLLECTOR_TLS_CLIENT_KEY'' ''key.pem'') (\<lambda>key.
                 Inr (c\<lparr>cc_tls_config :=
                          Some \<lparr>tls_ca = ca, tls_client_cert = cert, tls_client_key = key\<rparr>\<rparr>))))))))"

definition Init_grpc_server ::
  "'j ConfigEnv \<Rightarrow> 'j CollectorArgs \<Rightarrow> CollectorConfig \<Rightarrow> cxx_fault + CollectorConfig" where
  "Init_grpc_server env args c =
     (if args_grpcServer args \<noteq> [] then Inr (c\<lparr>cc_grpc_server := Some (args_grpcServer args)\<rparr>)
      else
        res_bind (EnvVar_tryValue ParseString None (env_var env ''GRPC_SERVER'')) (\<lambda>r.
          Inr (case r of
                 None \<Rightarrow> c
               | Some s \<Rightarrow> if fst (CheckGrpcServer s) = ARG_OK then c\<lparr>cc_grpc_server := Some s\<rparr> else c)))"

definition Init_user ::
  "'j ConfigEnv \<Rightarrow> 'j CollectorArgs \<Rightarrow> CollectorConfig \<times> LogLevel \<Rightarrow> cxx_fault + CollectorConfig \<times> LogLevel" where
  "Init_user env args st =
     (let (c, g_level) = st
      in res_bind (user_json env args) (\<lambda>config.
         res_bind (Init_log_level env config g_level) (\<lambda>g_level1.
         res_bind (Init_scrape_interval env config c) (\<lambda>c1.
         res_bind (Init_scrape_off env config c1) (\<lambda>c2.
         res_bind (Init_collection_method env args c2) (\<lambda>c3.
         res_bind (Init_tls env config c3) (\<lambda>c4.
         res_bind (Init_grpc_server env args c4) (\<lambda>c5. Inr (c5, g_level1)))))))))"

text \<open>The networks of a variable: empty parts and parts that do not parse are skipped.\<close>

definition parse_networks :: "'j ConfigEnv \<Rightarrow> string list \<Rightarrow> IPNet list" where
  "parse_networks env strs =
     List.map_filter (\<lambda>str. if str = [] then None else IPNet_parse (ce_getaddrinfo env) (ce_sockaddr env) str) strs"

definition Init_networks :: "'j ConfigEnv \<Rightarrow> CollectorConfig \<Rightarrow> cxx_fault + CollectorConfig" where
  "Init_networks env c =
     res_bind (env_bool env ''ROX_COLLECTOR_DISABLE_NETWORK_FLOWS'' False) (\<lambda>no_flows.
     res_bind (env_bool env ''ROX_NETWORK_GRAPH_PORTS'' True) (\<lambda>ports.
     res_bind (env_bool env ''ROX_NETWORK_DROP_IGNORED'' True) (\<lambda>drop_ignored.
     res_bind (EnvVar_value ParseStringList (Some [''169.254.0.0/16'', ''fe80::/10'']) (env_var env ''ROX_IGNORE_NETWORKS'')) (\<lambda>ignored.
     res_bind (EnvVar_value ParseStringList (Some []) (env_var env ''ROX_NON_AGGREGATED_NETWORKS'')) (\<lambda>non_aggregated.
     res_bind (env_bool env ''ENABLE_CORE_DUMP'' False) (\<lambda>core_dump.
       Inr (c\<lparr>cc_disable_network_flows := cc_disable_network_flows c \<or> no_flows,
              cc_scrape_listen_endpoints := cc_scrape_listen_endpoints c \<or> ports,
              cc_ignored_l4proto_port_pairs :=
                (if drop_ignored then kIgnoredL4ProtoPortPairs else cc_ignored_l4proto_port_pairs c),
              cc_ignored_networks := cc_ignored_networks c @ parse_networks env ignored,
              cc_non_aggregated_networks := cc_non_aggregated_networks c @ parse_networks env non_aggregated,
              cc_enable_core_dump := cc_enable_core_dump c \<or> core_dump\<rparr>)))))))"

definition InitCollectorConfig ::
  "'j ConfigEnv \<Rightarrow> 'j CollectorArgs option \<Rightarrow> u32 \<Rightarrow> CollectorConfig \<times> LogLevel \<times> HostInfo \<Rightarrow>
     cxx_fault + CollectorConfig \<times> LogLevel \<times> HostInfo" where
  "InitCollectorConfig env args uninitialised st =
     (let (c, g_level, host) = st
      in res_bind (Init_flags env c) (\<lambda>c1.
         res_bind (case args of
                     None \<Rightarrow> Inr (Init_syscalls env c1, g_level)
                   | Some a \<Rightarrow> Init_user env a (Init_syscalls env c1, g_level)) (\<lambda>(c2, g_level2).
         res_bind (Init_networks env c2) (\<lambda>c3.
         res_bind (HandleAfterglowEnvVars env c3) (\<lambda>c4.
           (let c5 = HandleSinspEnvVars env (HandleConnectionStatsEnvVars env c4)
            in res_bind (ProcessHostHeuristics (ce_host env) (Config_GetCollectionMethod c5) uninitialised host)
                 (\<lambda>(host', hc). Inr (c5\<lparr>cc_host_config := hc\<rparr>, g_level2, host'))))))))"

end
