(* ===== verification/ConfigProps.thy ===== *)
theory ConfigProps
  imports CollectorConfig
begin

text \<open>
  Properties of the configuration: the size of the ring buffers, the per-container rate limit, and
  what initialisation makes of the environment.
\<close>

section \<open>Ring buffers\<close>

text \<open>The smallest number of groups of \<open>b\<close> elements that hold \<open>a\<close> elements.\<close>

definition groups :: "int \<Rightarrow> int \<Rightarrow> int" where
  "groups a b = \<lceil>of_int a / of_int b :: rat\<rceil>"

lemma groups_bounds:
  assumes "0 < a" "0 < b"
  shows "0 < groups a b" "groups a b \<le> a"
proof -
  show "0 < groups a b" using assms by (simp add: groups_def)
  have "(of_int a / of_int b :: rat) \<le> of_int a" using assms by (simp add: divide_le_eq mult_le_cancel_left1)
  then show "groups a b \<le> a" by (simp add: groups_def ceiling_le_iff)
qed

lemma float_groups:
  assumes "0 < a" "a < 2 ^ 24" "0 < b" "b < 2 ^ 24"
  shows "\<lceil>fl 24 (fl 24 (of_int a) / fl 24 (of_int b))\<rceil> = groups a b"
  using assms fl_int_exact [of a 24] fl_int_exact [of b 24] ceiling_fl_div [of a 24 b]
  by (simp add: groups_def)

lemma fl_upper: "0 \<le> x \<Longrightarrow> fl p x \<le> x + x / 2 ^ p"
  using fl_error [of p x] by (simp only: abs_of_nonneg)

lemma float_quotient_bound:
  assumes "0 \<le> t" "t < 2 ^ 32" "0 < n" "n < 2 ^ 24"
  shows "\<lceil>fl 24 (fl 24 (of_int t) / fl 24 (of_int n))\<rceil> * n < t + n + 513"
proof -
  define T :: rat where "T = of_int t"
  define N :: rat where "N = of_int n"
  define x where "x = fl 24 (fl 24 T / N)"
  have N: "0 < N" and T: "0 \<le> T" using assms(1,3) by (simp_all add: N_def T_def)
  have "(of_int t :: rat) < of_int (2 ^ 32)" unfolding of_int_less_iff by (rule assms(2))
  then have T32: "T < 2 ^ 32" by (simp add: T_def)
  have flN: "fl 24 N = N" unfolding N_def using assms(3,4) by (intro fl_int_exact) simp
  have t: "fl 24 T \<le> T + T / 2 ^ 24" "0 \<le> fl 24 T"
    using fl_upper [OF T, of 24] fl_nonneg [OF _ T, of 24] by simp_all
  have "x \<le> fl 24 T / N + fl 24 T / N / 2 ^ 24"
    unfolding x_def using t(2) N by (intro fl_upper) simp
  then have "x * N \<le> (fl 24 T / N + fl 24 T / N / 2 ^ 24) * N" using N by (intro mult_right_mono) simp_all
  also have "\<dots> = fl 24 T * (1 + 1 / 2 ^ 24)" using N by (simp add: field_simps)
  also have "\<dots> \<le> (T + T / 2 ^ 24) * (1 + 1 / 2 ^ 24)" using t(1) by (intro mult_right_mono) simp_all
  also have "\<dots> = T + T * (1 / 2 ^ 23 + 1 / 2 ^ 48)" by (simp add: field_simps)
  also have "\<dots> \<le> T + 2 ^ 32 * (1 / 2 ^ 23 + 1 / 2 ^ 48)"
    by (intro add_left_mono mult_right_mono less_imp_le [OF T32]) simp_all
  also have "\<dots> < T + 513" by simp
  finally have xN: "x * N < T + 513" .
  have "of_int \<lceil>x\<rceil> < x + 1" using ceiling_correct [of x] by simp
  then have "of_int \<lceil>x\<rceil> * N < (x + 1) * N" using N by simp
  then have "of_int \<lceil>x\<rceil> * N < T + N + 513" using xN by (simp add: algebra_simps)
  then have "(of_int (\<lceil>x\<rceil> * n) :: rat) < of_int (t + n + 513)" by (simp add: N_def T_def)
  then show ?thesis unfolding of_int_less_iff by (simp add: x_def flN [unfolded N_def] N_def T_def)
qed

lemma to_u32_Inr: "to_u32 i = Inr w \<Longrightarrow> uint w = i"
  by (auto simp: to_u32_def intro!: word_of_int_inverse split: if_splits)

lemma n_buffers_groups:
  assumes "0 < uint cpus" "uint cpus < 2 ^ 24" "0 < uint per" "uint per < 2 ^ 24"
  shows "n_buffers cpus per = Inr (word_of_int (groups (uint cpus) (uint per)))"
    "uint (word_of_int (groups (uint cpus) (uint per)) :: u32) = groups (uint cpus) (uint per)"
proof -
  have g: "0 < groups (uint cpus) (uint per)" "groups (uint cpus) (uint per) < 2 ^ 24"
    using groups_bounds [OF assms(1,3)] assms(2) by linarith+
  then show "n_buffers cpus per = Inr (word_of_int (groups (uint cpus) (uint per)))"
    unfolding n_buffers_def float_groups [OF assms] by (simp add: to_u32_def)
  show "uint (word_of_int (groups (uint cpus) (uint per)) :: u32) = groups (uint cpus) (uint per)"
    using g by (intro word_of_int_inverse [OF refl]) simp_all
qed

lemma max_buffer_size_bound:
  assumes "max_buffer_size t n = Inr mx" "0 < uint n" "uint n < 2 ^ 24"
  shows "uint mx * uint n < uint t + uint n + 513"
proof -
  have "uint t < 2 ^ 32" using uint_lt2p [of t] by simp
  from float_quotient_bound [OF uint_ge_0 this assms(2,3)] to_u32_Inr [OF assms(1) [unfolded max_buffer_size_def]]
  show ?thesis by (simp only:)
qed


section \<open>Rate limit\<close>

text \<open>Rounding to the nearest integer survives one rounding in \<open>double\<close>.\<close>

lemma round_away_fl:
  assumes "0 \<le> x" "x < 2 ^ 24"
  shows "round_away (fl 53 (of_int x / 60)) = round_away (of_int x / 60)"
proof (cases "x = 0")
  case False
  define q :: rat where "q = of_int x / 60"
  define f where "f = fl 53 q"
  define k where "k = \<lfloor>q + 1 / 2\<rfloor>"
  have q: "0 < q" "q < 2 ^ 24" using assms False by (simp_all add: q_def)
  have k: "of_int k \<le> q + 1 / 2" "q + 1 / 2 < of_int k + 1" using floor_correct [of "q + 1 / 2"] by (simp_all add: k_def)
  have "\<bar>f - q\<bar> \<le> \<bar>of_int (2 * k - 1) / 2 ^ 1 - q\<bar>"
    unfolding f_def using q by (intro fl_nearest_dyadic) simp_all
  moreover have "(of_int (2 * k - 1) / 2 ^ 1 :: rat) = of_int k - 1 / 2" by (simp add: diff_divide_distrib)
  ultimately have lo: "of_int k \<le> f + 1 / 2" using k(1) by linarith
  have "60 * k \<le> x + 30 \<and> x + 30 < 60 * k + 60"
  proof -
    have "(of_int (60 * k) :: rat) \<le> of_int (x + 30)" "(of_int (x + 30) :: rat) < of_int (60 * k + 60)"
      using k by (simp_all add: q_def)
    then show ?thesis unfolding of_int_le_iff of_int_less_iff by simp
  qed
  then have "x + 31 \<le> 60 * k + 60" by simp
  then have "(of_int (x + 31) :: rat) \<le> of_int (60 * k + 60)" unfolding of_int_le_iff .
  then have "q + 1 / 2 + 1 / 60 \<le> of_int k + 1" by (simp add: q_def)
  moreover have "f \<le> q + q / 2 ^ 53" unfolding f_def using q(1) by (intro fl_upper) simp
  moreover have "q / 2 ^ 53 < 1 / 60" using q(2) by simp
  ultimately have hi: "f + 1 / 2 < of_int k + 1" by linarith
  have "0 \<le> f" unfolding f_def using q(1) by (intro fl_nonneg) simp_all
  moreover have "\<lfloor>f + 1 / 2\<rfloor> = k" using lo hi by (intro floor_unique)
  ultimately show ?thesis using q(1) by (simp add: round_away_def f_def k_def q_def)
qed (simp add: fl_def)

text \<open>
  the rate limit per scrape interval is the limit per minute times the interval over 60,
  rounded to the nearest integer with halves up, exactly, as long as the product is below \<open>2^24\<close>;
  the limit per minute is that of the runtime configuration, if there is one.
\<close>

theorem PerContainerRateLimit_rounds:
  assumes "0 \<le> MaxConnectionsPerMinute c" "0 \<le> cc_scrape_interval c"
    "MaxConnectionsPerMinute c < 2 ^ 24" "cc_scrape_interval c < 2 ^ 24"
    "MaxConnectionsPerMinute c * cc_scrape_interval c < 2 ^ 24"
  shows "PerContainerRateLimit c =
    Inr \<lfloor>of_int (MaxConnectionsPerMinute c * cc_scrape_interval c) / 60 + 1 / 2 :: rat\<rfloor>"
proof -
  let ?m = "MaxConnectionsPerMinute c" and ?i = "cc_scrape_interval c"
  define x where "x = ?m * ?i"
  have x: "0 \<le> x" "x < 2 ^ 24" using assms by (simp_all add: x_def)
  have "fl 24 (fl 24 (of_int ?m) * fl 24 (of_int ?i)) = of_int x"
    using fl_int_exact [of ?m 24] fl_int_exact [of ?i 24] fl_int_exact [of x 24] assms x by (simp add: x_def)
  moreover have r: "round_away (fl 53 (of_int x / 60)) = \<lfloor>of_int x / 60 + 1 / 2 :: rat\<rfloor>"
    using round_away_fl [OF x] x by (simp add: round_away_def)
  moreover have "\<lfloor>of_int x / 60 + 1 / 2 :: rat\<rfloor> < 2 ^ 63" "- (2 ^ 63) \<le> \<lfloor>of_int x / 60 + 1 / 2 :: rat\<rfloor>"
    using x by (simp_all add: floor_less_iff le_floor_iff)
  ultimately show ?thesis by (simp add: PerContainerRateLimit_def Let_def x_def)
qed

section \<open>Initialisation\<close>

text \<open>
  an integer or floating-point variable that does not convert never falls back to the default:
  the exception of the conversion leaves the accessor.
\<close>

theorem EnvVar_number_no_default:
  "(case stoi s of
      Inl e \<Rightarrow> EnvVar_tryValue ParseInt def (Some s) = Inl (Throws e)
    | Inr v \<Rightarrow> EnvVar_tryValue ParseInt def (Some s) = Inr (Some v)) \<and>
   (case stof s of
      Inl e \<Rightarrow> EnvVar_tryValue (ParseFloat stof) def' (Some s) = Inl (Throws e)
    | Inr v \<Rightarrow> EnvVar_tryValue (ParseFloat stof) def' (Some s) = Inr (Some v))"
  by (simp add: EnvVar_tryValue_def ParseInt_def ParseFloat_def split: sum.split)

text \<open>The members that the later steps of the initialisation do not touch.\<close>

definition chosen :: "CollectorConfig \<Rightarrow> CollectionMethod \<times> int \<times> string option \<times> RuntimeConfig option \<times> CollectionMethod option" where
  "chosen c = (cc_collection_method c, cc_scrape_interval c, cc_grpc_server c, cc_runtime_config c,
     hc_collection_method (cc_host_config c))"

lemma Init_keeps_chosen:
  "Init_flags env c = Inr c' \<Longrightarrow> chosen c' = chosen c \<and> cc_enable_afterglow c' = cc_enable_afterglow c"
  "chosen (Init_syscalls env c) = chosen c \<and> cc_enable_afterglow (Init_syscalls env c) = cc_enable_afterglow c"
  "Init_networks env c = Inr c' \<Longrightarrow> chosen c' = chosen c \<and> cc_enable_afterglow c' = cc_enable_afterglow c"
  "chosen (HandleSinspEnvVars env (HandleConnectionStatsEnvVars env c)) = chosen c \<and>
   cc_enable_afterglow (HandleSinspEnvVars env (HandleConnectionStatsEnvVars env c)) = cc_enable_afterglow c \<and>
   cc_afterglow_period_micros (HandleSinspEnvVars env (HandleConnectionStatsEnvVars env c)) = cc_afterglow_period_micros c"
  by (auto simp: Init_flags_def Init_syscalls_def Init_networks_def HandleSinspEnvVars_def
      HandleConnectionStatsEnvVars_def chosen_def res_bind_Inr_iff Let_def)

lemma HandleAfterglowEnvVars_laws:
  assumes "HandleAfterglowEnvVars env c = Inr c'" "\<not> cc_enable_afterglow c"
  shows "chosen c' = chosen c"
    "cc_enable_afterglow c' \<Longrightarrow> 0 < cc_afterglow_period_micros c' \<and> cc_afterglow_period_micros c' \<le> 300000000"
  using assms
  by (auto simp: HandleAfterglowEnvVars_def res_bind_Inr_iff Let_def chosen_def split: if_splits)

text \<open>What the user's options select: command line first, then JSON or environment, then the default.\<close>

definition selected_method :: "'j ConfigEnv \<Rightarrow> 'j CollectorArgs \<Rightarrow> CollectionMethod" where
  "selected_method env args =
     (case args_collectionMethod args of
        Some m \<Rightarrow> m
      | None \<Rightarrow> (case env_var env ''COLLECTION_METHOD'' of Some s \<Rightarrow> ParseCollectionMethod s | None \<Rightarrow> CORE_BPF))"

definition selected_server :: "'j ConfigEnv \<Rightarrow> 'j CollectorArgs \<Rightarrow> string option" where
  "selected_server env args =
     (if args_grpcServer args \<noteq> [] then Some (args_grpcServer args)
      else (case env_var env ''GRPC_SERVER'' of
              Some s \<Rightarrow> if fst (CheckGrpcServer s) = ARG_OK then Some s else None
            | None \<Rightarrow> None))"

text \<open>Each step of the user's options changes one member.\<close>

lemma Init_scrape_interval_changes:
  "Init_scrape_interval env config c = Inr c' \<Longrightarrow> \<exists>i. c' = c\<lparr>cc_scrape_interval := i\<rparr>"
  unfolding Init_scrape_interval_def res_bind_Inr_iff
  by (auto simp: res_bind_Inr_iff intro: exI [of _ "cc_scrape_interval c"] split: if_splits option.splits)

lemma Init_scrape_off_changes:
  "Init_scrape_off env config c = Inr c' \<Longrightarrow> \<exists>b. c' = c\<lparr>cc_turn_off_scrape := b\<rparr>"
  unfolding Init_scrape_off_def res_bind_Inr_iff
  by (auto simp: res_bind_Inr_iff intro: exI [of _ "cc_turn_off_scrape c"] split: if_splits option.splits)

lemma Init_tls_changes: "Init_tls env config c = Inr c' \<Longrightarrow> \<exists>t. c' = c\<lparr>cc_tls_config := t\<rparr>"
  unfolding Init_tls_def res_bind_Inr_iff Let_def by auto

lemma Init_method_changes:
  "cc_collection_method c = CORE_BPF \<Longrightarrow>
   Init_collection_method env args c = Inr (c\<lparr>cc_collection_method := selected_method env args\<rparr>)"
  by (simp add: Init_collection_method_def selected_method_def EnvVar_tryValue_def ParseString_def split: option.split)

lemma Init_grpc_changes:
  "cc_grpc_server c = None \<Longrightarrow> Init_grpc_server env args c = Inr (c\<lparr>cc_grpc_server := selected_server env args\<rparr>)"
  by (simp add: Init_grpc_server_def selected_server_def EnvVar_tryValue_def ParseString_def split: option.split)

lemma Init_user_laws:
  assumes "Init_user env args (c, g) = Inr (c', g')" "cc_grpc_server c = None" "cc_collection_method c = CORE_BPF"
  shows "\<exists>i b t. c' = c\<lparr>cc_scrape_interval := i, cc_turn_off_scrape := b,
    cc_collection_method := selected_method env args, cc_tls_config := t,
    cc_grpc_server := selected_server env args\<rparr>"
proof -
  obtain config c1 c2 c3 c4 where s:
    "Init_scrape_interval env config c = Inr c1" "Init_scrape_off env config c1 = Inr c2"
    "Init_collection_method env args c2 = Inr c3" "Init_tls env config c3 = Inr c4"
    "Init_grpc_server env args c4 = Inr c'"
    using assms(1) unfolding Init_user_def Let_def prod.case res_bind_Inr_iff by blast
  obtain i b where c2: "c2 = c\<lparr>cc_scrape_interval := i, cc_turn_off_scrape := b\<rparr>"
    using Init_scrape_interval_changes [OF s(1)] Init_scrape_off_changes [OF s(2)] by blast
  then have c3: "c3 = c2\<lparr>cc_collection_method := selected_method env args\<rparr>"
    using Init_method_changes [of c2 env args] s(3) assms(3) by simp
  obtain t where c4: "c4 = c3\<lparr>cc_tls_config := t\<rparr>" using Init_tls_changes [OF s(4)] by blast
  then have "c' = c4\<lparr>cc_grpc_server := selected_server env args\<rparr>"
    using Init_grpc_changes [of c4 env args] s(5) assms(2) c2 c3 by simp
  then show ?thesis using c2 c3 c4 by blast
qed

text \<open>
  C18: a completed initialisation of a fresh configuration. The collection method is that of the
  command line, else of the environment, else CO-RE BPF; the server is that of the command line,
  else that of the environment if it is well-formed, else none; there is no runtime configuration;
  afterglow is only enabled with a period above zero and at most five minutes; and the host was
  accepted for that method.
\<close>

theorem InitCollectorConfig_result:
  assumes "InitCollectorConfig env (Some args) u (CollectorConfig_new junk, g, h) = Inr (c, g', h')"
  shows "cc_collection_method c = selected_method env args \<and> cc_grpc_server c = selected_server env args \<and>
    cc_runtime_config c = None \<and>
    (cc_enable_afterglow c \<longrightarrow> 0 < cc_afterglow_period_micros c \<and> cc_afterglow_period_micros c \<le> 300000000) \<and>
    ProcessHostHeuristics (ce_host env) (selected_method env args) u h = Inr (h', cc_host_config c)"
proof -
  obtain c1 c2 c3 c4 where
    s1: "Init_flags env (CollectorConfig_new junk) = Inr c1" and
    s2: "Init_user env args (Init_syscalls env c1, g) = Inr (c2, g')" and
    s3: "Init_networks env c2 = Inr c3" and s4: "HandleAfterglowEnvVars env c3 = Inr c4" and
    s5: "ProcessHostHeuristics (ce_host env)
        (Config_GetCollectionMethod (HandleSinspEnvVars env (HandleConnectionStatsEnvVars env c4))) u h =
      Inr (h', cc_host_config c)" and
    c: "c = (HandleSinspEnvVars env (HandleConnectionStatsEnvVars env c4))\<lparr>cc_host_config := cc_host_config c\<rparr>"
    using assms unfolding InitCollectorConfig_def Let_def prod.case option.case res_bind_Inr_iff
    by (auto simp: res_bind_Inr_iff)
  have k1: "chosen (Init_syscalls env c1) = (CORE_BPF, 30, None, None, None)" "\<not> cc_enable_afterglow (Init_syscalls env c1)"
    using Init_keeps_chosen(1) [OF s1] Init_keeps_chosen(2) [of env c1]
    by (simp_all add: CollectorConfig_new_def chosen_def)
  have k2: "cc_collection_method c2 = selected_method env args \<and> cc_grpc_server c2 = selected_server env args \<and>
      cc_runtime_config c2 = None \<and> \<not> cc_enable_afterglow c2 \<and> hc_collection_method (cc_host_config c2) = None"
    using Init_user_laws [OF s2] k1 by (auto simp: chosen_def)
  have k3: "chosen c3 = chosen c2" "\<not> cc_enable_afterglow c3"
    using Init_keeps_chosen(3) [OF s3] k2 by simp_all
  note k4 = HandleAfterglowEnvVars_laws [OF s4 k3(2)]
  have k5: "chosen (HandleSinspEnvVars env (HandleConnectionStatsEnvVars env c4)) = chosen c2"
    using Init_keeps_chosen(4) [of env c4] k3(1) k4(1) by simp
  then have "cc_collection_method c = cc_collection_method c2" "cc_grpc_server c = cc_grpc_server c2"
    "cc_runtime_config c = cc_runtime_config c2" "cc_enable_afterglow c = cc_enable_afterglow c4"
    "cc_afterglow_period_micros c = cc_afterglow_period_micros c4"
    using Init_keeps_chosen(4) [of env c4] by (subst c, simp add: chosen_def)+
  moreover have "Config_GetCollectionMethod (HandleSinspEnvVars env (HandleConnectionStatsEnvVars env c4)) =
      selected_method env args"
    using k5 k2 by (simp add: Config_GetCollectionMethod_def chosen_def)
  ultimately show ?thesis using k2 k4(2) s5 by simp
qed

section \<open>Examples\<close>

definition example_config :: CollectorConfig where
  "example_config =
     \<lparr>cc_scrape_interval = 30, cc_collection_method = CORE_BPF, cc_turn_off_scrape = False, cc_syscalls = [],
      cc_host_proc = [], cc_disable_network_flows = False, cc_scrape_listen_endpoints = True,
      cc_ignored_l4proto_port_pairs = [], cc_ignored_networks = [], cc_non_aggregated_networks = [],
      cc_host_config = \<lparr>hc_collection_method = None, hc_num_possible_cpus = 4\<rparr>,
      cc_afterglow_period_micros = 300000000, cc_enable_afterglow = True, cc_enable_core_dump = False,
      cc_enable_processes_listening_on_ports = True, cc_import_users = False,
      cc_collect_connection_status = True, cc_enable_external_ips = False, cc_enable_connection_stats = True,
      cc_enable_detailed_metrics = True, cc_enable_runtime_config = False, cc_use_docker_ce = False,
      cc_use_podman_ce = False, cc_enable_introspection = False, cc_track_send_recv = False,
      cc_connection_stats_quantiles = [], cc_connection_stats_error = 0, cc_connection_stats_window = 60,
      cc_max_connections_per_minute = 2048, cc_grpc_server = None, cc_disable_process_arguments = False,
      cc_sinsp_cpu_per_buffer = 1, cc_sinsp_buffer_size = 8388608, cc_sinsp_total_buffer_size = 8388608,
      cc_sinsp_thread_cache_size = 32768, cc_tls_config = None, cc_runtime_config = None\<rparr>"

lemma fl_numeral: "(numeral k :: int) < 2 ^ p \<Longrightarrow> fl p (numeral k) = numeral k"
  using fl_int_exact [of "numeral k" p] by simp

lemma fl_one: "0 < p \<Longrightarrow> fl p 1 = 1"
  using fl_int_exact [of 1 p] by simp


theorem PerContainerRateLimit_rounds_witness: "PerContainerRateLimit example_config = Inr 1024"
proof -
  have "\<lfloor>2049 / 2 :: rat\<rfloor> = 1024" by (simp add: floor_eq_iff)
  then show ?thesis
    using PerContainerRateLimit_rounds [of example_config]
    by (simp add: MaxConnectionsPerMinute_def example_config_def)
qed

definition example_env :: "unit ConfigEnv" where
  "example_env =
     \<lparr>ce_host = example_host\<lparr>he_getenv := \<lambda>n. if n = ''ROX_AFTERGLOW_PERIOD'' then Some ''1'' else None\<rparr>,
      ce_json = \<lparr>j_null = (), j_parse = (\<lambda>_. Inl []), j_get = (\<lambda>_ _. Inr ()), j_empty = (\<lambda>_. True),
                 j_asString = (\<lambda>_. Inr []), j_asInt = (\<lambda>_. Inr 0), j_asBool = (\<lambda>_. Inr False)\<rparr>,
      ce_stof = (\<lambda>_. Inr 1), ce_stod = (\<lambda>_. Inl Invalid_argument),
      ce_getaddrinfo = (\<lambda>_. (1, None)), ce_sockaddr = [], ce_default_cpu_for_each_buffer = 1,
      ce_default_driver_buffer_bytes_dim = 8388608\<rparr>"

lemma example_env_simps:
  "env_var example_env n = (if n = ''ROX_AFTERGLOW_PERIOD'' then Some ''1'' else None)"
  "j_get (ce_json example_env) v k = Inr ()" "j_empty (ce_json example_env) v"
  "ce_stof example_env s = Inr 1"
  by (simp_all add: env_var_def example_env_def)

lemma example_bool: "n \<noteq> ''ROX_AFTERGLOW_PERIOD'' \<Longrightarrow> env_bool example_env n d = Inr d"
  by (simp add: env_bool_def EnvVar_value_def EnvVar_tryValue_def example_env_simps)

lemma example_heuristics:
  "\<exists>h' hc. ProcessHostHeuristics (ce_host example_env) m 0 HostInfo_new = Inr (h', hc)"
proof -
  let ?kv = "\<lparr>kv_kernel = 5, kv_major = 14, kv_minor = 0, kv_build_id = 0, kv_release = ''5.14.0'',
      kv_version = ''v'', kv_machine = ''x86_64''\<rparr>"
  define h where "h = ce_host example_env"
  have "KernelVersion_FromHost h = Inr ?kv" unfolding h_def by code_simp
  moreover have "GetOSReleaseValue h n = Inr []" for n
    by (simp add: GetOSReleaseValue_def h_def example_env_def example_host_def)
  moreover have "he_readable h p" "he_probe_ringbuf h = 1" "he_probe_tracing h = 1" for p
    by (simp_all add: h_def example_env_def example_host_def)
  ultimately show ?thesis
    using hi_ok_new [of h] unfolding h_def [symmetric]
    by (simp add: ProcessHostHeuristics_def g_host_heuristics_def CollectionHeuristic_Process_def
        HostInfo_HasEBPFSupport_def accessors_uncached DockerDesktopHeuristic_Process_def
        IsDockerDesktop_def PowerHeuristic_Process_def CPUHeuristic_Process_def hasEBPFSupport_iff
        HasBTFSymbols_def btf_locations_def HasBPFRingBufferSupport_def HasBPFTracingSupport_def
        distro_of_def)
qed

lemma example_steps:
  "\<exists>c'. Init_flags example_env c = Inr c'"
  "\<exists>r. Init_user example_env (CollectorArgs_new (ce_json example_env)) st = Inr r"
  "\<exists>c'. Init_networks example_env c = Inr c'"
  "\<exists>c'. HandleAfterglowEnvVars example_env c = Inr c'"
     apply (simp add: Init_flags_def example_bool)
    apply (simp add: Init_user_def user_json_def Init_log_level_def Init_scrape_interval_def
      Init_scrape_off_def Init_collection_method_def Init_tls_def tls_env_def EnvVar_tryValue_def
      EnvVar_valueOr_def EnvVar_hasValue_def Init_grpc_server_def CollectorArgs_new_def example_env_simps Let_def split_def)
   apply (simp add: Init_networks_def example_bool EnvVar_value_def EnvVar_tryValue_def example_env_simps)
  apply (simp add: HandleAfterglowEnvVars_def example_bool EnvVar_value_def EnvVar_tryValue_def
      example_env_simps ParseFloat_def fl_numeral Let_def)
  done

theorem InitCollectorConfig_result_witness:
  "\<exists>c g' h'. InitCollectorConfig example_env (Some (CollectorArgs_new (ce_json example_env))) 0
       (CollectorConfig_new example_config, INFO, HostInfo_new) = Inr (c, g', h') \<and>
     cc_collection_method c = CORE_BPF \<and> cc_grpc_server c = None"
proof -
  let ?args = "CollectorArgs_new (ce_json example_env)"
  have sel: "selected_method example_env ?args = CORE_BPF" "selected_server example_env ?args = None"
    by (simp_all add: selected_method_def selected_server_def CollectorArgs_new_def example_env_simps)
  obtain c1 c2 g' c3 c4 where s: "Init_flags example_env (CollectorConfig_new example_config) = Inr c1"
    "Init_user example_env ?args (Init_syscalls example_env c1, INFO) = Inr (c2, g')"
    "Init_networks example_env c2 = Inr c3" "HandleAfterglowEnvVars example_env c3 = Inr c4"
    using example_steps by (metis surj_pair)
  obtain h' hc where h: "ProcessHostHeuristics (ce_host example_env) (Config_GetCollectionMethod
      (HandleSinspEnvVars example_env (HandleConnectionStatsEnvVars example_env c4))) 0 HostInfo_new = Inr (h', hc)"
    using example_heuristics by blast
  obtain c where i: "InitCollectorConfig example_env (Some ?args) 0
      (CollectorConfig_new example_config, INFO, HostInfo_new) = Inr (c, g', h')"
    using s h by (simp add: InitCollectorConfig_def Let_def)
  show ?thesis using InitCollectorConfig_result [OF i] i sel by metis
qed

end
