(* ===== verification/Notifier.thy ===== *)
theory Notifier
  imports CollectorConfig ConnTrackerLaws RateLimit
begin

text \<open>
  The network status notifier of \<open>NetworkStatusNotifier.cpp\<close>: the translation of connections and
  endpoints to messages, the messages received from the server, and the loop that scrapes, computes
  the deltas and writes them. The messages are generated protobuf classes: records of the fields
  that the sources set or read. The type of time stamps and the conversion \<open>ts_of\<close> from
  microseconds to it are those of the protobuf library, so they are parameters.
\<close>

section \<open>Messages\<close>

datatype L4Protocol = L4_PROTOCOL_UNKNOWN | L4_PROTOCOL_TCP | L4_PROTOCOL_UDP | L4_PROTOCOL_ICMP

datatype SocketFamily = SOCKET_FAMILY_UNKNOWN | SOCKET_FAMILY_IPV4 | SOCKET_FAMILY_IPV6

datatype ClientServerRole = ROLE_CLIENT | ROLE_SERVER

record NetworkAddress =
  na_address_data :: "u8 list"
  na_ip_network :: "u8 list"
  na_port :: u32

record NetworkProcessUniqueKey =
  pk_process_name :: string
  pk_process_exec_file_path :: string
  pk_process_args :: string

record 't NetworkConnectionProto =
  nc_container_id :: string
  nc_role :: ClientServerRole
  nc_protocol :: L4Protocol
  nc_socket_family :: SocketFamily
  nc_local_address :: "NetworkAddress option"
  nc_remote_address :: "NetworkAddress option"
  nc_close_timestamp :: "'t option"

record 't NetworkEndpointProto =
  ne_container_id :: string
  ne_protocol :: L4Protocol
  ne_socket_family :: SocketFamily
  ne_listen_address :: "NetworkAddress option"
  ne_originator :: "NetworkProcessUniqueKey option"
  ne_close_timestamp :: "'t option"

record 't NetworkConnectionInfo =
  ni_updated_connections :: "'t NetworkConnectionProto list"
  ni_updated_endpoints :: "'t NetworkEndpointProto list"
  ni_time :: 't

text \<open>The control messages of the server; a sub-message that is absent reads as the empty one.\<close>

record IPAddressList =
  ipv4_addresses :: "u32 list"
  ipv6_addresses :: "u64 list"

record IPNetworkList =
  ipv4_networks :: "u8 list"
  ipv6_networks :: "u8 list"

record NetworkFlowsControlMessage =
  cm_public_ip_addresses :: "IPAddressList option"
  cm_ip_networks :: "IPNetworkList option"

definition public_ip_addresses :: "NetworkFlowsControlMessage \<Rightarrow> IPAddressList" where
  "public_ip_addresses m =
     (case cm_public_ip_addresses m of
        Some l \<Rightarrow> l | None \<Rightarrow> \<lparr>ipv4_addresses = [], ipv6_addresses = []\<rparr>)"

section \<open>Translation\<close>

definition TranslateL4Protocol :: "L4Proto \<Rightarrow> L4Protocol" where
  "TranslateL4Protocol proto =
     (case proto of
        TCP \<Rightarrow> L4_PROTOCOL_TCP | UDP \<Rightarrow> L4_PROTOCOL_UDP | ICMP \<Rightarrow> L4_PROTOCOL_ICMP
      | _ \<Rightarrow> L4_PROTOCOL_UNKNOWN)"

definition TranslateAddressFamily :: "Family \<Rightarrow> SocketFamily" where
  "TranslateAddressFamily family =
     (case family of
        IPV4 \<Rightarrow> SOCKET_FAMILY_IPV4 | IPV6 \<Rightarrow> SOCKET_FAMILY_IPV6 | UNKNOWN \<Rightarrow> SOCKET_FAMILY_UNKNOWN)"

definition EndpointToProto :: "Endpoint \<Rightarrow> NetworkAddress option" where
  "EndpointToProto endpoint =
     (if Endpoint_IsNull endpoint then None
      else
        (let addr_length = Address_length (Endpoint_address endpoint)
         in Some
           \<lparr>na_address_data =
              (if net_is_addr (ep_network endpoint)
               then take addr_length (Address_bytes (Endpoint_address endpoint)) else []),
            na_ip_network =
              (if net_bits (ep_network endpoint) > 0
               then take addr_length (Address_bytes (net_address (ep_network endpoint))) @
                    [of_nat (net_bits (ep_network endpoint))]
               else []),
            na_port = ucast (ep_port endpoint)\<rparr>))"

definition ConnToProto :: "Connection \<Rightarrow> 't NetworkConnectionProto" where
  "ConnToProto conn =
     \<lparr>nc_container_id = conn_container conn,
      nc_role = (if Connection_is_server conn then ROLE_SERVER else ROLE_CLIENT),
      nc_protocol = TranslateL4Protocol (Connection_l4proto conn),
      nc_socket_family = TranslateAddressFamily (addr_family (Endpoint_address (conn_local conn))),
      nc_local_address = EndpointToProto (conn_local conn),
      nc_remote_address = EndpointToProto (conn_remote conn),
      nc_close_timestamp = None\<rparr>"

definition ProcessToProto :: "Process \<Rightarrow> NetworkProcessUniqueKey" where
  "ProcessToProto process =
     \<lparr>pk_process_name = proc_comm process, pk_process_exec_file_path = proc_exe_path process,
      pk_process_args = proc_args process\<rparr>"

definition ContainerEndpointToProto :: "ContainerEndpoint \<Rightarrow> 't NetworkEndpointProto" where
  "ContainerEndpointToProto cep =
     \<lparr>ne_container_id = cep_container cep,
      ne_protocol = TranslateL4Protocol (cep_l4proto cep),
      ne_socket_family = TranslateAddressFamily (addr_family (Endpoint_address (cep_endpoint cep))),
      ne_listen_address = EndpointToProto (cep_endpoint cep),
      ne_originator = map_option ProcessToProto (cep_originator cep),
      ne_close_timestamp = None\<rparr>"

section \<open>Creating a message\<close>

text \<open>
  The loop over the delta: close events always go out, others as the limiter of their container
  allows. The map of limited containers is only logged. The arguments are the limiter, the map,
  the statistics and the updates so far.
\<close>

fun AddConnections_loop ::
  "(int \<Rightarrow> 't) \<Rightarrow> ConnMap \<Rightarrow> CountLimiter \<Rightarrow> (string, int) umap \<Rightarrow> CollectorStats \<Rightarrow>
     't NetworkConnectionProto list \<Rightarrow> 't NetworkConnectionProto list \<times> (string, int) umap \<times> CollectorStats" where
  "AddConnections_loop ts_of [] rate_limiter limited stats updates = (updates, limited, stats)"
| "AddConnections_loop ts_of ((k, s) # delta) rate_limiter limited stats updates =
     (let conn_proto = ConnToProto k
      in if \<not> IsActive s then
           AddConnections_loop ts_of delta rate_limiter limited stats
             (updates @ [conn_proto\<lparr>nc_close_timestamp := Some (ts_of (LastActiveTime s))\<rparr>])
         else
           (let (rate_limiter', ok) = CountLimiter_Allow (conn_container k) rate_limiter
            in if \<not> ok then
                 AddConnections_loop ts_of delta rate_limiter'
                   (um_update (=) (conn_container k) (\<lambda>n. n + 1)
                      (fst (um_insert (=) (conn_container k) 0 limited)))
                   (COUNTER_INC net_conn_rate_limited stats) updates
               else AddConnections_loop ts_of delta rate_limiter' limited stats (updates @ [conn_proto])))"

definition AddConnections ::
  "(int \<Rightarrow> 't) \<Rightarrow> CollectorConfig \<Rightarrow> ConnMap \<Rightarrow> CollectorStats \<Rightarrow>
     cxx_fault + 't NetworkConnectionProto list \<times> (string, int) umap \<times> CollectorStats" where
  "AddConnections ts_of config delta stats =
     res_bind (PerContainerRateLimit config) (\<lambda>per_container_limit.
       Inr (AddConnections_loop ts_of delta (CountLimiter_mk per_container_limit) [] stats []))"

definition AddContainerEndpoints :: "(int \<Rightarrow> 't) \<Rightarrow> EndpointMap \<Rightarrow> 't NetworkEndpointProto list" where
  "AddContainerEndpoints ts_of delta =
     map (\<lambda>(k, s).
        if \<not> IsActive s
        then (ContainerEndpointToProto k)\<lparr>ne_close_timestamp := Some (ts_of (LastActiveTime s))\<rparr>
        else ContainerEndpointToProto k) delta"

definition CreateInfoMessage ::
  "(int \<Rightarrow> 't) \<Rightarrow> CollectorConfig \<Rightarrow> int \<Rightarrow> ConnMap \<Rightarrow> EndpointMap \<Rightarrow> CollectorStats \<Rightarrow>
     cxx_fault + 't NetworkConnectionInfo option \<times> CollectorStats" where
  "CreateInfoMessage ts_of config now conn_delta endpoint_delta stats =
     (if conn_delta = [] \<and> endpoint_delta = [] then Inr (None, stats)
      else
        res_bind (AddConnections ts_of config conn_delta stats) (\<lambda>(updates, _, stats1).
          Inr (Some \<lparr>ni_updated_connections = updates,
                     ni_updated_endpoints = AddContainerEndpoints ts_of endpoint_delta,
                     ni_time = ts_of now\<rparr>,
               COUNTER_ADD net_cep_deltas (of_nat (length endpoint_delta))
                 (COUNTER_ADD net_conn_deltas (of_nat (length conn_delta)) stats1))))"

section \<open>Control messages\<close>

text \<open>
  A network is the bytes of its address and one byte for its length; the latter is a \<open>char\<close>, so
  it is sign-extended on its way to the unsigned parameter of the constructor.
\<close>

definition readNetwork :: "Family \<Rightarrow> u8 list \<Rightarrow> IPNet" where
  "readNetwork family tuple =
     IPNet_mk (Address_of_bytes family tuple)
       (unat (scast (tuple ! Address_Length family) :: u64)) False"

definition readNetworks :: "u8 list \<Rightarrow> Family \<Rightarrow> IPNet list" where
  "readNetworks networks family =
     (let tuple_size = Address_Length family + 1;
          num_nets = length networks div tuple_size
      in map (\<lambda>i. readNetwork family (take tuple_size (drop (tuple_size * i) networks))) [0 ..< num_nets])"

definition set_insert :: "'a \<Rightarrow> 'a list \<Rightarrow> 'a list" where
  "set_insert x xs = (if x \<in> set xs then xs else xs @ [x])"

fun ipv6_pairs :: "u64 list \<Rightarrow> Address list" where
  "ipv6_pairs (h # l # rest) = Address_of_ipv6 (htonll h) (htonll l) # ipv6_pairs rest"
| "ipv6_pairs _ = []"

definition ReceivePublicIPs ::
  "IPAddressList \<Rightarrow> ConnectionTracker \<times> CollectorStats \<Rightarrow> ConnectionTracker \<times> CollectorStats" where
  "ReceivePublicIPs public_ips st =
     (let known4 =
        foldl (\<lambda>ips public_ip.
            (let addr = Address_of_ipv4 (htonl public_ip)
             in set_insert (Address_ToV6 addr) (set_insert addr ips))) [] (ipv4_addresses public_ips);
          known =
        (if length (ipv6_addresses public_ips) mod 2 \<noteq> 0 then known4
         else foldl (\<lambda>ips a. set_insert a ips) known4 (ipv6_pairs (ipv6_addresses public_ips)))
      in UpdateKnownPublicIPs known st)"

definition ReceiveIPNetworks ::
  "IPNetworkList \<Rightarrow> ConnectionTracker \<times> CollectorStats \<Rightarrow> ConnectionTracker \<times> CollectorStats" where
  "ReceiveIPNetworks networks st =
     (let known4 =
        (if length (ipv4_networks networks) mod 5 \<noteq> 0 then []
         else um_put (=) IPV4 (readNetworks (ipv4_networks networks) IPV4) []);
          known6 =
        (if length (ipv6_networks networks) mod 17 \<noteq> 0 then known4
         else um_put (=) IPV6 (readNetworks (ipv6_networks networks) IPV6) known4)
      in UpdateKnownIPNetworks known6 st)"

definition OnRecvControlMessage ::
  "NetworkFlowsControlMessage option \<Rightarrow> ConnectionTracker \<times> CollectorStats \<Rightarrow> ConnectionTracker \<times> CollectorStats" where
  "OnRecvControlMessage msg st =
     (case msg of
        None \<Rightarrow> st
      | Some m \<Rightarrow>
          (let st1 = (if cm_ip_networks m \<noteq> None then ReceivePublicIPs (public_ip_addresses m) st else st)
           in case cm_ip_networks m of None \<Rightarrow> st1 | Some l \<Rightarrow> ReceiveIPNetworks l st1))"

section \<open>The reporting loop\<close>

text \<open>
  One iteration of the loop, as far as it depends on the environment: the readings of the clocks,
  the result of the scrape, the runtime configuration at the two places where it is read, the
  result of the write, and the calls that other threads make to the tracker between the calls of
  the notifier.
\<close>

record Round =
  nr_scrape_time :: int
  nr_scrape :: "(Connection list \<times> ContainerEndpoint list) option"
  nr_steady_time :: int
  nr_time_micros :: int
  nr_message_time :: int
  nr_runtime_config :: "RuntimeConfig option"
  nr_runtime_config_limit :: "RuntimeConfig option"
  nr_write_ok :: bool
  nr_timer :: "TimerType \<Rightarrow> u64"
  nr_others_scrape :: "tracker_op list"
  nr_others_stats :: "tracker_op list"
  nr_others_rate :: "tracker_op list"
  nr_others_config :: "tracker_op list"
  nr_others_fetch :: "tracker_op list"
  nr_others_close :: "tracker_op list"
  nr_others_endpoints :: "tracker_op list"

datatype Observation = Observed_total u32 u32 u32 u32 | Observed_rate rat rat rat rat

record 't NotifierState =
  ns_tracker :: "ConnectionTracker \<times> CollectorStats"
  ns_rate_counter_last :: "TrackerStats option"
  ns_last_report_time :: int
  ns_observed :: "Observation list"
  ns_sent :: "'t NetworkConnectionInfo list"

text \<open>The local variables of \<open>RunSingle\<close>.\<close>

record RunLocals =
  lo_old_conn_state :: ConnMap
  lo_old_cep_state :: EndpointMap
  lo_time_at_last_scrape :: int
  lo_prevEnableExternalIPs :: ExternalIPsConfig

definition EndTimer :: "Round \<Rightarrow> TimerType \<Rightarrow> ConnectionTracker \<times> CollectorStats \<Rightarrow> ConnectionTracker \<times> CollectorStats" where
  "EndTimer r i st = (fst st, EndTimerAt i (nr_timer r i) (snd st))"

definition UpdateAllConnsAndEndpoints ::
  "CollectorConfig \<Rightarrow> Round \<Rightarrow> ConnectionTracker \<times> CollectorStats \<Rightarrow>
     (ConnectionTracker \<times> CollectorStats) \<times> bool" where
  "UpdateAllConnsAndEndpoints config r st =
     (if cc_turn_off_scrape config then (st, True)
      else
        (let st1 = EndTimer r net_scrape_read st
         in case nr_scrape r of
              None \<Rightarrow> (st1, False)
            | Some (all_conns, all_listen_endpoints) \<Rightarrow>
                (EndTimer r net_scrape_update
                   (Update all_conns (if cc_scrape_listen_endpoints config then all_listen_endpoints else [])
                      (nr_scrape_time r) st1), True)))"

text \<open>The rate of one counter: float arithmetic on the difference and the elapsed seconds.\<close>

definition counter_rate :: "u32 \<Rightarrow> u32 \<Rightarrow> int \<Rightarrow> rat" where
  "counter_rate new old delta_t =
     fl 24 (fl 24 (fl 24 (of_int (uint new)) - fl 24 (of_int (uint old))) / fl 24 (of_int delta_t))"

definition ReportConnectionStats :: "CollectorConfig \<Rightarrow> Round \<Rightarrow> 't NotifierState \<Rightarrow> 't NotifierState" where
  "ReportConnectionStats config r n =
     (if \<not> cc_enable_connection_stats config then n
      else
        (let stats_total = GetConnectionStats_StoredConnections (fst (ns_tracker n));
             n1 = n\<lparr>ns_observed := ns_observed n @
                      [Observed_total (ps_private (ts_inbound stats_total)) (ps_public (ts_inbound stats_total))
                         (ps_private (ts_outbound stats_total)) (ps_public (ts_outbound stats_total))],
                    ns_tracker := fold tracker_exec (nr_others_rate r) (ns_tracker n)\<rparr>;
             stats_new_counter = GetConnectionStats_NewConnectionCounters (fst (ns_tracker n1));
             now = nr_steady_time r;
             delta_t = cdiv (now - ns_last_report_time n1) 1000000000;
             n2 = (case ns_rate_counter_last n1 of
                     Some last_v \<Rightarrow>
                       if delta_t > 0 then
                         n1\<lparr>ns_observed := ns_observed n1 @
                              [Observed_rate
                                 (counter_rate (ps_private (ts_inbound stats_new_counter)) (ps_private (ts_inbound last_v)) delta_t)
                                 (counter_rate (ps_public (ts_inbound stats_new_counter)) (ps_public (ts_inbound last_v)) delta_t)
                                 (counter_rate (ps_private (ts_outbound stats_new_counter)) (ps_private (ts_outbound last_v)) delta_t)
                                 (counter_rate (ps_public (ts_outbound stats_new_counter)) (ps_public (ts_outbound last_v)) delta_t)]\<rparr>
                       else n1
                   | None \<Rightarrow> n1)
         in n2\<lparr>ns_rate_counter_last := Some stats_new_counter, ns_last_report_time := now\<rparr>))"

text \<open>The first part of an iteration: the scrape, and the statistics if it succeeded.\<close>

definition RunSingle_scrape :: "CollectorConfig \<Rightarrow> Round \<Rightarrow> 't NotifierState \<Rightarrow> 't NotifierState \<times> bool" where
  "RunSingle_scrape config r n =
     (let (st1, updated) =
        UpdateAllConnsAndEndpoints config r (fold tracker_exec (nr_others_scrape r) (ns_tracker n))
      in if \<not> updated then (n\<lparr>ns_tracker := st1\<rparr>, False)
         else (ReportConnectionStats config r (n\<lparr>ns_tracker := fold tracker_exec (nr_others_stats r) st1\<rparr>), True))"

text \<open>The connections fetched, after the External-IPs configuration is handed to the tracker.\<close>

definition FetchConns ::
  "CollectorConfig \<Rightarrow> Round \<Rightarrow> ConnectionTracker \<times> CollectorStats \<Rightarrow>
     (ConnectionTracker \<times> CollectorStats) \<times> ConnMap" where
  "FetchConns config r st =
     (let st1 = fold tracker_exec (nr_others_config r) st;
          st2 = (SetExternalIPsConfig (GetExternalIPsConf (config\<lparr>cc_runtime_config := nr_runtime_config r\<rparr>)) (fst st1),
                 snd st1)
      in FetchConnState True True (fold tracker_exec (nr_others_fetch r) st2))"

text \<open>
  The deltas that are sent, and the variables that the next iteration starts from.
\<close>

definition ConnDeltas ::
  "CollectorConfig \<Rightarrow> Round \<Rightarrow> RunLocals \<Rightarrow> ConnectionTracker \<Rightarrow> ConnMap \<Rightarrow> ConnMap \<times> ConnMap \<times> ExternalIPsConfig" where
  "ConnDeltas config r lo t new_conn_state =
     (if cc_enable_afterglow config then
        (let delta = ComputeDeltaAfterglow Connection_eq new_conn_state (lo_old_conn_state lo) []
                       (nr_time_micros r) (lo_time_at_last_scrape lo) (cc_afterglow_period_micros config);
             (old', delta') = CloseConnectionsOnExternalIPsConfigChange t
                                (lo_prevEnableExternalIPs lo) (lo_old_conn_state lo) delta
         in (UpdateOldState Connection_eq old' new_conn_state (nr_time_micros r) (cc_afterglow_period_micros config),
             delta', GetExternalIPsConf (config\<lparr>cc_runtime_config := nr_runtime_config r\<rparr>)))
      else (new_conn_state, ComputeDelta Connection_eq new_conn_state (lo_old_conn_state lo),
            lo_prevEnableExternalIPs lo))"

definition FetchDeltas ::
  "CollectorConfig \<Rightarrow> Round \<Rightarrow> RunLocals \<Rightarrow> ConnectionTracker \<times> CollectorStats \<Rightarrow>
     (ConnectionTracker \<times> CollectorStats) \<times> ConnMap \<times> EndpointMap \<times> RunLocals" where
  "FetchDeltas config r lo st =
     (let (st3, new_conn_state) = FetchConns config r st;
          st4 = fold tracker_exec (nr_others_close r) st3;
          (old_conn, delta_conn, prev) = ConnDeltas config r lo (fst st4) new_conn_state;
          (st5, new_cep_state) = FetchEndpointState True True (fold tracker_exec (nr_others_endpoints r) st4);
          delta_cep = ComputeDelta AdvertisedEndpointEquality new_cep_state (lo_old_cep_state lo)
      in (EndTimer r net_fetch_state st5, delta_conn, delta_cep,
          \<lparr>lo_old_conn_state = old_conn, lo_old_cep_state = new_cep_state,
           lo_time_at_last_scrape = nr_time_micros r, lo_prevEnableExternalIPs = prev\<rparr>))"

text \<open>
  One iteration. The answer says whether the loop goes on; it is left when a write fails.
\<close>

definition RunSingle_round ::
  "(int \<Rightarrow> 't) \<Rightarrow> CollectorConfig \<Rightarrow> Round \<Rightarrow> RunLocals \<times> 't NotifierState \<Rightarrow>
     cxx_fault + (RunLocals \<times> 't NotifierState) \<times> bool" where
  "RunSingle_round ts_of config r s =
     (let (lo, n) = s;
          (n1, updated) = RunSingle_scrape config r n
      in if \<not> updated then Inr ((lo, n1), True)
         else
           (let (st2, delta_conn, delta_cep, lo') = FetchDeltas config r lo (ns_tracker n1)
            in res_bind (CreateInfoMessage ts_of (config\<lparr>cc_runtime_config := nr_runtime_config_limit r\<rparr>)
                          (nr_message_time r) delta_conn delta_cep (snd st2)) (\<lambda>(msg, stats3).
                 (let st3 = EndTimer r net_create_message (fst st2, stats3)
                  in case msg of
                       None \<Rightarrow> Inr ((lo', n1\<lparr>ns_tracker := st3\<rparr>), True)
                     | Some m \<Rightarrow>
                         (let st4 = EndTimer r net_write_message st3
                          in if nr_write_ok r
                             then Inr ((lo', n1\<lparr>ns_tracker := st4, ns_sent := ns_sent n1 @ [m]\<rparr>), True)
                             else Inr ((lo', n1\<lparr>ns_tracker := st4\<rparr>), False))))))"

text \<open>
  The loop, over the iterations for which \<open>writer->Sleep\<close> returns true.
\<close>

fun RunSingle_loop ::
  "(int \<Rightarrow> 't) \<Rightarrow> CollectorConfig \<Rightarrow> Round list \<Rightarrow> RunLocals \<times> 't NotifierState \<Rightarrow>
     cxx_fault + RunLocals \<times> 't NotifierState" where
  "RunSingle_loop ts_of config [] s = Inr s"
| "RunSingle_loop ts_of config (r # rs) s =
     res_bind (RunSingle_round ts_of config r s) (\<lambda>(s', go_on).
       if go_on then RunSingle_loop ts_of config rs s' else Inr s')"

definition RunSingle_start :: "CollectorConfig \<Rightarrow> int \<Rightarrow> RunLocals" where
  "RunSingle_start config now =
     \<lparr>lo_old_conn_state = [], lo_old_cep_state = [], lo_time_at_last_scrape = now,
      lo_prevEnableExternalIPs = GetExternalIPsConf config\<rparr>"

definition RunSingle ::
  "(int \<Rightarrow> 't) \<Rightarrow> CollectorConfig \<Rightarrow> int \<Rightarrow> Round list \<Rightarrow> 't NotifierState \<Rightarrow> cxx_fault + 't NotifierState" where
  "RunSingle ts_of config now rs n =
     res_bind (RunSingle_loop ts_of config rs (RunSingle_start config now, n)) (\<lambda>(lo, n'). Inr n')"

text \<open>
  The thread of the notifier: one entry of the list per time that \<open>PauseUntil\<close> returns true, with
  the answer of \<open>WaitForConnectionReady\<close>, the iterations on the stream, and whether the thread is
  asked to stop. A new stream starts with no remembered state.
\<close>

record Session =
  ss_ready :: bool
  ss_start_time :: int
  ss_runtime_config :: "RuntimeConfig option"
  ss_rounds :: "Round list"
  ss_stop :: bool

fun Notifier_Run ::
  "(int \<Rightarrow> 't) \<Rightarrow> CollectorConfig \<Rightarrow> Session list \<Rightarrow> 't NotifierState \<Rightarrow> cxx_fault + 't NotifierState" where
  "Notifier_Run ts_of config [] n = Inr n"
| "Notifier_Run ts_of config (s # ss) n =
     (if \<not> ss_ready s then Inr n
      else
        res_bind (RunSingle ts_of (config\<lparr>cc_runtime_config := ss_runtime_config s\<rparr>) (ss_start_time s) (ss_rounds s) n) (\<lambda>n'.
          if ss_stop s then Inr n' else Notifier_Run ts_of config ss n'))"

end
