(* ===== verification/NotifierProps.thy ===== *)
theory NotifierProps
  imports Notifier ConfigProps ConnTrackerProps
begin

text \<open>
  Properties of the notifier: what the rate limiter leaves in a message, the wire format of
  networks, and the view that a receiver of the messages has of the connections.
\<close>

section \<open>The updates of a message\<close>

text \<open>The update of one entry of a delta.\<close>

definition conn_update :: "(int \<Rightarrow> 't) \<Rightarrow> Connection \<times> ConnStatus \<Rightarrow> 't NetworkConnectionProto" where
  "conn_update ts_of e =
     (if IsActive (snd e) then ConnToProto (fst e)
      else (ConnToProto (fst e))\<lparr>nc_close_timestamp := Some (ts_of (LastActiveTime (snd e)))\<rparr>)"

lemma conn_update_simps [simp]:
  "nc_container_id (conn_update ts_of e) = conn_container (fst e)"
  "nc_close_timestamp (conn_update ts_of e) =
     (if IsActive (snd e) then None else Some (ts_of (LastActiveTime (snd e))))"
  by (simp_all add: conn_update_def ConnToProto_def)

text \<open>
  The entries of a delta that pass the limiter: for every container the first active ones, as many
  as are left, and all inactive ones.
\<close>

fun sent_entries :: "int \<Rightarrow> (string \<Rightarrow> nat) \<Rightarrow> ConnMap \<Rightarrow> ConnMap" where
  "sent_entries L seen [] = []"
| "sent_entries L seen ((k, s) # delta) =
     (if \<not> IsActive s then (k, s) # sent_entries L seen delta
      else
        (let seen' = seen(conn_container k := Suc (seen (conn_container k)))
         in if int (seen' (conn_container k)) \<le> L then (k, s) # sent_entries L seen' delta
            else sent_entries L seen' delta))"

lemma AddConnections_loop_sent:
  assumes "CountLimiter_inv L rl"
  shows "fst (AddConnections_loop ts_of delta rl limited stats updates) =
      updates @ map (conn_update ts_of) (sent_entries L (CountLimiter_seen rl) delta) \<and>
    cs_counter (snd (snd (AddConnections_loop ts_of delta rl limited stats updates))) net_conn_rate_limited =
      cs_counter stats net_conn_rate_limited +
      of_nat (length delta - length (sent_entries L (CountLimiter_seen rl) delta)) \<and>
    length (sent_entries L (CountLimiter_seen rl) delta) \<le> length delta"
  using assms
proof (induction ts_of delta rl limited stats updates rule: AddConnections_loop.induct)
  case (2 ts_of k s delta rl limited stats updates)
  let ?c = "conn_container k"
  have seen: "CountLimiter_seen (fst (CountLimiter_Allow ?c rl)) =
      (CountLimiter_seen rl)(?c := Suc (CountLimiter_seen rl ?c))"
    using count_limiter.allow_seen [OF 2(4)] by (auto simp: fun_eq_iff)
  have ok: "snd (CountLimiter_Allow ?c rl) \<longleftrightarrow> int (Suc (CountLimiter_seen rl ?c)) \<le> L"
    using count_limiter.allow_ok [OF 2(4)] .
  obtain rl' b where a: "CountLimiter_Allow ?c rl = (rl', b)" by fastforce
  have inv: "CountLimiter_inv L rl'" using count_limiter.allow_inv [OF 2(4), of ?c] a by simp
  show ?case
  proof (cases "IsActive s")
    case False
    then show ?thesis using 2(1) [OF refl] 2(4) by (simp add: conn_update_def)
  next
    case True
    show ?thesis
    proof (cases b)
      case True
      then show ?thesis using \<open>IsActive s\<close> 2(3) [OF refl _ a [symmetric]] inv a seen ok
        by (simp add: conn_update_def)
    next
      case False
      then show ?thesis using \<open>IsActive s\<close> 2(2) [OF refl _ a [symmetric]] inv a seen ok
        by (simp add: Suc_diff_le COUNTER_INC_def le_SucI)
    qed
  qed
qed simp

lemma sent_entries_inactive:
  "filter (\<lambda>e. \<not> IsActive (snd e)) (sent_entries L seen delta) = filter (\<lambda>e. \<not> IsActive (snd e)) delta"
  by (induction delta arbitrary: seen) (auto simp: Let_def)

lemma sent_entries_active:
  "filter (\<lambda>e. IsActive (snd e) \<and> conn_container (fst e) = c) (sent_entries L seen delta) =
     take (nat L - seen c) (filter (\<lambda>e. IsActive (snd e) \<and> conn_container (fst e) = c) delta)"
proof (induction delta arbitrary: seen)
  case (Cons e delta)
  obtain k s where e: "e = (k, s)" by (cases e)
  have "nat L - seen c = Suc (nat L - Suc (seen c))" if "int (Suc (seen c)) \<le> L" using that by linarith
  moreover have "nat L - seen c = 0" "nat L - Suc (seen c) = 0" if "\<not> int (Suc (seen c)) \<le> L"
    using that by linarith+
  ultimately show ?case using Cons e
    by (cases "IsActive s"; cases "conn_container k = c"; cases "int (Suc (seen (conn_container k))) \<le> L") simp_all
qed simp

lemma AddConnections_eq:
  assumes "PerContainerRateLimit config = Inr L"
  shows "\<exists>limited stats'. AddConnections ts_of config delta stats =
      Inr (map (conn_update ts_of) (sent_entries L (\<lambda>_. 0) delta), limited, stats') \<and>
    cs_counter stats' net_conn_rate_limited =
      cs_counter stats net_conn_rate_limited + of_nat (length delta - length (sent_entries L (\<lambda>_. 0) delta))"
proof -
  obtain ups limited stats' where a:
    "AddConnections_loop ts_of delta (CountLimiter_mk L) [] stats [] = (ups, limited, stats')"
    by (metis prod_cases3)
  have "CountLimiter_seen (CountLimiter_mk L) = (\<lambda>_. 0)" using count_limiter.init_seen by (rule ext)
  then show ?thesis
    using AddConnections_loop_sent [OF count_limiter.init_inv [of L], where ts_of = ts_of and delta = delta
        and limited = "[]" and stats = stats and updates = "[]"] a assms
    by (simp add: AddConnections_def)
qed

text \<open>
  C11: the connections of a message. Every close event of the delta is in it; of the other events of a
  container, the first ones up to the limit are, in the order of the delta; the others are counted.
\<close>

theorem AddConnections_limits:
  assumes "PerContainerRateLimit config = Inr L"
  shows "\<exists>updates limited stats'. AddConnections ts_of config delta stats = Inr (updates, limited, stats') \<and>
    filter (\<lambda>u. nc_close_timestamp u \<noteq> None) updates =
      map (\<lambda>(k, s). (ConnToProto k)\<lparr>nc_close_timestamp := Some (ts_of (LastActiveTime s))\<rparr>)
        (filter (\<lambda>(k, s). \<not> IsActive s) delta) \<and>
    (\<forall>c. filter (\<lambda>u. nc_close_timestamp u = None \<and> nc_container_id u = c) updates =
       take (nat L) (map (\<lambda>(k, s). ConnToProto k) (filter (\<lambda>(k, s). IsActive s \<and> conn_container k = c) delta))) \<and>
    cs_counter stats' net_conn_rate_limited =
      cs_counter stats net_conn_rate_limited + of_nat (length delta - length updates)"
proof -
  let ?sent = "sent_entries L (\<lambda>_. 0) delta"
  obtain limited stats' where eq: "AddConnections ts_of config delta stats = Inr (map (conn_update ts_of) ?sent, limited, stats')"
    and cnt: "cs_counter stats' net_conn_rate_limited =
      cs_counter stats net_conn_rate_limited + of_nat (length delta - length ?sent)"
    using AddConnections_eq [OF assms] by blast
  have "filter (\<lambda>u. nc_close_timestamp u \<noteq> None) (map (conn_update ts_of) ?sent) =
      map (conn_update ts_of) (filter (\<lambda>e. \<not> IsActive (snd e)) delta)"
    by (simp add: filter_map comp_def sent_entries_inactive)
  moreover have "map (conn_update ts_of) (filter (\<lambda>e. \<not> IsActive (snd e)) delta) =
      map (\<lambda>(k, s). (ConnToProto k)\<lparr>nc_close_timestamp := Some (ts_of (LastActiveTime s))\<rparr>)
        (filter (\<lambda>(k, s). \<not> IsActive s) delta)"
    by (simp add: conn_update_def split_def)
  moreover have "filter (\<lambda>u. nc_close_timestamp u = None \<and> nc_container_id u = c) (map (conn_update ts_of) ?sent) =
      take (nat L) (map (\<lambda>(k, s). ConnToProto k) (filter (\<lambda>(k, s). IsActive s \<and> conn_container k = c) delta))" for c
  proof -
    have "filter (\<lambda>u. nc_close_timestamp u = None \<and> nc_container_id u = c) (map (conn_update ts_of) ?sent) =
        map (conn_update ts_of) (filter (\<lambda>e. IsActive (snd e) \<and> conn_container (fst e) = c) ?sent)"
      by (auto simp: filter_map comp_def intro: arg_cong [where f = "map (conn_update ts_of)"] filter_cong)
    also have "\<dots> = take (nat L) (map (conn_update ts_of) (filter (\<lambda>e. IsActive (snd e) \<and> conn_container (fst e) = c) delta))"
      using sent_entries_active [of c L "\<lambda>_. 0" delta] by (simp add: take_map)
    also have "map (conn_update ts_of) (filter (\<lambda>e. IsActive (snd e) \<and> conn_container (fst e) = c) delta) =
        map (\<lambda>(k, s). ConnToProto k) (filter (\<lambda>(k, s). IsActive s \<and> conn_container k = c) delta)"
      by (auto simp: conn_update_def split_def)
    finally show ?thesis .
  qed
  ultimately show ?thesis using eq cnt by fastforce
qed

section \<open>The wire format of networks\<close>

lemma unat_scast_byte: "b < 128 \<Longrightarrow> unat (scast (of_nat b :: u8) :: u64) = b"
proof -
  assume b: "b < 128"
  then have "sint (of_nat b :: u8) = int b"
    by (simp add: signed_of_nat signed_take_bit_int_eq_self)
  then have "(scast (of_nat b :: u8) :: u64) = of_nat b" unfolding scast_eq by (simp only: of_int_of_nat_eq)
  then show ?thesis using b by (simp only: unat_of_nat) simp
qed

lemma readNetwork_wire:
  assumes "F \<noteq> UNKNOWN" "addr_family a = F" "Address_of_bytes F (Address_bytes a) = a" "b \<le> 8 * Address_Length F"
  shows "readNetwork F (take (Address_Length F) (Address_bytes a) @ [of_nat b]) = IPNet_mk a b False"
proof -
  have len: "length (Address_bytes a) = 16" by (simp add: Address_bytes_def le_bytes_def)
  have le: "Address_Length F \<le> 16" by (cases F) (simp_all add: Address_Length_def)
  have "Address_of_bytes F (take (Address_Length F) (Address_bytes a) @ [of_nat b]) = a"
    using assms(3) le len by (simp add: Address_of_bytes_def)
  moreover have "(take (Address_Length F) (Address_bytes a) @ [of_nat b :: u8]) ! Address_Length F = of_nat b"
    using le len by (simp add: nth_append)
  moreover have "IPNet_mk a (unat (scast (of_nat b :: u8) :: u64)) False = IPNet_mk a b False"
  proof (cases "b < 128")
    case True
    then show ?thesis by (simp only: unat_scast_byte)
  next
    case False
    then have "F = IPV6 \<and> b = 128" using assms(1,4) by (cases F) (auto simp: Address_Length_def)
    then show ?thesis using assms(2) by (simp add: IPNet_mk_def Address_Length_def)
  qed
  ultimately show ?thesis by (simp add: readNetwork_def)
qed

lemma chunks_concat:
  assumes "\<forall>x \<in> set xs. length (f x) = k" "i < length xs"
  shows "take k (drop (k * i) (concat (map f xs))) = f (xs ! i)"
  using assms
proof (induction xs arbitrary: i)
  case (Cons x xs)
  then show ?case by (cases i) simp_all
qed simp

lemma readNetworks_concat:
  assumes "\<forall>x \<in> set xs. length (f x) = Suc (Address_Length F)"
  shows "readNetworks (concat (map f xs)) F = map (\<lambda>x. readNetwork F (f x)) xs"
proof -
  have "length (concat (map f xs)) = Suc (Address_Length F) * length xs"
    using assms by (induction xs) simp_all
  then have n: "length (concat (map f xs)) div Suc (Address_Length F) = length xs"
    by (metis nonzero_mult_div_cancel_left nat.simps(3))
  show ?thesis
    using chunks_concat [OF assms]
    by (auto simp: readNetworks_def n simp del: length_concat intro!: nth_equalityI)
qed

text \<open>
  the wire format of networks: reading back the networks that the notifier writes for its
  endpoints gives these networks, for any number of them in one string, all of one family.
\<close>

theorem readNetworks_written:
  assumes "F \<noteq> UNKNOWN"
    and "\<forall>e \<in> set es. \<exists>a b. ep_network e = IPNet_mk a b False \<and> 0 < b \<and> b \<le> 8 * Address_Length F \<and>
      addr_family a = F \<and> Address_of_bytes F (Address_bytes a) = a"
  shows "readNetworks (concat (map (\<lambda>e. na_ip_network (the (EndpointToProto e))) es)) F = map ep_network es"
proof -
  have wire: "length (na_ip_network (the (EndpointToProto e))) = Suc (Address_Length F) \<and>
      readNetwork F (na_ip_network (the (EndpointToProto e))) = ep_network e" if m: "e \<in> set es" for e
  proof -
    obtain a b where e: "ep_network e = IPNet_mk a b False" "0 < b" "b \<le> 8 * Address_Length F"
      "addr_family a = F" "Address_of_bytes F (Address_bytes a) = a"
      using assms(2) m by blast
    have "net_bits (ep_network e) = b" using e by (simp add: net_bits_mk)
    then have "na_ip_network (the (EndpointToProto e)) = take (Address_Length F) (Address_bytes a) @ [of_nat b]"
      using e by (simp add: EndpointToProto_def Endpoint_IsNull_def IPNet_IsNull_def Endpoint_address_def
          Address_length_def Let_def)
    moreover have "Address_Length F \<le> length (Address_bytes a)"
      by (cases F) (simp_all add: Address_Length_def Address_bytes_def le_bytes_def)
    ultimately show ?thesis using readNetwork_wire [OF assms(1) e(4,5,3)] e(1) by simp
  qed
  then show ?thesis using readNetworks_concat [of es "\<lambda>e. na_ip_network (the (EndpointToProto e))" F]
    by (auto intro!: map_cong)
qed

section \<open>Control messages\<close>

lemma set_foldl_insert: "set (foldl (\<lambda>ips a. set_insert a ips) known xs) = set known \<union> set xs"
  by (induction xs arbitrary: known) (auto simp: set_insert_def)

lemma set_foldl_insert_v4:
  "set (foldl (\<lambda>ips ip. (let addr = f ip in set_insert (g addr) (set_insert addr ips))) known xs) =
     set known \<union> f ` set xs \<union> (g \<circ> f) ` set xs"
  by (induction xs arbitrary: known) (auto simp: set_insert_def Let_def)

text \<open>
  what a control message does to the known public addresses. They are replaced exactly when the
  message has networks, so public addresses that come alone are ignored, and networks that come
  alone erase the known ones. The new ones are the IPv4 addresses of the message, each also in its
  mapped form, and its IPv6 addresses if their words pair up.
\<close>

theorem OnRecvControlMessage_public_ips:
  "set (known_public_ips (fst (OnRecvControlMessage (Some m) st))) =
     (if cm_ip_networks m = None then set (known_public_ips (fst st))
      else (let ips = public_ip_addresses m; v4 = (\<lambda>ip. Address_of_ipv4 (htonl ip)) ` set (ipv4_addresses ips)
            in v4 \<union> Address_ToV6 ` v4 \<union>
               (if even (length (ipv6_addresses ips)) then set (ipv6_pairs (ipv6_addresses ips)) else {})))"
proof -
  have nets: "known_public_ips (fst (ReceiveIPNetworks l st)) = known_public_ips (fst st)" for l st
    by (simp add: ReceiveIPNetworks_def UpdateKnownIPNetworks_def Let_def case_prod_beta)
  have ips: "set (known_public_ips (fst (ReceivePublicIPs l st))) =
      (let v4 = (\<lambda>ip. Address_of_ipv4 (htonl ip)) ` set (ipv4_addresses l)
       in v4 \<union> Address_ToV6 ` v4 \<union> (if even (length (ipv6_addresses l)) then set (ipv6_pairs (ipv6_addresses l)) else {}))" for l
  proof -
    have "length (ipv6_addresses l) mod 2 \<noteq> 0 \<longleftrightarrow> \<not> even (length (ipv6_addresses l))" by presburger
    then show ?thesis
      unfolding ReceivePublicIPs_def UpdateKnownPublicIPs_def Let_def
      using set_foldl_insert_v4 [of "\<lambda>ip. Address_of_ipv4 (htonl ip)" Address_ToV6 "[]" "ipv4_addresses l", unfolded Let_def]
      by (simp add: set_foldl_insert image_comp comp_def)
  qed
  show ?thesis
    by (cases "cm_ip_networks m") (simp_all add: OnRecvControlMessage_def nets ips Let_def)
qed

section \<open>Examples\<close>

theorem AddConnections_limits_witness:
  "PerContainerRateLimit example_config = Inr 1024 \<and>
   (\<exists>updates limited stats'. AddConnections id example_config [(example_conn, ConnStatus_mk 7 False)] CollectorStats_new =
      Inr (updates, limited, stats') \<and>
    filter (\<lambda>u. nc_close_timestamp u \<noteq> None) updates = [(ConnToProto example_conn)\<lparr>nc_close_timestamp := Some 7\<rparr>])"
proof -
  have "PerContainerRateLimit example_config = Inr 1024"
    by (simp add: PerContainerRateLimit_def MaxConnectionsPerMinute_def example_config_def
        fl_numeral round_away_def floor_eq_iff)
  then show ?thesis
    using AddConnections_limits [of example_config 1024 id "[(example_conn, ConnStatus_mk 7 False)]" CollectorStats_new]
    by (auto simp: LastActiveTime_mk)
qed

theorem readNetworks_written_witness:
  "readNetworks (na_ip_network (the (EndpointToProto
      (Endpoint_of_network (IPNet_mk (Address_of_ipv6 1 2) 128 False) 0)))) IPV6 = [IPNet_mk (Address_of_ipv6 1 2) 128 False]"
proof -
  have "Address_of_bytes IPV6 (Address_bytes (Address_of_ipv6 1 2)) = Address_of_ipv6 1 2"
    by (simp add: Address_of_bytes_def Address_bytes_def Address_Length_def Address_of_ipv6_def le_bytes_def)
  then show ?thesis
    using readNetworks_written [of IPV6 "[Endpoint_of_network (IPNet_mk (Address_of_ipv6 1 2) 128 False) 0]"]
    by (force simp: Endpoint_of_network_def Address_Length_def Address_of_ipv6_def)
qed

end
