(* ===== verification/NotifierView.thy ===== *)
theory NotifierView
  imports NotifierProps ConfigProps
begin

text \<open>
  What the receiver of the notifier's messages sees. The receiver keeps the connections that were
  reported and not closed; over the iterations of the loop, with and without afterglow, with any
  rate limit and any calls of other threads to the tracker, it never keeps one that the notifier
  no longer remembers as active.
\<close>

section \<open>Entries of a container\<close>

context key_equality
begin

lemma mem_lookup:
  assumes "um_distinct eq m" "um_keys m \<subseteq> C" "(k, s) \<in> set m"
  shows "um_lookup eq k m = Some s"
  using assms
proof (induction m)
  case (Cons e m)
  have e: "fst e \<in> C" and k: "k \<in> C" using Cons.prems by (auto simp: um_keys_def)
  show ?case
  proof (cases "e = (k, s)")
    case True
    then show ?thesis using eq_refl [OF k] by simp
  next
    case False
    then have m: "(k, s) \<in> set m" using Cons.prems by simp
    then have "\<not> eq (fst e) k" using Cons.prems(1) by force
    then have "\<not> eq k (fst e)" using eq_sym [OF k e] by blast
    then show ?thesis using Cons m by simp
  qed
qed simp

lemma lookup_mem:
  assumes "um_lookup eq x m = Some s"
  shows "\<exists>k. (k, s) \<in> set m \<and> eq x k"
  using um_lookup_SomeD [OF assms] by force

lemma distinct_ComputeDelta:
  assumes "um_distinct eq new" "um_keys new \<subseteq> C" "um_distinct eq old" "um_keys old \<subseteq> C"
  shows "um_distinct eq (ComputeDelta eq new old) \<and> um_keys (ComputeDelta eq new old) \<subseteq> C"
proof -
  have close: "um_distinct eq m \<Longrightarrow> um_distinct eq (ComputeDelta_close eq new m) \<and>
      um_keys (ComputeDelta_close eq new m) \<subseteq> um_keys m" for m
  proof (induction m)
    case (Cons e m)
    have "\<not> eq (fst e) k" if "k \<in> um_keys (ComputeDelta_close eq new m)" for k
    proof -
      have "k \<in> um_keys m" using Cons that by auto
      then show ?thesis using Cons.prems by (auto simp: um_keys_def)
    qed
    then show ?case using Cons by (auto simp: um_keys_def)
  qed simp
  show ?thesis
    using fold_alters [OF alters_ComputeDelta_insert assms] close unfolding ComputeDelta_def by blast
qed

lemma distinct_ComputeDeltaAfterglow:
  assumes "um_distinct eq new" "um_keys new \<subseteq> C" "um_distinct eq old" "um_keys old \<subseteq> C"
  shows "um_distinct eq (ComputeDeltaAfterglow eq new old [] t t_last p) \<and>
    um_keys (ComputeDeltaAfterglow eq new old [] t t_last p) \<subseteq> C"
proof -
  let ?g = "\<lambda>h st e. case h (fst e) (snd e) of None \<Rightarrow> st | Some d \<Rightarrow> fst (um_insert eq (fst e) d st)"
  have step: "um_distinct eq (foldl (?g h) m xs) \<and> um_keys (foldl (?g h) m xs) \<subseteq> C"
    if "um_distinct eq xs" "um_keys xs \<subseteq> C" "um_distinct eq m" "um_keys m \<subseteq> C" for h and xs m :: "('k, ConnStatus) umap"
    using fold_alters [OF alters_insert_opt that] by blast
  show ?thesis
    unfolding ComputeDeltaAfterglow_def Let_def afterglow_new_step afterglow_old_step
    by (intro step [OF assms(3,4)] step [OF assms(1,2), THEN conjunct1] step [OF assms(1,2), THEN conjunct2]) simp_all
qed

lemma keys_FetchState:
  "um_keys fetched \<subseteq> um_keys (fst (FetchState eq clear (Some f) ff fetched m))"
proof (induction m arbitrary: fetched)
  case (Cons e m)
  show ?case
    using Cons [of fetched]
      Cons [of "let (m1, inserted) = um_insert eq (f (fst e)) (snd e) fetched
        in if \<not> inserted then um_update eq (f (fst e)) (MergeFrom (snd e)) m1 else m1"]
    by (auto simp: Let_def case_prod_beta um_insert_def split: option.splits)
qed simp

lemma distinct_FetchState:
  assumes "um_distinct eq fetched" "um_keys (fst (FetchState eq clear (Some f) ff fetched m)) \<subseteq> C"
  shows "um_distinct eq (fst (FetchState eq clear (Some f) ff fetched m))"
  using assms
proof (induction m arbitrary: fetched)
  case (Cons e m)
  obtain k s where e: "e = (k, s)" by (cases e)
  let ?m1 = "fst (um_insert eq (f k) s fetched)"
  let ?f' = "if \<not> snd (um_insert eq (f k) s fetched) then um_update eq (f k) (MergeFrom s) ?m1 else ?m1"
  have keys': "um_keys ?f' = um_keys ?m1" by simp
  show ?case
  proof (cases "passes ff k")
    case False
    then have "fst (FetchState eq clear (Some f) ff fetched (e # m)) = fst (FetchState eq clear (Some f) ff fetched m)"
      using e by (cases ff) (simp_all add: Let_def case_prod_beta passes_def)
    then show ?thesis using Cons by simp
  next
    case True
    then have eq: "fst (FetchState eq clear (Some f) ff fetched (e # m)) = fst (FetchState eq clear (Some f) ff ?f' m)"
      using e by (cases ff) (simp_all add: Let_def case_prod_beta passes_def)
    then have sub: "um_keys ?m1 \<subseteq> C" using keys_FetchState [of ?f' clear f ff m] Cons.prems(2) keys' by auto
    have "um_distinct eq ?m1"
    proof (cases "um_find eq (f k) fetched")
      case None
      then have "f k \<in> C" "um_keys fetched \<subseteq> C" using sub by (auto simp: um_insert_def um_keys_def)
      then show ?thesis using distinct_insert [OF Cons.prems(1)] by blast
    qed (use Cons.prems(1) in \<open>simp add: um_insert_def\<close>)
    then show ?thesis unfolding eq using Cons.IH [of ?f'] Cons.prems(2) eq by simp
  qed
qed simp

lemma find_filter:
  assumes "um_distinct eq m" "um_keys m \<subseteq> C" "x \<in> C"
  shows "um_find eq x (filter Q m) = (case um_find eq x m of None \<Rightarrow> None | Some e \<Rightarrow> if Q e then Some e else None)"
  using assms
proof (induction m)
  case (Cons e m)
  have e: "fst e \<in> C" using Cons.prems by simp
  have "um_find eq x m = None" if "eq x (fst e)"
  proof -
    have "um_lookup eq (fst e) m = None" using Cons.prems(1) by (simp add: um_lookup_None_iff)
    then have "um_lookup eq x m = None"
      using lookup_cong [OF assms(3) e _ that, of m] Cons.prems(2) by simp
    then show ?thesis by (simp add: um_find_None_lookup)
  qed
  then show ?case using Cons by auto
qed simp

end

lemma find_map_value:
  "um_find eq x (map (\<lambda>(k, s). (k, g s)) m) = map_option (\<lambda>(k, s). (k, g s)) (um_find eq x m)"
  by (induction m) auto

text \<open>
  What closing connections does to the entry of one key in the old state and the delta: nothing, or
  it is taken from the old state and reported closed unless the delta has it.
\<close>

definition closing :: "Connection set \<Rightarrow> ConnMap \<Rightarrow> ConnMap \<Rightarrow> ConnMap \<Rightarrow> ConnMap \<Rightarrow> bool" where
  "closing C old delta old' delta' \<longleftrightarrow>
     um_distinct Connection_eq old' \<and> um_keys old' \<subseteq> C \<and> um_distinct Connection_eq delta' \<and> um_keys delta' \<subseteq> C \<and>
     (\<forall>x \<in> C.
        um_lookup Connection_eq x old' = um_lookup Connection_eq x old \<and>
        um_lookup Connection_eq x delta' = um_lookup Connection_eq x delta \<or>
        (\<exists>s. um_lookup Connection_eq x old = Some s \<and> um_lookup Connection_eq x old' = None \<and>
           um_lookup Connection_eq x delta' =
             Some (case um_lookup Connection_eq x delta of Some d \<Rightarrow> d | None \<Rightarrow> SetActive False s)))"

lemma closing_entry:
  "closing C old delta old' delta' \<Longrightarrow> x \<in> C \<Longrightarrow>
     um_lookup Connection_eq x old' = um_lookup Connection_eq x old \<and>
     um_lookup Connection_eq x delta' = um_lookup Connection_eq x delta \<or>
     (\<exists>s. um_lookup Connection_eq x old = Some s \<and> um_lookup Connection_eq x old' = None \<and>
        um_lookup Connection_eq x delta' =
          Some (case um_lookup Connection_eq x delta of Some d \<Rightarrow> d | None \<Rightarrow> SetActive False s))"
  unfolding closing_def by blast

lemma closing_refl:
  "um_distinct Connection_eq old \<Longrightarrow> um_keys old \<subseteq> C \<Longrightarrow> um_distinct Connection_eq delta \<Longrightarrow> um_keys delta \<subseteq> C \<Longrightarrow>
   closing C old delta old delta"
  by (simp add: closing_def)

lemma closing_trans:
  assumes "closing C old delta old' delta'" "closing C old' delta' old'' delta''"
  shows "closing C old delta old'' delta''"
  using assms unfolding closing_def by (metis option.distinct(1))

lemma closing_CloseConnections:
  assumes "key_equality Connection_eq C" "um_distinct Connection_eq old" "um_keys old \<subseteq> C"
    "um_distinct Connection_eq delta" "um_keys delta \<subseteq> C" "CloseConnections P old delta = (old', delta')"
  shows "closing C old delta old' delta'"
proof -
  let ?sel = "filter (\<lambda>(k, s). P k) old"
  let ?m = "map (\<lambda>(k, s). (k, SetActive False s)) ?sel"
  have old': "old' = filter (\<lambda>(k, s). \<not> P k) old" using CloseConnections_old [of P old delta] assms(6) by simp
  have delta': "delta' = foldl (\<lambda>d (k, s). fst (um_insert Connection_eq k s d)) delta ?m"
    using CloseConnections_delta [of P old delta] assms(6) by simp
  have sel: "um_distinct Connection_eq ?sel" "um_keys ?sel \<subseteq> C"
    using um_distinct_filter [OF assms(2)] subset_trans [OF um_keys_filter assms(3)] by simp_all
  then have m: "um_distinct Connection_eq ?m" "um_keys ?m \<subseteq> C" by simp_all
  note fold = key_equality.fold_alters [OF assms(1) key_equality.alters_insert [OF assms(1)] m assms(4,5)]
  have "um_lookup Connection_eq x old' = um_lookup Connection_eq x old \<and>
        um_lookup Connection_eq x delta' = um_lookup Connection_eq x delta \<or>
        (\<exists>s. um_lookup Connection_eq x old = Some s \<and> um_lookup Connection_eq x old' = None \<and>
           um_lookup Connection_eq x delta' =
             Some (case um_lookup Connection_eq x delta of Some d \<Rightarrow> d | None \<Rightarrow> SetActive False s))"
    if x: "x \<in> C" for x
  proof -
    note find = key_equality.find_filter [OF assms(1-3) x]
    have d: "um_lookup Connection_eq x delta' = (case um_find Connection_eq x ?m of
        None \<Rightarrow> um_lookup Connection_eq x delta
      | Some (k, s) \<Rightarrow> Some (case um_lookup Connection_eq x delta of None \<Rightarrow> s | Some w \<Rightarrow> w))"
      unfolding delta' using fold x by blast
    show ?thesis
      unfolding d unfolding old' find_map_value find um_lookup_def [of _ _ "filter _ _"] um_lookup_def [of _ _ old]
      by (cases "um_find Connection_eq x old") (auto split: option.split)
  qed
  moreover have "um_distinct Connection_eq old'" "um_keys old' \<subseteq> C"
    unfolding old' using um_distinct_filter [OF assms(2)] subset_trans [OF um_keys_filter assms(3)] by simp_all
  ultimately show ?thesis unfolding closing_def using fold delta' by blast
qed

lemma closing_config_change:
  assumes "key_equality Connection_eq C" "um_distinct Connection_eq old" "um_keys old \<subseteq> C"
    "um_distinct Connection_eq delta" "um_keys delta \<subseteq> C"
    "CloseConnectionsOnExternalIPsConfigChange t prev old delta = (old', delta')"
  shows "closing C old delta old' delta'"
proof -
  obtain old1 delta1 where 1:
    "(if IsEnabled (external_ips_config t) DirEGRESS \<noteq> IsEnabled prev DirEGRESS
      then CloseConnections (\<lambda>conn. \<not> Connection_is_server conn \<and>
             should_close t conn (IsEnabled (external_ips_config t) DirEGRESS)) old delta
      else (old, delta)) = (old1, delta1)" by fastforce
  then have c1: "closing C old delta old1 delta1"
    using closing_CloseConnections [OF assms(1-5)] closing_refl [OF assms(2-5)] by (auto split: if_splits)
  then have "um_distinct Connection_eq old1" "um_keys old1 \<subseteq> C" "um_distinct Connection_eq delta1" "um_keys delta1 \<subseteq> C"
    by (simp_all add: closing_def)
  then have "closing C old1 delta1 old' delta'"
    using assms(6) 1 closing_CloseConnections [OF assms(1)] closing_refl
    unfolding CloseConnectionsOnExternalIPsConfigChange_def Let_def 1 by (auto split: if_splits)
  with c1 show ?thesis by (rule closing_trans)
qed

section \<open>The receiver\<close>

text \<open>
  The receiver opens a connection when it is reported without a closing time and closes it when it
  is reported with one.
\<close>

definition apply_update :: "'t NetworkConnectionProto \<Rightarrow> 't NetworkConnectionProto set \<Rightarrow> 't NetworkConnectionProto set" where
  "apply_update u V =
     (if nc_close_timestamp u = None then insert u V else V - {u\<lparr>nc_close_timestamp := None\<rparr>})"

definition receiver_view :: "'t NetworkConnectionInfo list \<Rightarrow> 't NetworkConnectionProto set" where
  "receiver_view msgs = fold (\<lambda>m. fold apply_update (ni_updated_connections m)) msgs {}"

text \<open>The connections of a state whose status satisfies a predicate, as the messages name them.\<close>

definition view_of :: "(ConnStatus \<Rightarrow> bool) \<Rightarrow> ConnMap \<Rightarrow> 't NetworkConnectionProto set" where
  "view_of f m = {ConnToProto k |k s. (k, s) \<in> set m \<and> f s}"

text \<open>The messages distinguish the connections of a set exactly as the containers do.\<close>

definition proto_keys :: "Connection set \<Rightarrow> bool" where
  "proto_keys C \<longleftrightarrow> (\<forall>k \<in> C. \<forall>k' \<in> C.
     Connection_eq k k' \<longleftrightarrow> (ConnToProto k :: unit NetworkConnectionProto) = ConnToProto k')"

lemma proto_keysD:
  "proto_keys C \<Longrightarrow> k \<in> C \<Longrightarrow> k' \<in> C \<Longrightarrow>
   Connection_eq k k' \<longleftrightarrow> (ConnToProto k :: 't NetworkConnectionProto) = ConnToProto k'"
  unfolding proto_keys_def by (simp add: ConnToProto_def)

lemma proto_keys_equality: "proto_keys C \<Longrightarrow> key_equality Connection_eq C"
  unfolding key_equality_def proto_keys_def by simp

lemma apply_update_conn:
  "apply_update (conn_update ts_of e) V =
     (if IsActive (snd e) then insert (ConnToProto (fst e)) V else V - {ConnToProto (fst e)})"
  by (simp add: apply_update_def conn_update_def ConnToProto_def)

lemma fold_updates_subset:
  "fold apply_update (map (conn_update ts_of) es) V \<subseteq>
     view_of IsActive es \<union> (V - view_of (\<lambda>s. \<not> IsActive s) es)"
proof (induction es arbitrary: V)
  case (Cons e es)
  then show ?case
    by (cases e) (fastforce simp: apply_update_conn view_of_def split: if_splits)
qed (simp add: view_of_def)

lemma fold_updates_superset:
  assumes "q \<notin> view_of (\<lambda>s. \<not> IsActive s) es" "q \<in> V \<or> q \<in> view_of IsActive es"
  shows "q \<in> fold apply_update (map (conn_update ts_of) es) V"
  using assms
proof (induction es arbitrary: V)
  case (Cons e es)
  have "q \<notin> view_of (\<lambda>s. \<not> IsActive s) es" using Cons.prems(1) by (auto simp: view_of_def)
  moreover have "q \<in> apply_update (conn_update ts_of e) V \<or> q \<in> view_of IsActive es"
    using Cons.prems by (cases e) (auto simp: apply_update_conn view_of_def)
  ultimately show ?case using Cons.IH by simp
qed (simp add: view_of_def)

lemma mem_view:
  assumes "proto_keys C" "um_distinct Connection_eq m" "um_keys m \<subseteq> C" "x \<in> C"
  shows "(ConnToProto x :: 't NetworkConnectionProto) \<in> view_of f m \<longleftrightarrow> (\<exists>s. um_lookup Connection_eq x m = Some s \<and> f s)"
proof -
  note ke = proto_keys_equality [OF assms(1)]
  have key: "k \<in> C" if "(k, s) \<in> set m" for k s using assms(3) that by (auto simp: um_keys_def)
  show ?thesis
  proof
    assume "(ConnToProto x :: 't NetworkConnectionProto) \<in> view_of f m"
    then obtain k s where k: "(k, s) \<in> set m" "f s"
      "(ConnToProto x :: 't NetworkConnectionProto) = ConnToProto k" unfolding view_of_def by blast
    then have "Connection_eq x k" using proto_keysD [OF assms(1,4) key [OF k(1)]] by blast
    then have "um_lookup Connection_eq x m = Some s"
      using key_equality.lookup_cong [OF ke assms(4) key [OF k(1)] assms(3)]
        key_equality.mem_lookup [OF ke assms(2,3) k(1)] by simp
    then show "\<exists>s. um_lookup Connection_eq x m = Some s \<and> f s" using k(2) by blast
  next
    assume "\<exists>s. um_lookup Connection_eq x m = Some s \<and> f s"
    then obtain s where s: "um_lookup Connection_eq x m = Some s" "f s" by blast
    obtain k where k: "(k, s) \<in> set m" "Connection_eq x k"
      using key_equality.lookup_mem [OF ke s(1)] by blast
    then have "(ConnToProto x :: 't NetworkConnectionProto) = ConnToProto k"
      using proto_keysD [OF assms(1,4) key [OF k(1)]] by blast
    then show "(ConnToProto x :: 't NetworkConnectionProto) \<in> view_of f m"
      using k(1) s(2) unfolding view_of_def by blast
  qed
qed

lemma view_of_key: "q \<in> view_of f m \<Longrightarrow> um_keys m \<subseteq> C \<Longrightarrow> \<exists>x \<in> C. q = ConnToProto x"
proof -
  assume "q \<in> view_of f m" "um_keys m \<subseteq> C"
  then obtain k s where "q = ConnToProto k" "(k, s) \<in> set m" unfolding view_of_def by blast
  then show ?thesis using image_eqI [of k fst "(k, s)" "set m"] \<open>um_keys m \<subseteq> C\<close> by (auto simp: um_keys_def)
qed

lemma fold_updates_full:
  assumes "proto_keys C" "um_distinct Connection_eq delta" "um_keys delta \<subseteq> C"
  shows "fold apply_update (map (conn_update ts_of) delta) V =
    view_of IsActive delta \<union> (V - view_of (\<lambda>s. \<not> IsActive s) delta)"
proof
  show "view_of IsActive delta \<union> (V - view_of (\<lambda>s. \<not> IsActive s) delta) \<subseteq>
      fold apply_update (map (conn_update ts_of) delta) V"
  proof
    fix q assume q: "q \<in> view_of IsActive delta \<union> (V - view_of (\<lambda>s. \<not> IsActive s) delta)"
    have "q \<notin> view_of (\<lambda>s. \<not> IsActive s) delta"
    proof
      assume c: "q \<in> view_of (\<lambda>s. \<not> IsActive s) delta"
      obtain x where x: "x \<in> C" "q = ConnToProto x" using view_of_key [OF c assms(3)] by blast
      show False using q c unfolding x(2) Un_iff Diff_iff mem_view [OF assms x(1)] by auto
    qed
    then show "q \<in> fold apply_update (map (conn_update ts_of) delta) V"
      using q by (intro fold_updates_superset) auto
  qed
qed (rule fold_updates_subset)

lemma view_step_plain:
  assumes "proto_keys C" "um_distinct Connection_eq new" "um_keys new \<subseteq> C"
    "um_distinct Connection_eq old" "um_keys old \<subseteq> C"
  defines "delta \<equiv> ComputeDelta Connection_eq new old"
  shows "view_of IsActive delta \<union> (view_of IsActive old - view_of (\<lambda>s. \<not> IsActive s) delta) =
    (view_of IsActive new :: 't NetworkConnectionProto set)"
  (is "?lhs = ?rhs")
proof -
  note ke = proto_keys_equality [OF assms(1)]
  have d: "um_distinct Connection_eq delta" "um_keys delta \<subseteq> C"
    unfolding delta_def using key_equality.distinct_ComputeDelta [OF ke assms(2-5)] by simp_all
  note mem = mem_view [OF assms(1)]
  have x: "ConnToProto x \<in> ?lhs \<longleftrightarrow> ConnToProto x \<in> ?rhs" if "x \<in> C" for x
    using key_equality.lookup_ComputeDelta [OF ke assms(2-5) that]
    unfolding mem [OF d that] mem [OF assms(2,3) that] mem [OF assms(4,5) that] Un_iff Diff_iff
    by (cases "um_lookup Connection_eq x old"; cases "um_lookup Connection_eq x new")
       (auto simp: delta_def delta_entry_def)
  have "q \<in> ?lhs \<longleftrightarrow> q \<in> ?rhs" for q
  proof -
    have "\<exists>y \<in> C. q = ConnToProto y" if "q \<in> ?lhs \<or> q \<in> ?rhs"
      using that view_of_key [OF _ d(2)] view_of_key [OF _ assms(3)] view_of_key [OF _ assms(5)] by blast
    then show ?thesis using x by blast
  qed
  then show ?thesis by blast
qed

text \<open>The same for one key, over the entries of the states and the delta.\<close>

lemma view_entry_kept:
  assumes "t_last \<le> t"
    and "(\<exists>s. afterglow_entry t t_last p old new = Some s \<and> IsActive s) \<or>
      (\<exists>s. old = Some s \<and> WasRecentlyActive s t_last p) \<and>
      \<not> (\<exists>s. afterglow_entry t t_last p old new = Some s \<and> \<not> IsActive s)"
  shows "\<exists>s. (case new of Some s \<Rightarrow> Some s
    | None \<Rightarrow> (case old of None \<Rightarrow> None | Some s \<Rightarrow> if IsInAfterglowPeriod s t p then Some s else None)) = Some s \<and>
    WasRecentlyActive s t p"
proof -
  have "case afterglow_entry t t_last p old new of
      None \<Rightarrow> (case old of None \<Rightarrow> False | Some s \<Rightarrow> WasRecentlyActive s t_last p) | Some d \<Rightarrow> IsActive d"
    using assms(2) by (cases "afterglow_entry t t_last p old new") auto
  then have "case new of Some s \<Rightarrow> WasRecentlyActive s t p
      | None \<Rightarrow> (case old of None \<Rightarrow> False | Some s \<Rightarrow> IsInAfterglowPeriod s t p)"
    unfolding afterglow_entry_view [OF assms(1)] .
  then show ?thesis by (cases new; cases old) (auto simp: WasRecentlyActive_def)
qed

lemma view_entry_closed:
  assumes "IsActive (case afterglow_entry t t_last p (Some s) new of Some d \<Rightarrow> d | None \<Rightarrow> SetActive False s)"
  shows "\<exists>s. new = Some s \<and> WasRecentlyActive s t p"
  using assms
  by (cases new) (auto simp: afterglow_entry_def force_active_def WasRecentlyActive_def split: if_splits)

lemma view_entry:
  assumes "t_last \<le> t"
    and cls: "old' = old \<and> delta' = afterglow_entry t t_last p old new \<or>
      (\<exists>s. old = Some s \<and> old' = None \<and>
        delta' = Some (case afterglow_entry t t_last p (Some s) new of Some d \<Rightarrow> d | None \<Rightarrow> SetActive False s))"
    and lhs: "(\<exists>s. delta' = Some s \<and> IsActive s) \<or>
      (\<exists>s. old = Some s \<and> WasRecentlyActive s t_last p) \<and> \<not> (\<exists>s. delta' = Some s \<and> \<not> IsActive s)"
  shows "\<exists>s. (case new of Some s \<Rightarrow> Some s
    | None \<Rightarrow> (case old' of None \<Rightarrow> None | Some s \<Rightarrow> if IsInAfterglowPeriod s t p then Some s else None)) = Some s \<and>
    WasRecentlyActive s t p"
  using cls
proof (elim disjE exE conjE)
  assume "old' = old" "delta' = afterglow_entry t t_last p old new"
  then show ?thesis using view_entry_kept [OF assms(1)] lhs by blast
next
  fix s
  assume d: "delta' = Some (case afterglow_entry t t_last p (Some s) new of Some d \<Rightarrow> d | None \<Rightarrow> SetActive False s)"
  have "IsActive (case afterglow_entry t t_last p (Some s) new of Some d \<Rightarrow> d | None \<Rightarrow> SetActive False s)"
    using lhs unfolding d by blast
  then obtain s' where "new = Some s'" "WasRecentlyActive s' t p" using view_entry_closed by blast
  then show ?thesis by simp
qed

lemma view_step_afterglow:
  assumes "proto_keys C" "um_distinct Connection_eq new" "um_keys new \<subseteq> C"
    "um_distinct Connection_eq old" "um_keys old \<subseteq> C" "t_last \<le> t"
    and cl: "closing C old (ComputeDeltaAfterglow Connection_eq new old [] t t_last p) old' delta'"
  shows "view_of IsActive delta' \<union>
      (view_of (\<lambda>s. WasRecentlyActive s t_last p) old - view_of (\<lambda>s. \<not> IsActive s) delta') \<subseteq>
    (view_of (\<lambda>s. WasRecentlyActive s t p) (UpdateOldState Connection_eq old' new t p) :: 't NetworkConnectionProto set)"
  (is "?lhs \<subseteq> ?rhs")
proof
  fix q assume q: "q \<in> ?lhs"
  note ke = proto_keys_equality [OF assms(1)]
  note mem = mem_view [OF assms(1)]
  have o': "um_distinct Connection_eq old'" "um_keys old' \<subseteq> C" and d': "um_distinct Connection_eq delta'" "um_keys delta' \<subseteq> C"
    using cl by (simp_all add: closing_def)
  note upd = key_equality.distinct_UpdateOldState_lookup [OF ke assms(2,3) o', where t = t and p = p]
  obtain x where x: "x \<in> C" "q = ConnToProto x"
    using q view_of_key [OF _ d'(2)] view_of_key [OF _ assms(5)] by blast
  have delta: "um_lookup Connection_eq x (ComputeDeltaAfterglow Connection_eq new old [] t t_last p) =
      afterglow_entry t t_last p (um_lookup Connection_eq x old) (um_lookup Connection_eq x new)"
    using key_equality.lookup_ComputeDeltaAfterglow [OF ke assms(2-5) _ _ x(1), of "[]"] by simp
  have cls: "um_lookup Connection_eq x old' = um_lookup Connection_eq x old \<and>
      um_lookup Connection_eq x delta' = afterglow_entry t t_last p (um_lookup Connection_eq x old) (um_lookup Connection_eq x new) \<or>
    (\<exists>s. um_lookup Connection_eq x old = Some s \<and> um_lookup Connection_eq x old' = None \<and>
       um_lookup Connection_eq x delta' = Some (case afterglow_entry t t_last p (Some s) (um_lookup Connection_eq x new) of
         Some d \<Rightarrow> d | None \<Rightarrow> SetActive False s))"
    using closing_entry [OF cl x(1)] unfolding delta by auto
  have lhs: "(\<exists>s. um_lookup Connection_eq x delta' = Some s \<and> IsActive s) \<or>
      (\<exists>s. um_lookup Connection_eq x old = Some s \<and> WasRecentlyActive s t_last p) \<and>
      \<not> (\<exists>s. um_lookup Connection_eq x delta' = Some s \<and> \<not> IsActive s)"
    using q unfolding x(2) Un_iff Diff_iff mem [OF d' x(1)] mem [OF assms(4,5) x(1)] .
  have "\<exists>s. um_lookup Connection_eq x (UpdateOldState Connection_eq old' new t p) = Some s \<and> WasRecentlyActive s t p"
    unfolding upd(3) [OF x(1)] by (rule view_entry [OF assms(6) cls lhs])
  then show "q \<in> ?rhs" unfolding x(2) mem [OF upd(1,2) x(1)] .
qed

section \<open>The loop\<close>

text \<open>The connections fetched in an iteration, and whether the limiter drops none of them.\<close>

definition round_conns :: "CollectorConfig \<Rightarrow> Round \<Rightarrow> 't NotifierState \<Rightarrow> ConnMap" where
  "round_conns config r n = snd (FetchConns config r (ns_tracker (fst (RunSingle_scrape config r n))))"

definition round_delta :: "CollectorConfig \<Rightarrow> Round \<Rightarrow> RunLocals \<Rightarrow> 't NotifierState \<Rightarrow> ConnMap" where
  "round_delta config r lo n = fst (snd (FetchDeltas config r lo (ns_tracker (fst (RunSingle_scrape config r n)))))"

definition not_limited :: "CollectorConfig \<Rightarrow> Round \<Rightarrow> RunLocals \<Rightarrow> 't NotifierState \<Rightarrow> bool" where
  "not_limited config r lo n \<longleftrightarrow>
     (\<exists>L. PerContainerRateLimit (config\<lparr>cc_runtime_config := nr_runtime_config_limit r\<rparr>) = Inr L \<and>
        int (length (round_delta config r lo n)) \<le> L)"

text \<open>
  The states that the loop goes through, from a stream on which nothing was sent, as long as the
  clock does not go back and the fetched connections are in \<open>C\<close>; with \<open>full\<close>, as long as the limiter
  drops nothing.
\<close>

inductive notifier_reachable ::
  "(int \<Rightarrow> 't) \<Rightarrow> CollectorConfig \<Rightarrow> Connection set \<Rightarrow> bool \<Rightarrow> RunLocals \<Rightarrow> 't NotifierState \<Rightarrow> bool"
  for ts_of config C full where
  start: "ns_sent n = [] \<Longrightarrow> notifier_reachable ts_of config C full (RunSingle_start (config\<lparr>cc_runtime_config := rc\<rparr>) now) n"
| round: "\<lbrakk>notifier_reachable ts_of config C full lo n; lo_time_at_last_scrape lo \<le> nr_time_micros r;
     um_keys (round_conns config r n) \<subseteq> C; full \<longrightarrow> not_limited config r lo n;
     RunSingle_round ts_of config r (lo, n) = Inr ((lo', n'), True)\<rbrakk> \<Longrightarrow>
   notifier_reachable ts_of config C full lo' n'"

lemma sent_entries_all:
  "(\<And>c. int (seen c) + int (length delta) \<le> L) \<Longrightarrow> sent_entries L seen delta = delta"
proof (induction delta arbitrary: seen)
  case (Cons e delta)
  obtain k s where e: "e = (k, s)" by (cases e)
  have p: "int (seen c) + int (length delta) < L" for c using Cons.prems [of c] by simp
  have "int ((seen(conn_container k := Suc (seen (conn_container k)))) c) + int (length delta) \<le> L" for c
    using p [of c] p [of "conn_container k"] by auto
  moreover have "int (Suc (seen (conn_container k))) \<le> L" using p [of "conn_container k"] by simp
  moreover have "int (seen c) + int (length delta) \<le> L" for c using p [of c] by simp
  ultimately show ?case using Cons.IH e by simp
qed simp

lemma set_sent_entries: "set (sent_entries L seen delta) \<subseteq> set delta"
proof (induction delta arbitrary: seen)
  case (Cons e delta)
  obtain k s where e: "e = (k, s)" by (cases e)
  show ?case using Cons [of seen] Cons [of "seen(conn_container k := Suc (seen (conn_container k)))"] e
    by (auto simp: Let_def simp del: fun_upd_apply)
qed simp

lemma CreateInfoMessage_updates:
  assumes "CreateInfoMessage ts_of config now delta cep stats = Inr (msg, stats')"
  shows "\<exists>es. set es \<subseteq> set delta \<and> filter (\<lambda>e. \<not> IsActive (snd e)) es = filter (\<lambda>e. \<not> IsActive (snd e)) delta \<and>
    ((\<exists>L. PerContainerRateLimit config = Inr L \<and> int (length delta) \<le> L) \<longrightarrow> es = delta) \<and>
    (case msg of None \<Rightarrow> es = [] | Some m \<Rightarrow> ni_updated_connections m = map (conn_update ts_of) es)"
proof (cases "delta = [] \<and> cep = []")
  case True
  then have "msg = None" using assms by (simp add: CreateInfoMessage_def)
  then show ?thesis using True by (intro exI [of _ "[]"]) simp
next
  case False
  then obtain L where L: "PerContainerRateLimit config = Inr L"
    using assms by (auto simp: CreateInfoMessage_def AddConnections_def res_bind_Inr_iff split: if_splits)
  obtain limited stats1 where add: "AddConnections ts_of config delta stats =
      Inr (map (conn_update ts_of) (sent_entries L (\<lambda>_. 0) delta), limited, stats1)"
    using AddConnections_eq [OF L] by blast
  then obtain m where "msg = Some m" "ni_updated_connections m = map (conn_update ts_of) (sent_entries L (\<lambda>_. 0) delta)"
    using assms False by (auto simp: CreateInfoMessage_def split: if_splits)
  then show ?thesis
    using L set_sent_entries [of L "\<lambda>_. 0" delta] sent_entries_inactive [of L "\<lambda>_. 0" delta]
      sent_entries_all [of "\<lambda>_. 0" delta L]
    by (intro exI [of _ "sent_entries L (\<lambda>_. 0) delta"]) simp
qed

lemma receiver_view_snoc:
  "receiver_view (msgs @ [m]) = fold apply_update (ni_updated_connections m) (receiver_view msgs)"
  by (simp add: receiver_view_def)

lemma RunSingle_scrape_sent: "ns_sent (fst (RunSingle_scrape config r n)) = ns_sent n"
  by (simp add: RunSingle_scrape_def ReportConnectionStats_def Let_def split: prod.split option.split)

text \<open>What an iteration does to the remembered connections and to the view of the receiver.\<close>

lemma round_cases:
  assumes "RunSingle_round ts_of config r (lo, n) = Inr ((lo', n'), True)"
  shows "lo' = lo \<and> receiver_view (ns_sent n') = receiver_view (ns_sent n) \<or>
    (\<exists>t prev es. ConnDeltas config r lo t (round_conns config r n) = (lo_old_conn_state lo', round_delta config r lo n, prev) \<and>
       lo_time_at_last_scrape lo' = nr_time_micros r \<and>
       set es \<subseteq> set (round_delta config r lo n) \<and>
       filter (\<lambda>e. \<not> IsActive (snd e)) es = filter (\<lambda>e. \<not> IsActive (snd e)) (round_delta config r lo n) \<and>
       (not_limited config r lo n \<longrightarrow> es = round_delta config r lo n) \<and>
       receiver_view (ns_sent n') = fold apply_update (map (conn_update ts_of) es) (receiver_view (ns_sent n)))"
proof -
  obtain n1 updated where s: "RunSingle_scrape config r n = (n1, updated)" by fastforce
  obtain st2 delta cep lo1 where f: "FetchDeltas config r lo (ns_tracker n1) = (st2, delta, cep, lo1)"
    by (metis prod_cases4)
  have sent: "ns_sent n1 = ns_sent n" using RunSingle_scrape_sent [of config r n] s by simp
  show ?thesis
  proof (cases updated)
    case False
    then show ?thesis using assms s sent by (simp add: RunSingle_round_def)
  next
    case True
    obtain msg stats3 where c1: "CreateInfoMessage ts_of (config\<lparr>cc_runtime_config := nr_runtime_config_limit r\<rparr>)
        (nr_message_time r) delta cep (snd st2) = Inr (msg, stats3)"
      using assms s f True by (auto simp: RunSingle_round_def res_bind_Inr_iff)
    have c: "lo' = lo1 \<and> ns_sent n' = ns_sent n @ (case msg of None \<Rightarrow> [] | Some m \<Rightarrow> [m])"
      using assms s f True c1 sent
      by (cases msg) (auto simp: RunSingle_round_def Let_def split: if_splits)
    have d: "round_delta config r lo n = delta" using s f by (simp add: round_delta_def)
    obtain t prev where "ConnDeltas config r lo t (round_conns config r n) = (lo_old_conn_state lo1, delta, prev)"
        "lo_time_at_last_scrape lo1 = nr_time_micros r"
      using f s by (auto simp: FetchDeltas_def Let_def round_conns_def split: prod.splits)
    moreover obtain es where "set es \<subseteq> set delta"
      "filter (\<lambda>e. \<not> IsActive (snd e)) es = filter (\<lambda>e. \<not> IsActive (snd e)) delta"
      "(\<exists>L. PerContainerRateLimit (config\<lparr>cc_runtime_config := nr_runtime_config_limit r\<rparr>) = Inr L \<and>
         int (length delta) \<le> L) \<longrightarrow> es = delta"
      "case msg of None \<Rightarrow> es = [] | Some m \<Rightarrow> ni_updated_connections m = map (conn_update ts_of) es"
      using CreateInfoMessage_updates [OF c1] by blast
    moreover have "receiver_view (ns_sent n') = fold apply_update (map (conn_update ts_of) es) (receiver_view (ns_sent n))"
      if "case msg of None \<Rightarrow> es = [] | Some m \<Rightarrow> ni_updated_connections m = map (conn_update ts_of) es" for es
      using that c by (cases msg) (simp_all add: receiver_view_snoc)
    ultimately show ?thesis unfolding c [THEN conjunct1] d not_limited_def by blast
  qed
qed

text \<open>What the notifier remembers as active, or as active in the afterglow period.\<close>

definition remembered :: "CollectorConfig \<Rightarrow> RunLocals \<Rightarrow> 't NetworkConnectionProto set" where
  "remembered config lo =
     view_of (\<lambda>s. if cc_enable_afterglow config
                  then WasRecentlyActive s (lo_time_at_last_scrape lo) (cc_afterglow_period_micros config)
                  else IsActive s) (lo_old_conn_state lo)"

lemma round_conns_distinct:
  assumes "key_equality Connection_eq C" "um_keys (round_conns config r n) \<subseteq> C"
  shows "um_distinct Connection_eq (round_conns config r n)"
proof -
  obtain t stats where "round_conns config r n = snd (FetchConnState True True (t, stats))"
    unfolding round_conns_def FetchConns_def Let_def by (metis surj_pair)
  then have "round_conns config r n = fst (FetchState Connection_eq True (Some (NormalizeConnection t))
      (if HasConnectionFilters t then Some (ShouldFetchConnection t) else None) [] (conn_state t))"
    by (simp add: FetchConnState_def Let_def case_prod_beta)
  then show ?thesis using key_equality.distinct_FetchState [OF assms(1)] assms(2) by (metis um_distinct.simps(1))
qed

lemma view_of_inactive_cong:
  "filter (\<lambda>e. \<not> IsActive (snd e)) es = filter (\<lambda>e. \<not> IsActive (snd e)) delta \<Longrightarrow>
   view_of (\<lambda>s. \<not> IsActive s) es = view_of (\<lambda>s. \<not> IsActive s) delta"
proof -
  assume h: "filter (\<lambda>e. \<not> IsActive (snd e)) es = filter (\<lambda>e. \<not> IsActive (snd e)) delta"
  have "view_of (\<lambda>s. \<not> IsActive s) m = (\<lambda>e. ConnToProto (fst e)) ` set (filter (\<lambda>e. \<not> IsActive (snd e)) m)" for m
    by (force simp: view_of_def)
  then show ?thesis using h by metis
qed

text \<open>The deltas of an iteration against what is remembered before and after it.\<close>

lemma ConnDeltas_view:
  assumes "proto_keys C" "um_distinct Connection_eq new" "um_keys new \<subseteq> C"
    and old: "um_distinct Connection_eq (lo_old_conn_state lo)" "um_keys (lo_old_conn_state lo) \<subseteq> C"
    and "lo_time_at_last_scrape lo \<le> nr_time_micros r" "lo_time_at_last_scrape lo' = nr_time_micros r"
    and cd: "ConnDeltas config r lo t new = (lo_old_conn_state lo', delta, prev)"
  shows "um_distinct Connection_eq (lo_old_conn_state lo') \<and> um_keys (lo_old_conn_state lo') \<subseteq> C \<and>
    um_distinct Connection_eq delta \<and> um_keys delta \<subseteq> C \<and>
    view_of IsActive delta \<union> (remembered config lo - view_of (\<lambda>s. \<not> IsActive s) delta) \<subseteq>
      (remembered config lo' :: 't NetworkConnectionProto set) \<and>
    (\<not> cc_enable_afterglow config \<longrightarrow>
      view_of IsActive delta \<union> (remembered config lo - view_of (\<lambda>s. \<not> IsActive s) delta) =
      (remembered config lo' :: 't NetworkConnectionProto set))"
proof (cases "cc_enable_afterglow config")
  case True
  note ke = proto_keys_equality [OF assms(1)]
  let ?t = "nr_time_micros r" and ?tl = "lo_time_at_last_scrape lo" and ?p = "cc_afterglow_period_micros config"
  let ?d = "ComputeDeltaAfterglow Connection_eq new (lo_old_conn_state lo) [] ?t ?tl ?p"
  obtain old' where cl: "CloseConnectionsOnExternalIPsConfigChange t (lo_prevEnableExternalIPs lo)
        (lo_old_conn_state lo) ?d = (old', delta)"
    and lo': "lo_old_conn_state lo' = UpdateOldState Connection_eq old' new ?t ?p"
    using cd True by (auto simp: ConnDeltas_def Let_def split: prod.splits)
  have "um_distinct Connection_eq ?d" "um_keys ?d \<subseteq> C"
    using key_equality.distinct_ComputeDeltaAfterglow [OF ke assms(2,3) old] by simp_all
  note c = closing_config_change [OF ke old this cl]
  have o': "um_distinct Connection_eq old'" "um_keys old' \<subseteq> C" using c by (simp_all add: closing_def)
  note upd = key_equality.distinct_UpdateOldState_lookup [OF ke assms(2,3) o']
  show ?thesis
    using upd(1,2) c view_step_afterglow [OF assms(1-3) old assms(6) c] True assms(7)
    unfolding lo' remembered_def by (simp add: closing_def)
next
  case False
  note ke = proto_keys_equality [OF assms(1)]
  have lo': "lo_old_conn_state lo' = new" "delta = ComputeDelta Connection_eq new (lo_old_conn_state lo)"
    using cd False by (auto simp: ConnDeltas_def)
  have "view_of IsActive delta \<union> (remembered config lo - view_of (\<lambda>s. \<not> IsActive s) delta) =
      (remembered config lo' :: 't NetworkConnectionProto set)"
    using view_step_plain [OF assms(1-3) old] False lo' by (simp add: remembered_def)
  then show ?thesis
    using key_equality.distinct_ComputeDelta [OF ke assms(2,3) old] assms(2,3) unfolding lo' by blast
qed

lemma notifier_invariant:
  assumes "proto_keys C" "notifier_reachable ts_of config C full lo n"
  shows "um_distinct Connection_eq (lo_old_conn_state lo) \<and> um_keys (lo_old_conn_state lo) \<subseteq> C \<and>
    receiver_view (ns_sent n) \<subseteq> remembered config lo \<and>
    (full \<and> \<not> cc_enable_afterglow config \<longrightarrow> receiver_view (ns_sent n) = remembered config lo)"
  using assms(2)
proof (induction rule: notifier_reachable.induct)
  case (start n rc now)
  then show ?case by (simp add: RunSingle_start_def receiver_view_def remembered_def view_of_def)
next
  case (round lo n r lo' n')
  let ?new = "round_conns config r n"
  let ?delta = "round_delta config r lo n" and ?V = "receiver_view (ns_sent n)"
  have new: "um_distinct Connection_eq ?new" "um_keys ?new \<subseteq> C"
    using round_conns_distinct [OF proto_keys_equality [OF assms(1)] round.hyps(3)] round.hyps(3) by simp_all
  have old: "um_distinct Connection_eq (lo_old_conn_state lo)" "um_keys (lo_old_conn_state lo) \<subseteq> C"
    using round.IH by simp_all
  consider "lo' = lo" "receiver_view (ns_sent n') = ?V"
    | (sent) t prev es where "ConnDeltas config r lo t ?new = (lo_old_conn_state lo', ?delta, prev)"
      "lo_time_at_last_scrape lo' = nr_time_micros r" "set es \<subseteq> set ?delta"
      "filter (\<lambda>e. \<not> IsActive (snd e)) es = filter (\<lambda>e. \<not> IsActive (snd e)) ?delta"
      "not_limited config r lo n \<longrightarrow> es = ?delta"
      "receiver_view (ns_sent n') = fold apply_update (map (conn_update ts_of) es) ?V"
    using round_cases [OF round.hyps(5)] by blast
  then show ?case
  proof cases
    case 1
    then show ?thesis using round.IH by simp
  next
    case sent
    note step = ConnDeltas_view [OF assms(1) new old round.hyps(2) sent(2,1)]
    have "view_of IsActive es \<subseteq> (view_of IsActive ?delta :: 'a NetworkConnectionProto set)"
      using sent(3) by (auto simp: view_of_def)
    then have "receiver_view (ns_sent n') \<subseteq>
        view_of IsActive ?delta \<union> (remembered config lo - view_of (\<lambda>s. \<not> IsActive s) ?delta)"
      using fold_updates_subset [of ts_of es ?V] view_of_inactive_cong [OF sent(4)] round.IH
      unfolding sent(6) by blast
    moreover have "receiver_view (ns_sent n') =
        view_of IsActive ?delta \<union> (remembered config lo - view_of (\<lambda>s. \<not> IsActive s) ?delta)"
      if "full \<and> \<not> cc_enable_afterglow config"
    proof -
      have "es = ?delta" "?V = remembered config lo" using sent(5) round.hyps(4) round.IH that by blast+
      moreover have "um_distinct Connection_eq ?delta" "um_keys ?delta \<subseteq> C" using step by blast+
      ultimately show ?thesis using sent(6) fold_updates_full [OF assms(1)] by metis
    qed
    ultimately show ?thesis using step by blast
  qed
qed

section \<open>Properties\<close>

text \<open>
  C1: no zombie connections. Over any run of the loop on one stream, with calls of other threads to
  the tracker in between, every connection that the receiver holds open is one that the notifier
  remembers as active, or with afterglow as active within the period, at the last iteration; so
  each of the others was reported closed, whatever the rate limiter dropped. Without afterglow and
  with nothing dropped, the receiver sees exactly the active connections.
\<close>

theorem receiver_has_no_zombies:
  assumes "proto_keys C" "notifier_reachable ts_of config C full lo n"
  shows "receiver_view (ns_sent n) \<subseteq> remembered config lo \<and>
    (full \<and> \<not> cc_enable_afterglow config \<longrightarrow> receiver_view (ns_sent n) = remembered config lo)"
  using notifier_invariant [OF assms] by blast

definition example_tracker :: ConnectionTracker where
  "example_tracker = ConnectionTracker_new\<lparr>conn_state := [(example_conn, ConnStatus_mk 7 True)]\<rparr>"

definition example_notifier_config :: CollectorConfig where
  "example_notifier_config =
     example_config\<lparr>cc_enable_afterglow := False, cc_turn_off_scrape := True, cc_enable_connection_stats := False\<rparr>"

definition example_round :: Round where
  "example_round =
     \<lparr>nr_scrape_time = 7, nr_scrape = None, nr_steady_time = 7, nr_time_micros = 8, nr_message_time = 9,
      nr_runtime_config = None, nr_runtime_config_limit = None, nr_write_ok = True, nr_timer = (\<lambda>_. 0),
      nr_others_scrape = [], nr_others_stats = [], nr_others_rate = [], nr_others_config = [],
      nr_others_fetch = [], nr_others_close = [], nr_others_endpoints = []\<rparr>"

definition example_notifier :: "int NotifierState" where
  "example_notifier =
     \<lparr>ns_tracker = (example_tracker, CollectorStats_new), ns_rate_counter_last = None, ns_last_report_time = 0,
      ns_observed = [], ns_sent = []\<rparr>"

abbreviation example_key :: Connection where
  "example_key \<equiv> NormalizeConnection example_tracker example_conn"

lemma example_fetch:
  "FetchConns example_notifier_config example_round (example_tracker, stats) =
     ((example_tracker, COUNTER_ADD net_conn_inactive 0 stats), [(example_key, ConnStatus_mk 7 True)])"
proof -
  have "SetExternalIPsConfig (GetExternalIPsConf (example_notifier_config\<lparr>cc_runtime_config := None\<rparr>)) example_tracker =
      example_tracker"
    by (simp add: SetExternalIPsConfig_def GetExternalIPsConf_def example_notifier_config_def example_config_def
        ExternalIPsConfig_of_def example_tracker_def ConnectionTracker_new_def ExternalIPsConfig_default_def)
  moreover have "\<not> HasConnectionFilters example_tracker"
    by (simp add: HasConnectionFilters_def example_tracker_def ConnectionTracker_new_def NRadix_IsEmpty_def
        NRadixTree_new_def nRadixNode_new_def)
  moreover have "conn_state example_tracker = [(example_conn, ConnStatus_mk 7 True)]"
    by (simp add: example_tracker_def)
  moreover have "example_tracker\<lparr>conn_state := [(example_conn, ConnStatus_mk 7 True)]\<rparr> = example_tracker"
    by (simp add: example_tracker_def)
  ultimately show ?thesis
    by (simp add: FetchConns_def example_round_def FetchConnState_def um_insert_def)
qed

lemma example_limit:
  "PerContainerRateLimit (example_notifier_config\<lparr>cc_runtime_config := None\<rparr>) = Inr 1024"
  by (simp add: PerContainerRateLimit_def MaxConnectionsPerMinute_def example_notifier_config_def example_config_def
      fl_numeral round_away_def floor_eq_iff)

lemma example_scrape: "RunSingle_scrape example_notifier_config example_round example_notifier = (example_notifier, True)"
  by (simp add: RunSingle_scrape_def UpdateAllConnsAndEndpoints_def ReportConnectionStats_def example_round_def
      example_notifier_config_def)

lemma example_simps:
  "endpoint_state example_tracker = []" "\<not> cc_enable_afterglow example_notifier_config"
  "ns_tracker example_notifier = (example_tracker, CollectorStats_new)"
  "nr_others_close example_round = []" "nr_others_endpoints example_round = []" "nr_write_ok example_round"
  "nr_runtime_config_limit example_round = None" "nr_message_time example_round = 9" "nr_time_micros example_round = 8"
  by (simp_all add: example_tracker_def ConnectionTracker_new_def example_notifier_config_def example_notifier_def
      example_round_def)

lemma example_deltas:
  "\<exists>st lo'. FetchDeltas example_notifier_config example_round (RunSingle_start c 5) (example_tracker, CollectorStats_new) =
      (st, [(example_key, ConnStatus_mk 7 True)], [], lo') \<and> lo_old_conn_state lo' = [(example_key, ConnStatus_mk 7 True)]"
proof -
  have "Connection_eq example_key example_key"
    using conn_keys.eq_refl [OF example_normalized_conn] unfolding example_tracker_def .
  then show ?thesis
    by (simp add: FetchDeltas_def example_fetch ConnDeltas_def RunSingle_start_def FetchEndpointState_def
        ComputeDelta_def ComputeDelta_insert_def um_insert_def example_simps)
qed

lemma example_step:
  "\<exists>lo' n'. RunSingle_round id example_notifier_config example_round (RunSingle_start c 5, example_notifier) =
     Inr ((lo', n'), True) \<and> lo_old_conn_state lo' = [(example_key, ConnStatus_mk 7 True)]"
proof -
  obtain st lo' where f: "FetchDeltas example_notifier_config example_round (RunSingle_start c 5) (example_tracker, CollectorStats_new) =
      (st, [(example_key, ConnStatus_mk 7 True)], [], lo')" "lo_old_conn_state lo' = [(example_key, ConnStatus_mk 7 True)]"
    using example_deltas by blast
  have "\<exists>m stats. CreateInfoMessage id (example_notifier_config\<lparr>cc_runtime_config := None\<rparr>) 9
      [(example_key, ConnStatus_mk 7 True)] [] (snd st) = Inr (Some m, stats)"
    by (simp add: CreateInfoMessage_def AddConnections_def example_limit split: prod.split)
  then show ?thesis using f
    by (auto simp: RunSingle_round_def example_scrape example_simps)
qed

theorem receiver_has_no_zombies_witness:
  "\<exists>lo n. notifier_reachable id example_notifier_config {example_key} True lo n \<and>
     receiver_view (ns_sent n) = {ConnToProto example_key}"
proof -
  let ?start = "RunSingle_start (example_notifier_config\<lparr>cc_runtime_config := None\<rparr>) 5"
  obtain lo' n' where r: "RunSingle_round id example_notifier_config example_round (?start, example_notifier) = Inr ((lo', n'), True)"
    and lo': "lo_old_conn_state lo' = [(example_key, ConnStatus_mk 7 True)]"
    using example_step by blast
  have reach: "notifier_reachable id example_notifier_config {example_key} True lo' n'"
  proof (rule notifier_reachable.round [OF _ _ _ _ r])
    show "notifier_reachable id example_notifier_config {example_key} True ?start example_notifier"
      by (rule notifier_reachable.start) (simp add: example_notifier_def)
    show "um_keys (round_conns example_notifier_config example_round example_notifier) \<subseteq> {example_key}"
      by (simp add: round_conns_def example_scrape example_fetch um_keys_def example_simps)
    show "True \<longrightarrow> not_limited example_notifier_config example_round ?start example_notifier"
    proof -
      have "round_delta example_notifier_config example_round ?start example_notifier = [(example_key, ConnStatus_mk 7 True)]"
        unfolding round_delta_def example_scrape using example_deltas [of "example_notifier_config\<lparr>cc_runtime_config := None\<rparr>"]
        by (auto simp: example_simps)
      then show ?thesis by (simp add: not_limited_def example_simps example_limit)
    qed
  qed (simp_all add: RunSingle_start_def example_simps)
  have "Connection_eq example_key example_key"
    using conn_keys.eq_refl [OF example_normalized_conn] unfolding example_tracker_def .
  then have "proto_keys {example_key}" by (simp add: proto_keys_def)
  then have "receiver_view (ns_sent n') = remembered example_notifier_config lo'"
    using receiver_has_no_zombies [OF _ reach] by (simp add: example_notifier_config_def)
  moreover have "remembered example_notifier_config lo' = {ConnToProto example_key}"
    by (simp add: remembered_def lo' view_of_def example_notifier_config_def)
  ultimately show ?thesis using reach by blast
qed

end
