(* ===== verification/DuplexGRPC.thy ===== *)
theory DuplexGRPC
  imports Prelude
begin

text \<open>
  The duplex client of \<open>DuplexGRPC.h\<close>: one stream on which reads and writes are outstanding at the
  same time, with its flag word, its operations and its event processing. The gRPC library is not
  part of the sources. An operation that the client hands to the stream is recorded in the list
  \<open>dc_issued\<close>; what the completion queue answers is an argument of the functions that wait for it,
  and \<open>event_allowed\<close> states what its documentation promises.
\<close>

section \<open>Operations, flags and results\<close>

datatype Op = Op_START | Op_READ | Op_WRITE | Op_WRITES_DONE | Op_FINISH | Op_SHUTDOWN

definition Op_index :: "Op \<Rightarrow> nat" where
  "Op_index op =
     (case op of Op_START \<Rightarrow> 0 | Op_READ \<Rightarrow> 1 | Op_WRITE \<Rightarrow> 2 | Op_WRITES_DONE \<Rightarrow> 3 | Op_FINISH \<Rightarrow> 4 | Op_SHUTDOWN \<Rightarrow> 5)"

definition kNumOps :: nat where
  "kNumOps = 6"

type_synonym Flags = u32

definition Done :: "Op \<Rightarrow> Flags" where
  "Done op = push_bit (Op_index op) 1"

definition Pending :: "Op \<Rightarrow> Flags" where
  "Pending op = push_bit (Op_index op + kNumOps) 1"

definition STREAM_ERROR :: Flags where
  "STREAM_ERROR = push_bit (4 * 8 - 1) 1"

datatype OpError = OpError_OK | OpError_ALREADY_PENDING | OpError_ALREADY_DONE | OpError_ILLEGAL_STATE | OpError_SHUTDOWN

datatype Result =
  Status_OK | Status_ALREADY_PENDING | Status_ALREADY_DONE | Status_ERROR | Status_TIMEOUT
| Status_ILLEGAL_STATE | Status_SHUTDOWN | Status_INTERNAL_ERROR

definition Result_ok :: "Result \<Rightarrow> bool" where
  "Result_ok r = (r = Status_OK)"

definition Result_done :: "Result \<Rightarrow> bool" where
  "Result_done r = (r = Status_OK \<or> r = Status_ALREADY_DONE)"

definition Result_IsTimeout :: "Result \<Rightarrow> bool" where
  "Result_IsTimeout r = (r = Status_TIMEOUT)"

definition Result_of_bool :: "bool \<Rightarrow> Result" where
  "Result_of_bool ok = (if ok then Status_OK else Status_ERROR)"

definition Result_of_error :: "OpError \<Rightarrow> Result" where
  "Result_of_error e =
     (case e of
        OpError_OK \<Rightarrow> Status_OK | OpError_ALREADY_PENDING \<Rightarrow> Status_ALREADY_PENDING
      | OpError_ALREADY_DONE \<Rightarrow> Status_ALREADY_DONE | OpError_ILLEGAL_STATE \<Rightarrow> Status_ILLEGAL_STATE
      | OpError_SHUTDOWN \<Rightarrow> Status_SHUTDOWN)"

text \<open>The status of a call, a class of the gRPC library: a code and a message.\<close>

datatype StatusCode = Code_OK | Code_UNKNOWN | Code_DEADLINE_EXCEEDED | Code_other nat

record GrpcStatus =
  gs_code :: StatusCode
  gs_message :: string

definition GrpcStatus_ok :: "GrpcStatus \<Rightarrow> bool" where
  "GrpcStatus_ok s = (gs_code s = Code_OK)"

definition GrpcStatus_default :: GrpcStatus where
  "GrpcStatus_default = \<lparr>gs_code = Code_OK, gs_message = []\<rparr>"

text \<open>
  What one call of \<open>AsyncNext\<close> gives: an event with its outcome, where a completed read has filled
  the read buffer and a completed \<open>Finish\<close> the status; or the time is up; or the queue is shut down
  and empty.
\<close>

datatype 'r NextEvent = Got_event Op bool 'r GrpcStatus | Queue_timeout | Queue_shutdown

definition Result_of_next :: "'r NextEvent \<Rightarrow> Result" where
  "Result_of_next e =
     (case e of Queue_shutdown \<Rightarrow> Status_SHUTDOWN | Queue_timeout \<Rightarrow> Status_TIMEOUT | Got_event _ _ _ _ \<Rightarrow> Status_OK)"

section \<open>State\<close>

text \<open>
  \<open>dc_issued\<close> holds the operations that the stream has not completed, \<open>dc_written\<close> the objects given
  to it, \<open>dc_callback_log\<close> the calls of the read callback; the callback itself is the caller's.
\<close>

record ('w, 'r) DuplexClient =
  dc_flags :: Flags
  dc_status :: GrpcStatus
  dc_read_callback :: bool
  dc_read_buf :: 'r
  dc_read_buf_valid :: bool
  dc_issued :: "Op list"
  dc_written :: "'w list"
  dc_cancelled :: bool
  dc_cq_shutdown :: bool
  dc_callback_log :: "'r option list"

definition SetFlags :: "Flags \<Rightarrow> ('w, 'r) DuplexClient \<Rightarrow> ('w, 'r) DuplexClient \<times> Flags" where
  "SetFlags flg c =
     (let new_flags = flg AND NOT (dc_flags c) in (c\<lparr>dc_flags := dc_flags c OR flg\<rparr>, new_flags))"

definition ClearFlags :: "Flags \<Rightarrow> ('w, 'r) DuplexClient \<Rightarrow> ('w, 'r) DuplexClient \<times> Flags" where
  "ClearFlags flg c =
     (let cleared_flags = flg AND dc_flags c in (c\<lparr>dc_flags := dc_flags c AND NOT flg\<rparr>, cleared_flags))"

definition CheckFlags :: "Flags \<Rightarrow> ('w, 'r) DuplexClient \<Rightarrow> Flags" where
  "CheckFlags flg c = dc_flags c AND flg"

section \<open>Asynchronous operations\<close>

text \<open>The call of the stream method is the last argument: it hands the operation to the stream.\<close>

definition DoAsync ::
  "bool \<Rightarrow> Op \<Rightarrow> (('w, 'r) DuplexClient \<Rightarrow> ('w, 'r) DuplexClient) \<Rightarrow> ('w, 'r) DuplexClient \<Rightarrow>
     ('w, 'r) DuplexClient \<times> OpError" where
  "DoAsync idempotent op async_func c =
     (if idempotent \<and> CheckFlags (Done op) c \<noteq> 0 then (c, OpError_ALREADY_DONE)
      else if CheckFlags (Pending op) c \<noteq> 0 then (c, OpError_ALREADY_PENDING)
      else if CheckFlags (Done Op_SHUTDOWN OR Pending Op_SHUTDOWN) c \<noteq> 0 then (c, OpError_SHUTDOWN)
      else if CheckFlags (Done Op_FINISH OR Pending Op_FINISH) c \<noteq> 0 then (c, OpError_ILLEGAL_STATE)
      else
        (let c1 = fst (ClearFlags (Done op) c);
             c2 = fst (SetFlags (Pending op) c1)
         in (async_func (c2\<lparr>dc_issued := dc_issued c2 @ [op]\<rparr>), OpError_OK)))"

definition WriteAsyncInternal :: "'w \<Rightarrow> ('w, 'r) DuplexClient \<Rightarrow> ('w, 'r) DuplexClient \<times> OpError" where
  "WriteAsyncInternal obj c = DoAsync False Op_WRITE (\<lambda>c. c\<lparr>dc_written := dc_written c @ [obj]\<rparr>) c"

definition WritesDoneAsyncInternal :: "('w, 'r) DuplexClient \<Rightarrow> ('w, 'r) DuplexClient \<times> OpError" where
  "WritesDoneAsyncInternal c = DoAsync True Op_WRITES_DONE (\<lambda>c. c) c"

text \<open>\<open>Finish\<close> and \<open>Read\<close> have a parameter, so they do not count as idempotent.\<close>

definition FinishAsyncInternal :: "('w, 'r) DuplexClient \<Rightarrow> ('w, 'r) DuplexClient \<times> OpError" where
  "FinishAsyncInternal c = DoAsync False Op_FINISH (\<lambda>c. c) c"

definition ReadAsyncInternal :: "('w, 'r) DuplexClient \<Rightarrow> ('w, 'r) DuplexClient \<times> OpError" where
  "ReadAsyncInternal c = DoAsync False Op_READ (\<lambda>c. c) c"

definition ReadNext :: "('w, 'r) DuplexClient \<Rightarrow> ('w, 'r) DuplexClient" where
  "ReadNext c = fst (ReadAsyncInternal (c\<lparr>dc_read_buf_valid := False\<rparr>))"

section \<open>Events\<close>

definition HandleRead :: "bool \<Rightarrow> ('w, 'r) DuplexClient \<Rightarrow> ('w, 'r) DuplexClient" where
  "HandleRead ok c =
     (if dc_read_callback c
      then ReadNext (c\<lparr>dc_callback_log := dc_callback_log c @ [if ok then Some (dc_read_buf c) else None]\<rparr>)
      else c\<lparr>dc_read_buf_valid := ok\<rparr>)"

definition HandleFinish :: "bool \<Rightarrow> ('w, 'r) DuplexClient \<Rightarrow> ('w, 'r) DuplexClient" where
  "HandleFinish ok c =
     (if \<not> ok \<and> GrpcStatus_ok (dc_status c)
      then c\<lparr>dc_status := \<lparr>gs_code = Code_UNKNOWN, gs_message = ''Finish operation unsuccessful''\<rparr>\<rparr>
      else c)"

definition ProcessEvent :: "Op \<Rightarrow> bool \<Rightarrow> ('w, 'r) DuplexClient \<Rightarrow> ('w, 'r) DuplexClient" where
  "ProcessEvent op ok c =
     (let (c1, flg) =
        (if \<not> ok then (fst (FinishAsyncInternal c), Done op OR STREAM_ERROR) else (c, Done op));
          c2 = fst (ClearFlags (Pending op) c1);
          c3 = fst (SetFlags flg c2)
      in case op of
           Op_READ \<Rightarrow> HandleRead ok c3
         | Op_FINISH \<Rightarrow> HandleFinish ok c3
         | _ \<Rightarrow> c3)"

text \<open>What the library does to the client's memory and to the outstanding operations at an event.\<close>

definition deliver :: "'r NextEvent \<Rightarrow> ('w, 'r) DuplexClient \<Rightarrow> ('w, 'r) DuplexClient" where
  "deliver e c =
     (case e of
        Got_event op ok msg status \<Rightarrow>
          (let c1 = c\<lparr>dc_issued := remove1 op (dc_issued c)\<rparr>
           in case op of
                Op_READ \<Rightarrow> if ok then c1\<lparr>dc_read_buf := msg\<rparr> else c1
              | Op_FINISH \<Rightarrow> c1\<lparr>dc_status := status\<rparr>
              | _ \<Rightarrow> c1)
      | _ \<Rightarrow> c)"

definition ProcessSingle :: "'r NextEvent \<Rightarrow> ('w, 'r) DuplexClient \<Rightarrow> ('w, 'r) DuplexClient \<times> Result" where
  "ProcessSingle next_e c =
     (let c1 = deliver next_e c;
          c2 = (case next_e of
                  Got_event op ok _ _ \<Rightarrow> ProcessEvent op ok c1
                | Queue_shutdown \<Rightarrow> fst (SetFlags (Done Op_SHUTDOWN) c1)
                | Queue_timeout \<Rightarrow> c1)
      in (c2, Result_of_next next_e))"

section \<open>Waiting\<close>

text \<open>
  The answers of the queue are consumed one by one. The result is \<open>None\<close> when the call is still
  waiting after them, and otherwise it has the answers that are left.
\<close>

fun Poll ::
  "(Flags \<Rightarrow> bool) \<Rightarrow> 'r NextEvent list \<Rightarrow> ('w, 'r) DuplexClient \<Rightarrow>
     (('w, 'r) DuplexClient \<times> Result \<times> 'r NextEvent list) option" where
  "Poll flags_checker [] c = None"
| "Poll flags_checker (e # es) c =
     (let (c', res) = ProcessSingle e c
      in if Result_ok res \<and> \<not> flags_checker (dc_flags c') then Poll flags_checker es c' else Some (c', res, es))"

definition PollAny ::
  "Flags \<Rightarrow> 'r NextEvent list \<Rightarrow> ('w, 'r) DuplexClient \<Rightarrow>
     (('w, 'r) DuplexClient \<times> Result \<times> 'r NextEvent list) option" where
  "PollAny desired es c = Poll (\<lambda>flg. (flg AND desired) \<noteq> 0) es c"

definition PollAll ::
  "Flags \<Rightarrow> 'r NextEvent list \<Rightarrow> ('w, 'r) DuplexClient \<Rightarrow>
     (('w, 'r) DuplexClient \<times> Result \<times> 'r NextEvent list) option" where
  "PollAll desired es c = Poll (\<lambda>flg. (flg AND desired) = desired) es c"

definition WaitUntilStarted ::
  "'r NextEvent list \<Rightarrow> ('w, 'r) DuplexClient \<Rightarrow> (('w, 'r) DuplexClient \<times> Result \<times> 'r NextEvent list) option" where
  "WaitUntilStarted es c = PollAll (Done Op_START) es c"

definition WaitUntilFinished ::
  "'r NextEvent list \<Rightarrow> ('w, 'r) DuplexClient \<Rightarrow> (('w, 'r) DuplexClient \<times> Result \<times> 'r NextEvent list) option" where
  "WaitUntilFinished es c = PollAll (Done Op_FINISH) es c"

definition Sleep ::
  "'r NextEvent list \<Rightarrow> ('w, 'r) DuplexClient \<Rightarrow> (('w, 'r) DuplexClient \<times> bool \<times> 'r NextEvent list) option" where
  "Sleep es c =
     map_option (\<lambda>(c', res, es'). (c', Result_IsTimeout res, es')) (PollAny (STREAM_ERROR OR Done Op_FINISH) es c)"

text \<open>The loop of \<open>DoSync\<close>: it ends at the event of the operation, with its outcome, or at a failure.\<close>

fun DoSync_wait ::
  "Op \<Rightarrow> 'r NextEvent list \<Rightarrow> ('w, 'r) DuplexClient \<Rightarrow>
     (('w, 'r) DuplexClient \<times> Result \<times> 'r NextEvent list) option" where
  "DoSync_wait op [] c = None"
| "DoSync_wait op (e # es) c =
     (let (c', res) = ProcessSingle e c
      in case e of
           Got_event op' ok _ _ \<Rightarrow>
             if op' \<noteq> op then DoSync_wait op es c' else Some (c', Result_of_bool ok, es)
         | _ \<Rightarrow> Some (c', res, es))"

definition DoSync ::
  "bool \<Rightarrow> Op \<Rightarrow> (('w, 'r) DuplexClient \<Rightarrow> ('w, 'r) DuplexClient \<times> OpError) \<Rightarrow> 'r NextEvent list \<Rightarrow>
     ('w, 'r) DuplexClient \<Rightarrow> (('w, 'r) DuplexClient \<times> Result \<times> 'r NextEvent list) option" where
  "DoSync idempotent op async_method es c =
     (let (c1, op_error) = async_method c;
          op_error' = (if idempotent \<and> op_error = OpError_ALREADY_PENDING then OpError_OK else op_error)
      in if op_error' \<noteq> OpError_OK then Some (c1, Result_of_error op_error', es)
         else DoSync_wait op es c1)"

definition DuplexWrite ::
  "'w \<Rightarrow> 'r NextEvent list \<Rightarrow> ('w, 'r) DuplexClient \<Rightarrow> (('w, 'r) DuplexClient \<times> Result \<times> 'r NextEvent list) option" where
  "DuplexWrite obj es c = DoSync False Op_WRITE (WriteAsyncInternal obj) es c"

definition WriteAsync :: "'w \<Rightarrow> ('w, 'r) DuplexClient \<Rightarrow> ('w, 'r) DuplexClient \<times> Result" where
  "WriteAsync obj c = (let (c', e) = WriteAsyncInternal obj c in (c', Result_of_error e))"

definition WritesDoneAsync :: "('w, 'r) DuplexClient \<Rightarrow> ('w, 'r) DuplexClient \<times> Result" where
  "WritesDoneAsync c = (let (c', e) = WritesDoneAsyncInternal c in (c', Result_of_error e))"

definition WritesDone ::
  "'r NextEvent list \<Rightarrow> ('w, 'r) DuplexClient \<Rightarrow> (('w, 'r) DuplexClient \<times> Result \<times> 'r NextEvent list) option" where
  "WritesDone es c = DoSync True Op_WRITES_DONE WritesDoneAsyncInternal es c"

definition FinishAsync :: "('w, 'r) DuplexClient \<Rightarrow> ('w, 'r) DuplexClient \<times> Result" where
  "FinishAsync c = (let (c', e) = FinishAsyncInternal c in (c', Result_of_error e))"

text \<open>\<open>Finish\<close> with a pointer: the status is stored only on success.\<close>

definition Finish_ptr ::
  "'r NextEvent list \<Rightarrow> ('w, 'r) DuplexClient \<Rightarrow>
     (('w, 'r) DuplexClient \<times> Result \<times> GrpcStatus option \<times> 'r NextEvent list) option" where
  "Finish_ptr es c =
     map_option (\<lambda>(c', res, es'). (c', res, if Result_ok res then Some (dc_status c') else None, es'))
       (DoSync True Op_FINISH FinishAsyncInternal es c)"

definition Finish ::
  "'r NextEvent list \<Rightarrow> ('w, 'r) DuplexClient \<Rightarrow>
     (('w, 'r) DuplexClient \<times> GrpcStatus \<times> 'r NextEvent list) option" where
  "Finish es c =
     map_option (\<lambda>(c', res, es').
       (c', if Result_ok res then dc_status c'
            else if Result_IsTimeout res
            then \<lparr>gs_code = Code_DEADLINE_EXCEEDED, gs_message = ''timed out waiting for operation status''\<rparr>
            else \<lparr>gs_code = Code_UNKNOWN, gs_message = ''unknown error retrieving status''\<rparr>, es'))
       (DoSync True Op_FINISH FinishAsyncInternal es c)"

text \<open>A read gives the buffer that the last read event filled, and starts the next read.\<close>

definition DuplexRead ::
  "'r NextEvent list \<Rightarrow> ('w, 'r) DuplexClient \<Rightarrow>
     (('w, 'r) DuplexClient \<times> Result \<times> 'r option \<times> 'r NextEvent list) option" where
  "DuplexRead es c =
     (if dc_read_callback c then Some (c, Status_ILLEGAL_STATE, None, es)
      else
        map_option (\<lambda>(c', res, es').
            if \<not> Result_ok res then (c', res, None, es')
            else if \<not> dc_read_buf_valid c' then (c', Status_ERROR, None, es')
            else (ReadNext c', Status_OK, Some (dc_read_buf c'), es'))
          (PollAll (Done Op_READ) es c))"

section \<open>Creation and shutdown\<close>

definition DuplexClient_new :: "bool \<Rightarrow> 'r \<Rightarrow> ('w, 'r) DuplexClient" where
  "DuplexClient_new read_callback buf =
     (let c = \<lparr>dc_flags = 0, dc_status = GrpcStatus_default, dc_read_callback = read_callback, dc_read_buf = buf,
               dc_read_buf_valid = False, dc_issued = [Op_START], dc_written = [], dc_cancelled = False,
               dc_cq_shutdown = False, dc_callback_log = []\<rparr>
      in ReadNext (fst (SetFlags (Pending Op_START) c)))"

definition TryCancel :: "('w, 'r) DuplexClient \<Rightarrow> ('w, 'r) DuplexClient" where
  "TryCancel c = c\<lparr>dc_cancelled := True\<rparr>"

definition Shutdown :: "('w, 'r) DuplexClient \<Rightarrow> ('w, 'r) DuplexClient \<times> Result" where
  "Shutdown c =
     (let c0 = TryCancel c
      in if CheckFlags (Done Op_SHUTDOWN) c0 \<noteq> 0 then (c0, Status_ALREADY_DONE)
         else
           (let (c1, new_flags) = SetFlags (Pending Op_SHUTDOWN) c0
            in if new_flags = 0 then (c1, Status_ALREADY_PENDING)
               else (c1\<lparr>dc_cq_shutdown := True\<rparr>, Status_OK)))"

text \<open>The loop of the destructor: it consumes answers until one is no event.\<close>

fun drain ::
  "'r NextEvent list \<Rightarrow> ('w, 'r) DuplexClient \<Rightarrow> (('w, 'r) DuplexClient \<times> 'r NextEvent list) option" where
  "drain [] c = None"
| "drain (e # es) c =
     (let (c', res) = ProcessSingle e c in if Result_ok res then drain es c' else Some (c', es))"

definition DuplexClient_destroy ::
  "'r NextEvent list \<Rightarrow> ('w, 'r) DuplexClient \<Rightarrow> (('w, 'r) DuplexClient \<times> 'r NextEvent list) option" where
  "DuplexClient_destroy es c = drain es (fst (Shutdown c))"

section \<open>The contract of the completion queue\<close>

text \<open>
  The documentation of the queue: an event belongs to an operation that was handed to the stream and
  has not completed, and the queue answers that it is shut down only after it was asked to and when
  nothing is outstanding.
\<close>

definition event_allowed :: "'r NextEvent \<Rightarrow> ('w, 'r) DuplexClient \<Rightarrow> bool" where
  "event_allowed e c =
     (case e of
        Got_event op _ _ _ \<Rightarrow> op \<in> set (dc_issued c)
      | Queue_shutdown \<Rightarrow> dc_cq_shutdown c \<and> dc_issued c = []
      | Queue_timeout \<Rightarrow> True)"

end
