(* ===== verification/DuplexProps.thy ===== *)
theory DuplexProps
  imports DuplexGRPC
begin

text \<open>
  Properties of the duplex client: what its flags say about the stream, that it keeps the rules of
  the stream in every interleaving of calls and events, and that its destructor ends.
\<close>

section \<open>Flags as sets of bits\<close>

definition is_done :: "Op \<Rightarrow> ('w, 'r) DuplexClient \<Rightarrow> bool" where
  "is_done op c = bit (dc_flags c) (Op_index op)"

definition is_pending :: "Op \<Rightarrow> ('w, 'r) DuplexClient \<Rightarrow> bool" where
  "is_pending op c = bit (dc_flags c) (Op_index op + 6)"

definition is_failed :: "('w, 'r) DuplexClient \<Rightarrow> bool" where
  "is_failed c = bit (dc_flags c) 31"

lemma Op_index_le: "Op_index op \<le> 5"
  by (cases op) (simp_all add: Op_index_def)

lemma Op_index_eq [simp]: "Op_index op = Op_index op' \<longleftrightarrow> op = op'"
  by (cases op; cases op') (simp_all add: Op_index_def)

lemma Op_index_neq [simp]: "Op_index op + 6 \<noteq> Op_index op'" "Op_index op \<noteq> Op_index op' + 6"
  "Op_index op \<noteq> 31" "Op_index op + 6 \<noteq> 31" "31 \<noteq> Op_index op" "31 \<noteq> Op_index op + 6"
  using Op_index_le [of op] Op_index_le [of op'] by linarith+

lemma bit_push_one: "bit (push_bit k (1 :: u32)) n \<longleftrightarrow> n = k \<and> k < 32"
  unfolding bit_push_bit_iff bit_1_iff by auto

lemma bit_flag_values:
  "bit (Done op) n \<longleftrightarrow> n = Op_index op" "bit (Pending op) n \<longleftrightarrow> n = Op_index op + 6" "bit STREAM_ERROR n \<longleftrightarrow> n = 31"
  using Op_index_le [of op]
  unfolding Done_def Pending_def STREAM_ERROR_def kNumOps_def bit_push_one by auto

lemma word_zero_iff: "w = 0 \<longleftrightarrow> (\<forall>n. \<not> bit w n)" for w :: u32
  by (metis bit_0_eq bit_eqI bot_apply bot_bool_def)

lemma check_bit:
  assumes "\<And>k. bit f k \<longleftrightarrow> k = n"
  shows "CheckFlags f c = 0 \<longleftrightarrow> \<not> bit (dc_flags c) n"
  unfolding CheckFlags_def word_zero_iff bit_and_iff assms by blast

lemma CheckFlags_simps:
  "CheckFlags (Done op) c = 0 \<longleftrightarrow> \<not> is_done op c" "CheckFlags (Pending op) c = 0 \<longleftrightarrow> \<not> is_pending op c"
  "CheckFlags (f OR g) c = 0 \<longleftrightarrow> CheckFlags f c = 0 \<and> CheckFlags g c = 0"
  unfolding is_done_def is_pending_def
  by (rule check_bit, rule bit_flag_values)+
     (auto simp: CheckFlags_def word_zero_iff bit_and_iff bit_or_iff)

lemma flags_after [simp]:
  "bit (dc_flags (fst (SetFlags f c))) n \<longleftrightarrow> bit (dc_flags c) n \<or> bit f n"
  "bit (dc_flags (fst (ClearFlags f c))) n \<longleftrightarrow> bit (dc_flags c) n \<and> \<not> bit f n"
  by (auto simp: SetFlags_def ClearFlags_def Let_def bit_or_iff bit_and_iff bit_not_iff dest: bit_imp_le_length)

lemma flags_only [simp]:
  "dc_issued (fst (SetFlags f c)) = dc_issued c" "dc_issued (fst (ClearFlags f c)) = dc_issued c"
  "dc_cq_shutdown (fst (SetFlags f c)) = dc_cq_shutdown c" "dc_cq_shutdown (fst (ClearFlags f c)) = dc_cq_shutdown c"
  by (simp_all add: SetFlags_def ClearFlags_def Let_def)

text \<open>The flags and the outstanding operations after each elementary change.\<close>

lemma flag_laws [simp]:
  "is_done op (fst (SetFlags (Done op') c)) \<longleftrightarrow> is_done op c \<or> op = op'"
  "is_done op (fst (SetFlags (Pending op') c)) \<longleftrightarrow> is_done op c"
  "is_done op (fst (SetFlags (Done op' OR STREAM_ERROR) c)) \<longleftrightarrow> is_done op c \<or> op = op'"
  "is_done op (fst (ClearFlags (Done op') c)) \<longleftrightarrow> is_done op c \<and> op \<noteq> op'"
  "is_done op (fst (ClearFlags (Pending op') c)) \<longleftrightarrow> is_done op c"
  "is_pending op (fst (SetFlags (Done op') c)) \<longleftrightarrow> is_pending op c"
  "is_pending op (fst (SetFlags (Pending op') c)) \<longleftrightarrow> is_pending op c \<or> op = op'"
  "is_pending op (fst (SetFlags (Done op' OR STREAM_ERROR) c)) \<longleftrightarrow> is_pending op c"
  "is_pending op (fst (ClearFlags (Done op') c)) \<longleftrightarrow> is_pending op c"
  "is_pending op (fst (ClearFlags (Pending op') c)) \<longleftrightarrow> is_pending op c \<and> op \<noteq> op'"
  "is_failed (fst (SetFlags (Done op') c)) \<longleftrightarrow> is_failed c"
  "is_failed (fst (SetFlags (Pending op') c)) \<longleftrightarrow> is_failed c"
  "is_failed (fst (SetFlags (Done op' OR STREAM_ERROR) c))"
  "is_failed (fst (ClearFlags (Done op') c)) \<longleftrightarrow> is_failed c"
  "is_failed (fst (ClearFlags (Pending op') c)) \<longleftrightarrow> is_failed c"
  by (auto simp: is_done_def is_pending_def is_failed_def bit_flag_values bit_or_iff)

lemma flag_cong [simp]:
  "is_done op (c\<lparr>dc_issued := x\<rparr>) = is_done op c" "is_done op (c\<lparr>dc_written := w\<rparr>) = is_done op c"
  "is_done op (c\<lparr>dc_status := s\<rparr>) = is_done op c" "is_done op (c\<lparr>dc_read_buf := r\<rparr>) = is_done op c"
  "is_done op (c\<lparr>dc_read_buf_valid := b\<rparr>) = is_done op c" "is_done op (c\<lparr>dc_callback_log := l\<rparr>) = is_done op c"
  "is_done op (c\<lparr>dc_cancelled := b\<rparr>) = is_done op c" "is_done op (c\<lparr>dc_cq_shutdown := b\<rparr>) = is_done op c"
  "is_pending op (c\<lparr>dc_issued := x\<rparr>) = is_pending op c" "is_pending op (c\<lparr>dc_written := w\<rparr>) = is_pending op c"
  "is_pending op (c\<lparr>dc_status := s\<rparr>) = is_pending op c" "is_pending op (c\<lparr>dc_read_buf := r\<rparr>) = is_pending op c"
  "is_pending op (c\<lparr>dc_read_buf_valid := b\<rparr>) = is_pending op c" "is_pending op (c\<lparr>dc_callback_log := l\<rparr>) = is_pending op c"
  "is_pending op (c\<lparr>dc_cancelled := b\<rparr>) = is_pending op c" "is_pending op (c\<lparr>dc_cq_shutdown := b\<rparr>) = is_pending op c"
  "is_failed (c\<lparr>dc_issued := x\<rparr>) = is_failed c" "is_failed (c\<lparr>dc_written := w\<rparr>) = is_failed c"
  "is_failed (c\<lparr>dc_status := s\<rparr>) = is_failed c" "is_failed (c\<lparr>dc_read_buf := r\<rparr>) = is_failed c"
  "is_failed (c\<lparr>dc_read_buf_valid := b\<rparr>) = is_failed c" "is_failed (c\<lparr>dc_callback_log := l\<rparr>) = is_failed c"
  "is_failed (c\<lparr>dc_cancelled := b\<rparr>) = is_failed c" "is_failed (c\<lparr>dc_cq_shutdown := b\<rparr>) = is_failed c"
  by (simp_all add: is_done_def is_pending_def is_failed_def)

section \<open>The invariant\<close>

text \<open>No operation may be started any more.\<close>

definition stream_closed :: "('w, 'r) DuplexClient \<Rightarrow> bool" where
  "stream_closed c \<longleftrightarrow> is_done Op_FINISH c \<or> is_pending Op_FINISH c \<or> is_done Op_SHUTDOWN c \<or> is_pending Op_SHUTDOWN c"

text \<open>
  The pending flags are exactly the outstanding operations, none of which is outstanding twice; an
  operation that is pending is not done; the flag of the shutdown is that of the queue; and after
  a failure the end of the stream was requested.
\<close>

definition duplex_inv :: "('w, 'r) DuplexClient \<Rightarrow> bool" where
  "duplex_inv c \<longleftrightarrow>
     distinct (dc_issued c) \<and> Op_SHUTDOWN \<notin> set (dc_issued c) \<and>
     (\<forall>op. op \<noteq> Op_SHUTDOWN \<longrightarrow> is_pending op c = (op \<in> set (dc_issued c))) \<and>
     (\<forall>op. op \<noteq> Op_SHUTDOWN \<longrightarrow> \<not> (is_pending op c \<and> is_done op c)) \<and>
     (is_pending Op_SHUTDOWN c = dc_cq_shutdown c) \<and>
     (is_failed c \<longrightarrow> stream_closed c)"

text \<open>What an asynchronous operation does.\<close>

definition harmless :: "(('w, 'r) DuplexClient \<Rightarrow> ('w, 'r) DuplexClient) \<Rightarrow> bool" where
  "harmless f \<longleftrightarrow> (\<forall>c. dc_flags (f c) = dc_flags c \<and> dc_issued (f c) = dc_issued c \<and> dc_cq_shutdown (f c) = dc_cq_shutdown c)"

lemma harmlessD:
  assumes "harmless f"
  shows "dc_issued (f c) = dc_issued c" "dc_cq_shutdown (f c) = dc_cq_shutdown c"
    "is_done op (f c) = is_done op c" "is_pending op (f c) = is_pending op c" "is_failed (f c) = is_failed c"
  using assms by (simp_all add: harmless_def is_done_def is_pending_def is_failed_def)

lemma DoAsync_inv:
  assumes "duplex_inv c" "harmless f" "op \<noteq> Op_SHUTDOWN"
  shows "duplex_inv (fst (DoAsync i op f c))"
    "stream_closed c \<Longrightarrow> DoAsync i op f c = (c, snd (DoAsync i op f c)) \<and> snd (DoAsync i op f c) \<noteq> OpError_OK"
  using assms
  by (auto simp: DoAsync_def CheckFlags_simps Let_def duplex_inv_def harmlessD stream_closed_def)

lemma harmless_id: "harmless (\<lambda>c. c)"
  by (simp add: harmless_def)

lemma harmless_write: "harmless (\<lambda>c. c\<lparr>dc_written := dc_written c @ [obj]\<rparr>)"
  by (simp add: harmless_def)

lemma duplex_inv_cong [simp]:
  "duplex_inv (c\<lparr>dc_written := w\<rparr>) = duplex_inv c" "duplex_inv (c\<lparr>dc_status := s\<rparr>) = duplex_inv c"
  "duplex_inv (c\<lparr>dc_read_buf := r\<rparr>) = duplex_inv c" "duplex_inv (c\<lparr>dc_read_buf_valid := b\<rparr>) = duplex_inv c"
  "duplex_inv (c\<lparr>dc_callback_log := l\<rparr>) = duplex_inv c" "duplex_inv (c\<lparr>dc_cancelled := b\<rparr>) = duplex_inv c"
  by (simp_all add: duplex_inv_def stream_closed_def)

lemma stream_closed_cong [simp]:
  "stream_closed (c\<lparr>dc_issued := x\<rparr>) = stream_closed c" "stream_closed (c\<lparr>dc_written := w\<rparr>) = stream_closed c"
  "stream_closed (c\<lparr>dc_status := s\<rparr>) = stream_closed c"
  "stream_closed (c\<lparr>dc_read_buf := r\<rparr>) = stream_closed c" "stream_closed (c\<lparr>dc_read_buf_valid := b\<rparr>) = stream_closed c"
  "stream_closed (c\<lparr>dc_callback_log := l\<rparr>) = stream_closed c" "stream_closed (c\<lparr>dc_cancelled := b\<rparr>) = stream_closed c"
  by (simp_all add: stream_closed_def)

lemma async_inv:
  assumes "duplex_inv c"
  shows "duplex_inv (fst (WriteAsyncInternal obj c))" "duplex_inv (fst (WritesDoneAsyncInternal c))"
    "duplex_inv (fst (FinishAsyncInternal c))" "duplex_inv (ReadNext c)"
  using assms
  by (simp_all add: WriteAsyncInternal_def WritesDoneAsyncInternal_def FinishAsyncInternal_def ReadNext_def
      ReadAsyncInternal_def DoAsync_inv harmless_id harmless_write)

text \<open>The client between the delivery of an event and the handler of its operation.\<close>

definition after_event :: "Op \<Rightarrow> bool \<Rightarrow> ('w, 'r) DuplexClient \<Rightarrow> ('w, 'r) DuplexClient" where
  "after_event op ok c =
     fst (SetFlags (if \<not> ok then Done op OR STREAM_ERROR else Done op)
       (fst (ClearFlags (Pending op) (if \<not> ok then fst (FinishAsyncInternal c) else c))))"

lemma ProcessEvent_eq:
  "ProcessEvent op ok c =
     (case op of Op_READ \<Rightarrow> HandleRead ok (after_event op ok c) | Op_FINISH \<Rightarrow> HandleFinish ok (after_event op ok c)
      | _ \<Rightarrow> after_event op ok c)"
  by (cases op) (simp_all add: ProcessEvent_def after_event_def Let_def)

text \<open>An event that is delivered takes its operation from the outstanding ones; a failed one may request the end.\<close>

lemma after_event_laws:
  assumes "duplex_inv c" "op \<in> set (dc_issued c)" "c1 = c\<lparr>dc_issued := remove1 op (dc_issued c)\<rparr>"
  shows "duplex_inv (after_event op ok c1)"
    "dc_issued (after_event op ok c1) =
       remove1 op (dc_issued c) @ (if ok \<or> stream_closed c then [] else [Op_FINISH])"
    "stream_closed (after_event op ok c1) \<longleftrightarrow> stream_closed c \<or> \<not> ok"
proof -
  have op: "op \<noteq> Op_SHUTDOWN" using assms by (auto simp: duplex_inv_def)
  show "dc_issued (after_event op ok c1) =
       remove1 op (dc_issued c) @ (if ok \<or> stream_closed c then [] else [Op_FINISH])"
    unfolding assms(3)
    by (auto simp: after_event_def FinishAsyncInternal_def DoAsync_def CheckFlags_simps Let_def stream_closed_def)
  show "stream_closed (after_event op ok c1) \<longleftrightarrow> stream_closed c \<or> \<not> ok"
    using assms op
    by (cases "op = Op_FINISH")
       (auto simp: after_event_def FinishAsyncInternal_def DoAsync_def CheckFlags_simps Let_def stream_closed_def duplex_inv_def)
  show "duplex_inv (after_event op ok c1)"
    using assms op
    by (cases "op = Op_FINISH")
       (auto simp: after_event_def FinishAsyncInternal_def DoAsync_def CheckFlags_simps Let_def stream_closed_def duplex_inv_def)
qed

lemma deliver_eq:
  "\<exists>r st. deliver (Got_event op ok m s) c =
     (c\<lparr>dc_read_buf := r, dc_status := st\<rparr>)\<lparr>dc_issued := remove1 op (dc_issued c)\<rparr>"
  by (rule exI [of _ "if op = Op_READ \<and> ok then m else dc_read_buf c"],
      rule exI [of _ "if op = Op_FINISH then s else dc_status c"])
     (cases op; simp add: deliver_def)

lemma DoAsync_closed: "stream_closed c \<Longrightarrow> fst (DoAsync i op f c) = c"
  by (auto simp: DoAsync_def CheckFlags_simps stream_closed_def)

lemma ReadNext_closed: "stream_closed c \<Longrightarrow> ReadNext c = c\<lparr>dc_read_buf_valid := False\<rparr>"
  by (simp add: ReadNext_def ReadAsyncInternal_def DoAsync_closed)

lemma HandleRead_laws:
  assumes "duplex_inv c"
  shows "duplex_inv (HandleRead ok c)"
    "stream_closed c \<Longrightarrow> stream_closed (HandleRead ok c) \<and> dc_issued (HandleRead ok c) = dc_issued c"
  using assms by (auto simp: HandleRead_def async_inv ReadNext_closed)

lemma HandleFinish_laws [simp]:
  "duplex_inv (HandleFinish ok c) = duplex_inv c" "stream_closed (HandleFinish ok c) = stream_closed c"
  "dc_issued (HandleFinish ok c) = dc_issued c"
  by (simp_all add: HandleFinish_def)

text \<open>An event that the queue may give keeps the invariant, and starts nothing once the stream is closed.\<close>

definition left_after :: "'r NextEvent \<Rightarrow> Op list \<Rightarrow> Op list" where
  "left_after e ops = (case e of Got_event op _ _ _ \<Rightarrow> remove1 op ops | _ \<Rightarrow> ops)"

lemma ProcessEvent_laws:
  assumes "duplex_inv c" "op \<in> set (dc_issued c)" "c1 = c\<lparr>dc_issued := remove1 op (dc_issued c)\<rparr>"
  shows "duplex_inv (ProcessEvent op ok c1)"
    "stream_closed c \<Longrightarrow> stream_closed (ProcessEvent op ok c1) \<and> dc_issued (ProcessEvent op ok c1) = remove1 op (dc_issued c)"
  using after_event_laws [OF assms, of ok] HandleRead_laws [of "after_event op ok c1" ok]
  unfolding ProcessEvent_eq by (cases op; simp)+

lemma ProcessSingle_laws:
  assumes "duplex_inv c" "event_allowed e c"
  shows "duplex_inv (fst (ProcessSingle e c)) \<and>
    (stream_closed c \<longrightarrow> stream_closed (fst (ProcessSingle e c)) \<and> dc_issued (fst (ProcessSingle e c)) = left_after e (dc_issued c))"
proof (cases e)
  case (Got_event op ok m s)
  obtain r st where d: "deliver e c = (c\<lparr>dc_read_buf := r, dc_status := st\<rparr>)\<lparr>dc_issued := remove1 op (dc_issued c)\<rparr>"
    using deliver_eq [of op ok m s c] Got_event by blast
  have "op \<in> set (dc_issued (c\<lparr>dc_read_buf := r, dc_status := st\<rparr>))" "duplex_inv (c\<lparr>dc_read_buf := r, dc_status := st\<rparr>)"
    using assms Got_event by (simp_all add: event_allowed_def)
  from ProcessEvent_laws [OF this(2,1), of "deliver e c" ok] show ?thesis
    using d Got_event by (simp add: ProcessSingle_def left_after_def)
next
  case Queue_shutdown
  then show ?thesis using assms
    by (simp add: ProcessSingle_def deliver_def duplex_inv_def stream_closed_def left_after_def)
next
  case Queue_timeout
  then show ?thesis using assms by (simp add: ProcessSingle_def deliver_def left_after_def)
qed

lemma Shutdown_eq:
  "fst (Shutdown c) =
     (let c0 = c\<lparr>dc_cancelled := True\<rparr>
      in if is_done Op_SHUTDOWN c then c0
         else if is_pending Op_SHUTDOWN c then fst (SetFlags (Pending Op_SHUTDOWN) c0)
         else (fst (SetFlags (Pending Op_SHUTDOWN) c0))\<lparr>dc_cq_shutdown := True\<rparr>)"
proof -
  have "snd (SetFlags (Pending Op_SHUTDOWN) c0) = 0 \<longleftrightarrow> is_pending Op_SHUTDOWN c0" for c0 :: "('a, 'b) DuplexClient"
    by (auto simp: SetFlags_def Let_def word_zero_iff bit_and_iff bit_not_iff bit_flag_values is_pending_def
        Op_index_def)
  from this [of "c\<lparr>dc_cancelled := True\<rparr>"] show ?thesis
    by (cases "SetFlags (Pending Op_SHUTDOWN) (c\<lparr>dc_cancelled := True\<rparr>)")
       (simp add: Shutdown_def TryCancel_def CheckFlags_simps Let_def)
qed

lemma Shutdown_laws:
  assumes "duplex_inv c"
  shows "duplex_inv (fst (Shutdown c))" "stream_closed (fst (Shutdown c))" "dc_issued (fst (Shutdown c)) = dc_issued c"
proof -
  show "stream_closed (fst (Shutdown c))" "dc_issued (fst (Shutdown c)) = dc_issued c"
    unfolding Shutdown_eq by (simp_all add: Let_def stream_closed_def)
  show "duplex_inv (fst (Shutdown c))"
    using assms unfolding Shutdown_eq duplex_inv_def Let_def
    by (cases "is_done Op_SHUTDOWN c"; cases "is_pending Op_SHUTDOWN c") (simp_all add: stream_closed_def)
qed

lemma DuplexClient_new_inv: "duplex_inv (DuplexClient_new cb buf :: ('w, 'r) DuplexClient)"
proof -
  have "duplex_inv (fst (SetFlags (Pending Op_START)
    \<lparr>dc_flags = 0, dc_status = s, dc_read_callback = cb, dc_read_buf = buf, dc_read_buf_valid = False, dc_issued = [Op_START],
     dc_written = [], dc_cancelled = False, dc_cq_shutdown = False, dc_callback_log = []\<rparr>) :: ('w, 'r) DuplexClient)" for s
    by (auto simp: duplex_inv_def) (simp_all add: is_pending_def is_done_def is_failed_def)
  then show ?thesis by (simp add: DuplexClient_new_def Let_def async_inv)
qed

section \<open>Every interleaving of calls and events\<close>

inductive duplex_step :: "('w, 'r) DuplexClient \<Rightarrow> ('w, 'r) DuplexClient \<Rightarrow> bool" where
  step_write: "duplex_step c (fst (WriteAsyncInternal obj c))"
| step_writes_done: "duplex_step c (fst (WritesDoneAsyncInternal c))"
| step_finish: "duplex_step c (fst (FinishAsyncInternal c))"
| step_read: "duplex_step c (ReadNext c)"
| step_cancel: "duplex_step c (TryCancel c)"
| step_shutdown: "duplex_step c (fst (Shutdown c))"
| step_event: "event_allowed e c \<Longrightarrow> duplex_step c (fst (ProcessSingle e c))"

inductive duplex_reachable :: "('w, 'r) DuplexClient \<Rightarrow> bool" where
  reachable_new: "duplex_reachable (DuplexClient_new cb buf)"
| reachable_step: "duplex_reachable c \<Longrightarrow> duplex_step c c' \<Longrightarrow> duplex_reachable c'"

lemmas reachable_by = reachable_step [OF _ step_write] reachable_step [OF _ step_writes_done]
  reachable_step [OF _ step_finish] reachable_step [OF _ step_read] reachable_step [OF _ step_cancel]
  reachable_step [OF _ step_shutdown]

lemma reachable_event: "duplex_reachable c \<Longrightarrow> event_allowed e c \<Longrightarrow> duplex_reachable (fst (ProcessSingle e c))"
  by (rule reachable_step [OF _ step_event])

lemma TryCancel_laws [simp]: "duplex_inv (TryCancel c) = duplex_inv c" "stream_closed (TryCancel c) = stream_closed c"
  "dc_issued (TryCancel c) = dc_issued c"
  by (simp_all add: TryCancel_def)

lemma step_inv: "duplex_step c c' \<Longrightarrow> duplex_inv c \<Longrightarrow> duplex_inv c'"
  by (induction rule: duplex_step.induct) (simp_all add: async_inv Shutdown_laws ProcessSingle_laws)

lemma reachable_inv: "duplex_reachable c \<Longrightarrow> duplex_inv c"
  by (induction rule: duplex_reachable.induct) (simp_all add: DuplexClient_new_inv step_inv)

lemma left_after_subset: "set (left_after e ops) \<subseteq> set ops"
  using set_remove1_subset by (fastforce simp: left_after_def split: NextEvent.splits)

lemma step_closed:
  "duplex_step c c' \<Longrightarrow> duplex_inv c \<Longrightarrow> stream_closed c \<Longrightarrow> stream_closed c' \<and> set (dc_issued c') \<subseteq> set (dc_issued c)"
  by (induction rule: duplex_step.induct)
     (simp_all add: WriteAsyncInternal_def WritesDoneAsyncInternal_def FinishAsyncInternal_def DoAsync_closed ReadNext_closed
       Shutdown_laws ProcessSingle_laws left_after_subset)

text \<open>Answers that the queue may give one after the other, when the client only processes them.\<close>

fun events_allowed :: "'r NextEvent list \<Rightarrow> ('w, 'r) DuplexClient \<Rightarrow> bool" where
  "events_allowed [] c = True"
| "events_allowed (e # es) c = (event_allowed e c \<and> events_allowed es (fst (ProcessSingle e c)))"

text \<open>The calls that wait are sequences of these steps.\<close>

lemma Poll_reachable:
  "Poll chk es c = Some (c', r, es') \<Longrightarrow> duplex_reachable c \<Longrightarrow> events_allowed es c \<Longrightarrow> duplex_reachable c' \<and> events_allowed es' c'"
  by (induction es arbitrary: c) (auto simp: Let_def split_beta reachable_event split: if_splits)

lemma DoSync_wait_reachable:
  "DoSync_wait op es c = Some (c', r, es') \<Longrightarrow> duplex_reachable c \<Longrightarrow> events_allowed es c \<Longrightarrow> duplex_reachable c' \<and> events_allowed es' c'"
  by (induction es arbitrary: c)
     (auto simp: Let_def split_beta reachable_event split: if_splits NextEvent.splits)

lemma DoSync_reachable:
  assumes "DoSync i op f es c = Some (c', r, es')" "duplex_reachable (fst (f c))" "events_allowed es (fst (f c))"
  shows "duplex_reachable c' \<and> events_allowed es' c'"
  using assms by (auto simp: DoSync_def Let_def split_beta split: if_splits dest!: DoSync_wait_reachable)

lemma DuplexRead_reachable:
  assumes "DuplexRead es c = Some (c', r, m, es')" "duplex_reachable c" "events_allowed es c"
  shows "duplex_reachable c'"
  using assms Poll_reachable reachable_by(4)
  by (fastforce simp: DuplexRead_def PollAll_def split: if_splits)

lemma drain_reachable:
  "drain es c = Some (c', es') \<Longrightarrow> duplex_reachable c \<Longrightarrow> events_allowed es c \<Longrightarrow> duplex_reachable c' \<and> events_allowed es' c'"
  by (induction es arbitrary: c) (auto simp: Let_def split_beta reachable_event split: if_splits)

section \<open>The end of the destructor and the status of the stream\<close>

lemma ProcessSingle_result: "snd (ProcessSingle e c) = Result_of_next e"
  by (simp add: ProcessSingle_def Let_def)

lemma drain_ends:
  "duplex_inv c \<Longrightarrow> stream_closed c \<Longrightarrow> events_allowed es c \<Longrightarrow> length (dc_issued c) < length es \<Longrightarrow> \<exists>r. drain es c = Some r"
proof (induction es arbitrary: c)
  case (Cons e es)
  let ?c = "fst (ProcessSingle e c)"
  have laws: "duplex_inv ?c" "stream_closed ?c" "dc_issued ?c = left_after e (dc_issued c)" "events_allowed es ?c"
    using Cons.prems ProcessSingle_laws [of c e] by simp_all
  show ?case
  proof (cases e)
    case (Got_event op ok m s)
    then have "length (dc_issued ?c) < length (dc_issued c)"
      using Cons.prems laws(3) by (auto simp: left_after_def event_allowed_def length_remove1 dest: length_pos_if_in_set)
    then show ?thesis using Cons.IH [OF laws(1,2,4)] Cons.prems Got_event
      by (auto simp: Let_def split_beta ProcessSingle_result)
  qed (simp_all add: Let_def split_beta ProcessSingle_result Result_of_next_def Result_ok_def)
qed simp

lemma drain_closed:
  "drain es c = Some (c', es') \<Longrightarrow> duplex_inv c \<Longrightarrow> stream_closed c \<Longrightarrow> events_allowed es c \<Longrightarrow> stream_closed c'"
proof (induction es arbitrary: c)
  case (Cons e es)
  then show ?case using ProcessSingle_laws [of c e] by (auto simp: Let_def split_beta split: if_splits)
qed simp

lemma all_ops: "op \<in> {Op_START, Op_READ, Op_WRITE, Op_WRITES_DONE, Op_FINISH, Op_SHUTDOWN}"
  by (cases op) simp_all

lemma outstanding_bound: "duplex_inv c \<Longrightarrow> length (dc_issued c) \<le> 5"
proof -
  assume inv: "duplex_inv c"
  then have "set (dc_issued c) \<subseteq> {Op_START, Op_READ, Op_WRITE, Op_WRITES_DONE, Op_FINISH}"
    using all_ops by (fastforce simp: duplex_inv_def)
  then have "card (set (dc_issued c)) \<le> card {Op_START, Op_READ, Op_WRITE, Op_WRITES_DONE, Op_FINISH}"
    by (rule card_mono [rotated]) simp
  then show ?thesis using inv by (simp add: duplex_inv_def distinct_card)
qed

text \<open>The event of a successful \<open>Finish\<close> stores the status of the server.\<close>

lemma finish_event_status: "dc_status (fst (ProcessSingle (Got_event Op_FINISH True m s) c)) = s"
  by (simp add: ProcessSingle_def ProcessEvent_def deliver_def HandleFinish_def SetFlags_def ClearFlags_def Let_def)

definition other_event :: "Op \<Rightarrow> 'r NextEvent \<Rightarrow> bool" where
  "other_event op e = (case e of Got_event op' _ _ _ \<Rightarrow> op' \<noteq> op | _ \<Rightarrow> False)"

lemma wait_for_finish:
  "list_all (other_event Op_FINISH) es \<Longrightarrow>
     \<exists>c'. DoSync_wait Op_FINISH (es @ Got_event Op_FINISH True m s # es') c = Some (c', Status_OK, es') \<and> dc_status c' = s"
  by (induction es arbitrary: c)
     (auto simp: Let_def split_beta other_event_def finish_event_status Result_of_bool_def split: NextEvent.splits)

lemma example_reachable: "duplex_reachable (DuplexClient_new False (0 :: nat) :: (nat, nat) DuplexClient)"
  by (rule reachable_new)

section \<open>Properties\<close>

text \<open>
  C5: In every interleaving of calls of the client and of events of the completion queue, at most
  one operation of each kind is outstanding and the pending flags are exactly the outstanding
  operations; no operation is both pending and done; a failure has requested the end of the stream;
  and once the end or the shutdown was requested, it stays so and no step starts an operation.
\<close>

theorem duplex_rules_kept:
  assumes "duplex_reachable c"
  shows "distinct (dc_issued c) \<and> (\<forall>op. op \<in> set (dc_issued c) \<longleftrightarrow> op \<noteq> Op_SHUTDOWN \<and> CheckFlags (Pending op) c \<noteq> 0) \<and>
    (\<forall>op. CheckFlags (Pending op) c = 0 \<or> CheckFlags (Done op) c = 0 \<or> op = Op_SHUTDOWN) \<and>
    (CheckFlags STREAM_ERROR c = 0 \<or> stream_closed c) \<and>
    {c'. duplex_step c c' \<and> stream_closed c} \<subseteq> {c'. stream_closed c' \<and> set (dc_issued c') \<subseteq> set (dc_issued c)}"
proof -
  have inv: "duplex_inv c" using assms by (rule reachable_inv)
  have "CheckFlags STREAM_ERROR c = 0 \<longleftrightarrow> \<not> is_failed c"
    unfolding is_failed_def by (rule check_bit) (rule bit_flag_values)
  then have flg: "CheckFlags STREAM_ERROR c = 0 \<or> stream_closed c" using inv by (simp add: duplex_inv_def)
  have "distinct (dc_issued c) \<and> (\<forall>op. op \<in> set (dc_issued c) \<longleftrightarrow> op \<noteq> Op_SHUTDOWN \<and> CheckFlags (Pending op) c \<noteq> 0)"
    using inv unfolding duplex_inv_def CheckFlags_simps by metis
  moreover have "\<forall>op. CheckFlags (Pending op) c = 0 \<or> CheckFlags (Done op) c = 0 \<or> op = Op_SHUTDOWN"
    using inv by (auto simp: duplex_inv_def CheckFlags_simps)
  moreover have "{c'. duplex_step c c' \<and> stream_closed c} \<subseteq> {c'. stream_closed c' \<and> set (dc_issued c') \<subseteq> set (dc_issued c)}"
    using step_closed [OF _ inv] by auto
  ultimately show ?thesis using flg by blast
qed

theorem duplex_rules_kept_witness:
  "distinct (dc_issued (fst (FinishAsyncInternal (DuplexClient_new False (0 :: nat) :: (nat, nat) DuplexClient))))"
  using duplex_rules_kept [OF reachable_by(3) [OF example_reachable]] by blast

text \<open>
  C10: The destructor ends: at most five operations are outstanding when it shuts the queue down,
  each event takes one of them and none is added, so among more answers of the queue than there are
  outstanding operations there is one that ends its loop.
\<close>

theorem DuplexClient_destroy_ends:
  assumes "duplex_reachable c" "events_allowed es (fst (Shutdown c))" "length (dc_issued c) < length es"
  shows "length (dc_issued c) \<le> 5 \<and>
    (\<exists>c' es'. DuplexClient_destroy es c = Some (c', es') \<and> stream_closed c' \<and> duplex_reachable c')"
proof -
  have inv: "duplex_inv c" using assms(1) by (rule reachable_inv)
  obtain c' es' where d: "drain es (fst (Shutdown c)) = Some (c', es')"
    using drain_ends [OF Shutdown_laws(1,2) [OF inv] assms(2)] assms(3) Shutdown_laws(3) [OF inv] by auto
  have "duplex_reachable c'" using drain_reachable [OF d reachable_by(6) [OF assms(1)] assms(2)] by simp
  moreover have "stream_closed c'" using drain_closed [OF d Shutdown_laws(1,2) [OF inv] assms(2)] .
  ultimately show ?thesis using d outstanding_bound [OF inv] by (simp add: DuplexClient_destroy_def)
qed

theorem DuplexClient_destroy_ends_witness:
  "\<exists>c' es'. DuplexClient_destroy
      [Got_event Op_START True 0 GrpcStatus_default, Got_event Op_READ False 0 GrpcStatus_default, Queue_shutdown]
      (DuplexClient_new False (0 :: nat) :: (nat, nat) DuplexClient) = Some (c', es') \<and> stream_closed c'"
proof -
  let ?es = "[Got_event Op_START True (0 :: nat) GrpcStatus_default, Got_event Op_READ False 0 GrpcStatus_default, Queue_shutdown]"
  have "events_allowed ?es (fst (Shutdown (DuplexClient_new False (0 :: nat) :: (nat, nat) DuplexClient)))"
    by code_simp
  moreover have "length (dc_issued (DuplexClient_new False (0 :: nat) :: (nat, nat) DuplexClient)) < length ?es"
    by code_simp
  ultimately show ?thesis
    using DuplexClient_destroy_ends [OF example_reachable, of ?es] by blast
qed

text \<open>
  \<open>Finish\<close> gives the status of the server when the end of the stream has not been seen yet: it
  waits through the events of other operations for that of its own. Once that event has been
  processed, also by a call that waited for something else, it gives an unknown error instead of the
  status that the client has stored.
\<close>

theorem Finish_status:
  assumes "duplex_reachable c"
  shows "(is_done Op_FINISH c \<longrightarrow>
      Finish es c = Some (c, \<lparr>gs_code = Code_UNKNOWN, gs_message = ''unknown error retrieving status''\<rparr>, es)) \<and>
    (is_pending Op_FINISH c \<or> \<not> stream_closed c \<longrightarrow> list_all (other_event Op_FINISH) pre \<longrightarrow>
      (\<exists>c'. Finish (pre @ Got_event Op_FINISH True m s # es) c = Some (c', s, es)))"
proof -
  have inv: "duplex_inv c" using assms by (rule reachable_inv)
  have "is_done Op_FINISH c \<Longrightarrow>
      Finish es c = Some (c, \<lparr>gs_code = Code_UNKNOWN, gs_message = ''unknown error retrieving status''\<rparr>, es)"
    using inv by (auto simp: Finish_def DoSync_def FinishAsyncInternal_def DoAsync_def CheckFlags_simps duplex_inv_def
        Result_of_error_def Result_ok_def Result_IsTimeout_def)
  moreover have "\<exists>c'. Finish (pre @ Got_event Op_FINISH True m s # es) c = Some (c', s, es)"
    if "is_pending Op_FINISH c \<or> \<not> stream_closed c" "list_all (other_event Op_FINISH) pre"
    using that wait_for_finish [of pre m s es "fst (FinishAsyncInternal c)"]
    by (auto simp: Finish_def DoSync_def FinishAsyncInternal_def DoAsync_def CheckFlags_simps stream_closed_def Result_ok_def Let_def)
  ultimately show ?thesis by blast
qed

theorem Finish_status_witness:
  "\<exists>c'. Finish [Got_event Op_START True 0 GrpcStatus_default, Got_event Op_FINISH True 0 GrpcStatus_default]
     (DuplexClient_new False (0 :: nat) :: (nat, nat) DuplexClient) = Some (c', GrpcStatus_default, [])"
proof -
  have "\<not> stream_closed (DuplexClient_new False (0 :: nat) :: (nat, nat) DuplexClient)"
    unfolding stream_closed_def is_done_def is_pending_def by code_simp
  then show ?thesis
    using Finish_status [OF example_reachable, of "[]"
      "[Got_event Op_START True 0 GrpcStatus_default]" 0 GrpcStatus_default]
    by (simp add: other_event_def)
qed

end
