(* ===== verification/ProcText.thy ===== *)
theory ProcText
  imports NetworkConnection Utility
begin

text \<open>
  The text of \<open>/proc\<close> (first half of \<open>ProcfsScraper.cpp\<close>): fields of a line, hexadecimal bytes,
  the lines of \<open>net/tcp\<close> and \<open>net/tcp6\<close>, inode links, control groups and the process state.

  A pointer \<open>p\<close> into a buffer that ends at \<open>endp\<close> is the list of the bytes from \<open>p\<close> to \<open>endp\<close>:
  \<open>p < endp\<close> is that it is not empty and \<open>*p\<close> is its head. Reading at or after \<open>endp\<close> is the fault
  \<open>Undefined_behaviour\<close>; a null pointer is \<open>None\<close>. The byte order is little-endian.
\<close>

section \<open>Fields\<close>

definition deref :: "string \<Rightarrow> cxx_fault + char" where
  "deref p = (case p of [] \<Rightarrow> Inl Undefined_behaviour | c # _ \<Rightarrow> Inr c)"

fun rep_find_loop :: "nat \<Rightarrow> string \<Rightarrow> char \<Rightarrow> nat \<Rightarrow> nat option" where
  "rep_find_loop 0 str c pos = find_char_from c pos str"
| "rep_find_loop (Suc n) str c pos =
     (case find_char_from c pos str of None \<Rightarrow> None | Some pos' \<Rightarrow> rep_find_loop n str c (pos' + 1))"

definition rep_find :: "int \<Rightarrow> string \<Rightarrow> char \<Rightarrow> nat option" where
  "rep_find n str c = (if n \<le> 0 then None else rep_find_loop (nat (n - 1)) str c 0)"

text \<open>The two loops of \<open>nextfield\<close>: to the end of the field, and over the white space after it.\<close>

fun nextfield_word :: "string \<Rightarrow> string" where
  "nextfield_word [] = []"
| "nextfield_word (c # p) = (if c \<noteq> nul \<and> \<not> c_isspace c then nextfield_word p else c # p)"

fun nextfield_space :: "string \<Rightarrow> cxx_fault + string" where
  "nextfield_space [] = Inr []"
| "nextfield_space (c # p) =
     (if c = nul then Inr (c # p)
      else res_bind (deref p) (\<lambda>d. if c_isspace d then nextfield_space p else Inr p))"

definition nextfield :: "string \<Rightarrow> cxx_fault + string option" where
  "nextfield p =
     res_bind (nextfield_space (nextfield_word p)) (\<lambda>q.
       case q of [] \<Rightarrow> Inr None | c # _ \<Rightarrow> Inr (if c \<noteq> nul then Some q else None))"

fun rep_nextfield :: "nat \<Rightarrow> string option \<Rightarrow> cxx_fault + string option" where
  "rep_nextfield 0 p = Inr p"
| "rep_nextfield (Suc n) p =
     (case p of None \<Rightarrow> Inr None | Some q \<Rightarrow> res_bind (nextfield q) (rep_nextfield n))"

section \<open>Numbers\<close>

text \<open>The C string at a pointer; without a terminator the library function runs over the end.\<close>

definition c_string :: "string \<Rightarrow> cxx_fault + string" where
  "c_string p = (if nul \<in> set p then Inr (takeWhile (\<lambda>c. c \<noteq> nul) p) else Inl Undefined_behaviour)"

text \<open>
  \<open>strtoumax\<close> in base 10: the value, saturated at the largest one and negated modulo the word size
  after a minus sign, and what is left of the string.
\<close>

definition strtoumax :: "string \<Rightarrow> u64 \<times> string" where
  "strtoumax s =
     (let s1 = dropWhile c_isspace s;
          neg = (s1 \<noteq> [] \<and> hd s1 = CHR ''-'');
          s2 = (if s1 \<noteq> [] \<and> (hd s1 = CHR ''-'' \<or> hd s1 = CHR ''+'') then tl s1 else s1);
          ds = takeWhile c_isdigit s2;
          v = digits_value ds
      in if ds = [] then (0, s)
         else (if v \<ge> 2 ^ 64 then - 1 else if neg then - of_nat v else of_nat v, drop (length ds) s2))"

definition IsHexChar :: "char \<Rightarrow> bool" where
  "IsHexChar c = (if c_isdigit c then True else cc CHR ''A'' \<le> cc c \<and> cc c \<le> cc CHR ''F'')"

definition HexCharToVal :: "char \<Rightarrow> u8" where
  "HexCharToVal c =
     (if c_isdigit c then of_nat (cc c) - of_nat (cc CHR ''0'')
      else 10 + (of_nat (cc c) - of_nat (cc CHR ''A'')))"

text \<open>A byte is stored at the end of the buffer; a chunk is reversed when it is complete.\<close>

definition store_byte :: "nat \<Rightarrow> bool \<Rightarrow> nat \<Rightarrow> u8 \<Rightarrow> u8 list \<Rightarrow> u8 list" where
  "store_byte chunk_size reverse i b bbuf =
     (let bbuf1 = bbuf @ [b]; k = length bbuf1 - chunk_size
      in if reverse \<and> i mod chunk_size = chunk_size - 1 then take k bbuf1 @ rev (drop k bbuf1) else bbuf1)"

text \<open>The number of bytes read and the bytes.\<close>

fun ReadHexBytes_loop :: "string \<Rightarrow> nat \<Rightarrow> nat \<Rightarrow> nat \<Rightarrow> bool \<Rightarrow> u8 list \<Rightarrow> nat \<times> u8 list" where
  "ReadHexBytes_loop (high # low # p) i num_bytes chunk_size reverse bbuf =
     (if i < num_bytes \<and> p \<noteq> [] then
        (if \<not> IsHexChar high \<or> \<not> IsHexChar low then (i, bbuf)
         else ReadHexBytes_loop p (i + 1) num_bytes chunk_size reverse
                (store_byte chunk_size reverse i (push_bit 4 (HexCharToVal high) OR HexCharToVal low) bbuf))
      else (i, bbuf))"
| "ReadHexBytes_loop p i num_bytes chunk_size reverse bbuf = (i, bbuf)"

definition ReadHexBytes :: "string \<Rightarrow> nat \<Rightarrow> nat \<Rightarrow> bool \<Rightarrow> nat \<times> u8 list" where
  "ReadHexBytes p chunk_size num_chunks reverse =
     ReadHexBytes_loop p 0 (chunk_size * num_chunks) chunk_size reverse []"

section \<open>Lines of connections\<close>

record ConnLineData =
  cl_local :: Endpoint
  cl_remote :: Endpoint
  cl_state :: u8
  cl_inode :: u64

text \<open>The two bytes of a port as they lie in memory.\<close>

definition u16_of_bytes :: "u8 list \<Rightarrow> u16" where
  "u16_of_bytes bs = ucast (bs ! 0) OR push_bit 8 (ucast (bs ! 1))"

definition ParseEndpoint :: "string \<Rightarrow> Family \<Rightarrow> cxx_fault + (string \<times> Endpoint) option" where
  "ParseEndpoint p family =
     (let addr_len = Address_Length family;
          (nread, addr_data) = ReadHexBytes p 4 (addr_len div 4) True
      in if nread \<noteq> addr_len then Inr None
         else
           (let p1 = drop (nread * 2) p
            in res_bind (deref p1) (\<lambda>c.
                 if c \<noteq> CHR '':'' then Inr None
                 else
                   (let p2 = tl p1;
                        (nread2, port) = ReadHexBytes p2 2 1 True
                    in if nread2 \<noteq> 2 then Inr None
                       else Inr (Some (drop (nread2 * 2) p2,
                              Endpoint_of_address (Address_of_bytes family addr_data) (u16_of_bytes port)))))))"

text \<open>Leading white space is stripped without a look at \<open>endp\<close>.\<close>

fun strip_leading :: "string \<Rightarrow> cxx_fault + string" where
  "strip_leading [] = Inl Undefined_behaviour"
| "strip_leading (c # p) = (if c_isspace c then strip_leading p else Inr (c # p))"

text \<open>A step that fails with a null pointer makes the whole line fail.\<close>

definition opt_bind :: "cxx_fault + 'a option \<Rightarrow> ('a \<Rightarrow> cxx_fault + 'b option) \<Rightarrow> cxx_fault + 'b option" where
  "opt_bind m f = res_bind m (\<lambda>r. case r of None \<Rightarrow> Inr None | Some x \<Rightarrow> f x)"

definition ParseInode :: "string \<Rightarrow> cxx_fault + u64 option" where
  "ParseInode p =
     res_bind (c_string p) (\<lambda>s.
       (let (inode, rest) = strtoumax s
        in Inr (if rest \<noteq> [] \<and> \<not> c_isspace (hd rest) then None else Some inode)))"

text \<open>The part of a line from its state on.\<close>

definition ParseConnLine_state :: "string \<Rightarrow> Endpoint \<Rightarrow> Endpoint \<Rightarrow> cxx_fault + ConnLineData option" where
  "ParseConnLine_state p local remote =
     (let (nread, state) = ReadHexBytes p 1 1 False
      in if nread \<noteq> 1 then Inr None
         else
           opt_bind (rep_nextfield 6 (Some (drop (nread * 2) p))) (\<lambda>p'.
           opt_bind (ParseInode p') (\<lambda>inode.
             Inr (Some \<lparr>cl_local = local, cl_remote = remote, cl_state = state ! 0, cl_inode = inode\<rparr>))))"

definition ParseConnLine :: "string \<Rightarrow> Family \<Rightarrow> cxx_fault + ConnLineData option" where
  "ParseConnLine p family =
     res_bind (strip_leading p) (\<lambda>p0.
     opt_bind (nextfield p0) (\<lambda>p1.
     opt_bind (ParseEndpoint p1 family) (\<lambda>(p2, local).
     opt_bind (nextfield p2) (\<lambda>p3.
     opt_bind (ParseEndpoint p3 family) (\<lambda>(p4, remote).
     opt_bind (nextfield p4) (\<lambda>p5.
       ParseConnLine_state p5 local remote))))))"

section \<open>Reading stays inside a terminated buffer\<close>

lemma opt_bind_simps [simp]: "opt_bind (Inr (Some x)) f = f x" "opt_bind (Inr None) f = Inr None" "opt_bind (Inl e) f = Inl e"
  by (simp_all add: opt_bind_def)

text \<open>A result without a fault, whose pointer, if it has one, satisfies a predicate.\<close>

definition safe :: "('a \<Rightarrow> bool) \<Rightarrow> cxx_fault + 'a option \<Rightarrow> bool" where
  "safe P m = (case m of Inl _ \<Rightarrow> False | Inr r \<Rightarrow> (case r of None \<Rightarrow> True | Some x \<Rightarrow> P x))"

lemma safe_simps [simp]: "safe P (Inr None)" "safe P (Inr (Some x)) = P x" "\<not> safe P (Inl e)"
  by (simp_all add: safe_def)

lemma safe_opt_bind: "safe P m \<Longrightarrow> (\<And>x. P x \<Longrightarrow> safe Q (f x)) \<Longrightarrow> safe Q (opt_bind m f)"
  by (cases m; cases "projr m") auto

lemma nul_eq: "nul = CHR 0x00"
  by (simp add: nul_def char_of_def)

abbreviation terminated :: "string \<Rightarrow> bool" where
  "terminated p \<equiv> nul \<in> set p"

lemma nextfield_word_terminated: "terminated p \<Longrightarrow> terminated (nextfield_word p)"
  by (induction p) auto

lemma nextfield_space_terminated: "terminated p \<Longrightarrow> \<exists>q. nextfield_space p = Inr q \<and> terminated q"
proof (induction p)
  case (Cons c p)
  then show ?case by (cases p) (auto simp: deref_def)
qed simp

lemma nextfield_safe:
  assumes "terminated p"
  shows "safe terminated (nextfield p)"
proof -
  obtain q where "nextfield_space (nextfield_word p) = Inr q" "terminated q"
    using nextfield_space_terminated [OF nextfield_word_terminated [OF assms]] by blast
  then show ?thesis by (cases q) (auto simp: nextfield_def)
qed

lemma rep_nextfield_safe: "safe terminated (Inr r) \<Longrightarrow> safe terminated (rep_nextfield n r)"
proof (induction n arbitrary: r)
  case (Suc n)
  show ?case
  proof (cases r)
    case (Some q)
    then have "safe terminated (nextfield q)" using Suc.prems nextfield_safe by simp
    then show ?thesis using Some Suc.IH by (cases "nextfield q") simp_all
  qed simp
qed simp

lemma not_hex_nul: "\<not> IsHexChar nul"
  by (simp add: IsHexChar_def nul_def c_isdigit_def cc_def)

lemma length_reverse_tail: "length (take k l @ rev (drop k l)) = length l"
  by (metis append_take_drop_id length_append length_rev)

lemma length_store_byte: "length (store_byte ch r i b bbuf) = Suc (length bbuf)"
  unfolding store_byte_def Let_def if_distrib [of length] length_reverse_tail by simp

lemma ReadHexBytes_loop_terminated:
  "terminated p \<Longrightarrow> length bbuf = i \<Longrightarrow> ReadHexBytes_loop p i n ch r bbuf = (j, bs) \<Longrightarrow>
     i \<le> j \<and> terminated (drop (2 * (j - i)) p) \<and> length bs = j"
proof (induction p i n ch r bbuf rule: ReadHexBytes_loop.induct)
  case (1 high low p i n ch r bbuf)
  show ?case
  proof (cases "i < n \<and> p \<noteq> [] \<and> IsHexChar high \<and> IsHexChar low")
    case True
    then have "terminated p" using "1.prems"(1) not_hex_nul by auto
    then have "i + 1 \<le> j \<and> terminated (drop (2 * (j - (i + 1))) p) \<and> length bs = j"
      using "1.IH" "1.prems"(2,3) True by (simp add: length_store_byte)
    moreover from this have "2 * (j - i) = Suc (Suc (2 * (j - (i + 1))))" by linarith
    ultimately show ?thesis by simp
  next
    case False
    then have "j = i" "bs = bbuf" using "1.prems"(3) by (auto split: if_splits)
    then show ?thesis using "1.prems"(1,2) by simp
  qed
qed auto

lemma ReadHexBytes_terminated:
  assumes "terminated p" "ReadHexBytes p ch k r = (j, bs)"
  shows "terminated (drop (j * 2) p)" "length bs = j"
  using ReadHexBytes_loop_terminated [OF assms(1), of "[]" 0] assms(2) by (auto simp: ReadHexBytes_def mult.commute)

lemma ParseEndpoint_safe:
  assumes "terminated p"
  shows "safe (\<lambda>(q, _). terminated q) (ParseEndpoint p f)"
proof -
  obtain n a where r: "ReadHexBytes p 4 (Address_Length f div 4) True = (n, a)" by force
  obtain c p2 where p1: "drop (n * 2) p = c # p2"
    using ReadHexBytes_terminated(1) [OF assms r] by (cases "drop (n * 2) p") auto
  obtain n2 b where r2: "ReadHexBytes p2 2 1 True = (n2, b)" by force
  have "c = CHR '':'' \<Longrightarrow> terminated p2"
    using ReadHexBytes_terminated(1) [OF assms r] p1 by (auto simp: nul_eq)
  then show ?thesis using ReadHexBytes_terminated(1) [OF _ r2] r p1 r2
    by (auto simp: ParseEndpoint_def deref_def Let_def)
qed

lemma strip_leading_safe: "terminated p \<Longrightarrow> \<exists>q. strip_leading p = Inr q \<and> terminated q"
  by (induction p) (auto simp: c_isspace_def nul_def cc_def)

lemma ParseInode_safe: "terminated p \<Longrightarrow> safe (\<lambda>_. True) (ParseInode p)"
  by (auto simp: ParseInode_def c_string_def Let_def split: prod.split)

lemma ParseConnLine_state_safe:
  assumes "terminated p"
  shows "safe (\<lambda>_. True) (ParseConnLine_state p l r)"
proof -
  obtain n s where rd: "ReadHexBytes p 1 1 False = (n, s)" by force
  have "safe (\<lambda>_. True) (opt_bind (ParseInode q) (\<lambda>inode. Inr (Some (g inode))))"
    if "terminated q" for q and g :: "u64 \<Rightarrow> ConnLineData"
    using ParseInode_safe [OF that] by (rule safe_opt_bind) simp
  then have "safe (\<lambda>_. True) (opt_bind (rep_nextfield 6 (Some (drop (n * 2) p)))
      (\<lambda>q. opt_bind (ParseInode q) (\<lambda>inode. Inr (Some (g inode)))))" for g :: "u64 \<Rightarrow> ConnLineData"
    using ReadHexBytes_terminated(1) [OF assms rd]
    by (intro safe_opt_bind [where P = terminated] rep_nextfield_safe) simp_all
  from this [of "\<lambda>inode. \<lparr>cl_local = l, cl_remote = r, cl_state = s ! 0, cl_inode = inode\<rparr>"] show ?thesis
    unfolding ParseConnLine_state_def rd by auto
qed

lemma ParseConnLine_safe:
  assumes "terminated p"
  shows "safe (\<lambda>_. True) (ParseConnLine p f)"
proof -
  obtain p0 where "strip_leading p = Inr p0" "terminated p0" using strip_leading_safe [OF assms] by blast
  then show ?thesis unfolding ParseConnLine_def
    by (auto intro!: safe_opt_bind [where P = terminated] safe_opt_bind [where P = "\<lambda>(q, _). terminated q"]
        nextfield_safe ParseEndpoint_safe ParseConnLine_state_safe)
qed

section \<open>Lines in the format of the kernel\<close>

text \<open>
  The documented format of \<open>net/tcp\<close>: an address is printed as hexadecimal words in the byte order
  of the host, a port as a hexadecimal number.
\<close>

definition hex_digit :: "nat \<Rightarrow> char" where
  "hex_digit n = (if n < 10 then char_of (48 + n) else char_of (55 + n))"

definition hex_byte :: "u8 \<Rightarrow> string" where
  "hex_byte b = [hex_digit (unat (drop_bit 4 b)), hex_digit (unat (b AND 15))]"

fun hex_words :: "u8 list \<Rightarrow> string" where
  "hex_words (a # b # c # d # bs) = hex_byte d @ hex_byte c @ hex_byte b @ hex_byte a @ hex_words bs"
| "hex_words bs = []"

definition hex_port :: "u16 \<Rightarrow> string" where
  "hex_port w = hex_byte (ucast (drop_bit 8 w)) @ hex_byte (ucast w)"

definition hex_endpoint :: "u8 list \<Rightarrow> u16 \<Rightarrow> string" where
  "hex_endpoint bs w = hex_words bs @ CHR '':'' # hex_port w"

lemma cc_hex_digit: "n < 16 \<Longrightarrow> cc (hex_digit n) = (if n < 10 then 48 + n else 55 + n)"
  by (simp add: hex_digit_def cc_def)

lemma cc_letters: "cc CHR ''0'' = 48" "cc CHR ''A'' = 65" "cc CHR ''F'' = 70"
  by (simp_all add: cc_def)

lemma hex_digit_laws: "n < 16 \<Longrightarrow> IsHexChar (hex_digit n) \<and> HexCharToVal (hex_digit n) = of_nat n"
  by (cases "n < 10") (simp_all add: IsHexChar_def HexCharToVal_def c_isdigit_def cc_hex_digit cc_letters)

lemma nibble_bounds: "unat (drop_bit 4 (b :: u8)) < 16" "unat ((b :: u8) AND 15) < 16"
proof -
  have "unat (drop_bit 4 b) = unat b div 16" by (simp add: drop_bit_eq_div unat_div)
  moreover have "unat b < 2 ^ LENGTH(8)" by (rule unsigned_less)
  ultimately show "unat (drop_bit 4 b) < 16" by simp
  have "b AND 15 \<le> 15" by (rule word_and_le1)
  then show "unat (b AND 15) < 16" by (simp add: word_le_nat_alt)
qed

lemma nibbles: "push_bit 4 (drop_bit 4 b) OR (b AND 15) = (b :: u8)"
proof (rule bit_word_eqI)
  fix n assume "n < LENGTH(8)"
  have m: "(15 :: u8) = mask 4" by (simp add: mask_eq_exp_minus_1)
  have "bit (15 :: u8) n \<longleftrightarrow> n < 4" using \<open>n < LENGTH(8)\<close> unfolding m bit_mask_iff by simp
  then show "bit (push_bit 4 (drop_bit 4 b) OR (b AND 15)) n = bit b n"
    using \<open>n < LENGTH(8)\<close> by (auto simp: bit_or_iff bit_and_iff bit_push_bit_iff bit_drop_bit_eq)
qed

lemma read_hex_byte:
  assumes "p \<noteq> []" "i < n"
  shows "ReadHexBytes_loop (hex_byte b @ p) i n ch r bbuf = ReadHexBytes_loop p (i + 1) n ch r (store_byte ch r i b bbuf)"
  using assms hex_digit_laws [OF nibble_bounds(1) [of b]] hex_digit_laws [OF nibble_bounds(2) [of b]] nibbles [of b]
  by (simp add: hex_byte_def)

lemma ReadHexBytes_loop_stop: "ReadHexBytes_loop p n n ch r bbuf = (n, bbuf)"
  by (cases "(p, n, n, ch, r, bbuf)" rule: ReadHexBytes_loop.cases) simp_all

lemma store_chunk:
  "i mod 4 = 0 \<Longrightarrow> store_byte 4 True (Suc (Suc (Suc i))) a (store_byte 4 True (Suc (Suc i)) b (store_byte 4 True (Suc i) c (store_byte 4 True i d bbuf)))
     = bbuf @ [a, b, c, d]"
proof -
  assume "i mod 4 = 0"
  then have "Suc i mod 4 = 1" "Suc (Suc i) mod 4 = 2" "Suc (Suc (Suc i)) mod 4 = 3"
    by (simp_all add: mod_Suc)
  with \<open>i mod 4 = 0\<close> show ?thesis by (simp add: store_byte_def)
qed

lemma Suc4_mod: "Suc (Suc (Suc (Suc k))) mod 4 = k mod 4"
  by presburger

lemma hex_byte_append: "hex_byte b @ p \<noteq> []"
  by (simp add: hex_byte_def)

lemma read_hex_words:
  "length bs mod 4 = 0 \<Longrightarrow> i mod 4 = 0 \<Longrightarrow> i + length bs = n \<Longrightarrow> p \<noteq> [] \<Longrightarrow>
     ReadHexBytes_loop (hex_words bs @ p) i n 4 True bbuf = (n, bbuf @ bs)"
proof (induction bs arbitrary: i bbuf rule: hex_words.induct)
  case (1 a b c d bs)
  have "hex_words bs @ p \<noteq> []" using "1.prems"(4) by simp
  then have "ReadHexBytes_loop (hex_words (a # b # c # d # bs) @ p) i n 4 True bbuf =
      ReadHexBytes_loop (hex_words bs @ p) (Suc (Suc (Suc (Suc i)))) n 4 True (bbuf @ [a, b, c, d])"
    using "1.prems" by (simp add: read_hex_byte hex_byte_append store_chunk)
  also have "\<dots> = (n, (bbuf @ [a, b, c, d]) @ bs)"
    using "1.prems" by (intro "1.IH") (simp_all add: Suc4_mod)
  finally show ?case by simp
qed (simp_all add: ReadHexBytes_loop_stop)

lemma read_hex_port: "p \<noteq> [] \<Longrightarrow> ReadHexBytes (hex_port w @ p) 2 1 True = (2, [ucast w, ucast (drop_bit 8 w)])"
  by (simp add: ReadHexBytes_def hex_port_def read_hex_byte hex_byte_append store_byte_def ReadHexBytes_loop_stop numeral_2_eq_2)

lemma port_bytes: "u16_of_bytes [ucast w, ucast (drop_bit 8 w)] = w"
proof (rule bit_word_eqI)
  fix n assume "n < LENGTH(16)"
  then show "bit (u16_of_bytes [ucast w, ucast (drop_bit 8 w)]) n = bit w n"
    by (auto simp: u16_of_bytes_def bit_or_iff bit_push_bit_iff bit_unsigned_iff bit_drop_bit_eq)
qed

lemma length_hex: "length (hex_byte b) = 2" "length bs mod 4 = 0 \<Longrightarrow> length (hex_words bs) = 2 * length bs"
  by (simp add: hex_byte_def) (induction bs rule: hex_words.induct; simp add: hex_byte_def)

lemma length_hex_port: "length (hex_port w) = 4"
  by (simp add: hex_port_def length_hex)

lemma Address_Length_mod: "Address_Length f mod 4 = 0"
  by (cases f) (simp_all add: Address_Length_def)

lemma ParseEndpoint_hex:
  assumes "length bs = Address_Length f" "p \<noteq> []"
  shows "ParseEndpoint (hex_endpoint bs w @ p) f = Inr (Some (p, Endpoint_of_address (Address_of_bytes f bs) w))"
proof -
  let ?q = "CHR '':'' # hex_port w @ p"
  have m: "length bs mod 4 = 0" using assms Address_Length_mod by simp
  have n: "4 * (Address_Length f div 4) = length bs" using assms Address_Length_mod [of f] by presburger
  have "ReadHexBytes (hex_words bs @ ?q) 4 (Address_Length f div 4) True = (length bs, bs)"
    unfolding ReadHexBytes_def n using read_hex_words [OF m, of 0 "length bs" ?q "[]"] by simp
  moreover have "drop (length bs * 2) (hex_words bs @ ?q) = ?q"
    using length_hex(2) [OF m] by simp
  ultimately show ?thesis using assms read_hex_port [OF assms(2), of w]
    by (simp add: ParseEndpoint_def hex_endpoint_def deref_def port_bytes length_hex_port Let_def)
qed

text \<open>Words of a line and the white space between them.\<close>

definition plain :: "char \<Rightarrow> bool" where
  "plain c = (c \<noteq> nul \<and> \<not> c_isspace c)"

definition gap :: "string \<Rightarrow> bool" where
  "gap s = (s \<noteq> [] \<and> list_all c_isspace s)"

definition proc_word :: "string \<Rightarrow> bool" where
  "proc_word w = (w \<noteq> [] \<and> list_all plain w)"

lemma space_not_nul: "c_isspace c \<Longrightarrow> c \<noteq> nul"
  by (auto simp: c_isspace_def nul_eq cc_def)

lemma nextfield_space_gap: "gap s \<Longrightarrow> q \<noteq> [] \<Longrightarrow> plain (hd q) \<Longrightarrow> nextfield_space (s @ q) = Inr q"
proof (induction s)
  case (Cons c s)
  show ?case
  proof (cases s)
    case Nil
    then show ?thesis using Cons.prems by (cases q) (auto simp: gap_def deref_def plain_def dest: space_not_nul)
  next
    case (Cons d s')
    then have "gap s" using Cons.prems by (simp add: gap_def)
    then show ?thesis using Cons Cons.IH Cons.prems by (auto simp: gap_def deref_def dest: space_not_nul)
  qed
qed (simp add: gap_def)

lemma nextfield_gap:
  assumes "list_all plain w" "gap s" "q \<noteq> []" "plain (hd q)"
  shows "nextfield (w @ s @ q) = Inr (Some q)"
proof -
  have "nextfield_word (w @ s @ q) = s @ q"
    using assms(1,2) by (induction w) (cases s; auto simp: plain_def gap_def)+
  then show ?thesis using nextfield_space_gap [OF assms(2-4)] assms(3,4)
    by (cases q) (simp_all add: nextfield_def plain_def)
qed

definition proc_fields :: "(string \<times> string) list \<Rightarrow> string" where
  "proc_fields fs = concat (map (\<lambda>(s, w). s @ w) fs)"

definition good_fields :: "(string \<times> string) list \<Rightarrow> bool" where
  "good_fields fs = list_all (\<lambda>(s, w). gap s \<and> proc_word w) fs"

lemma rep_nextfield_fields:
  "good_fields fs \<Longrightarrow> list_all plain w \<Longrightarrow>
     rep_nextfield (length fs) (Some (w @ proc_fields fs @ q)) = Inr (Some ((if fs = [] then w else snd (last fs)) @ q))"
proof (induction fs arbitrary: w)
  case (Cons f fs)
  obtain s w' where f: "f = (s, w')" by force
  then have w': "gap s" "w' \<noteq> []" "list_all plain w'" "good_fields fs"
    using Cons.prems by (simp_all add: good_fields_def proc_word_def)
  have "nextfield (w @ s @ w' @ proc_fields fs @ q) = Inr (Some (w' @ proc_fields fs @ q))"
    using w' Cons.prems(2) by (intro nextfield_gap) (auto simp: neq_Nil_conv)
  then show ?case using f Cons.IH [OF w'(4,3)] by (auto simp: proc_fields_def)
qed (simp add: proc_fields_def)

lemma digit_plain: "c_isdigit c \<Longrightarrow> plain c"
  by (auto simp: c_isdigit_def plain_def c_isspace_def nul_eq cc_def)

lemma strtoumax_digits:
  assumes "n < 2 ^ 64" "rest = [] \<or> \<not> c_isdigit (hd rest)"
  shows "strtoumax (show_nat n @ rest) = (of_nat n, rest)"
proof -
  obtain d ds where ds: "show_nat n = d # ds" using show_nat_digits [of n] by (cases "show_nat n") auto
  have dig: "c_isdigit d" "list_all c_isdigit (show_nat n)" "digits_value (show_nat n) = n"
    using show_nat_digits [of n] ds by simp_all
  have "dropWhile c_isspace (show_nat n @ rest) = show_nat n @ rest" "d \<noteq> CHR ''-''" "d \<noteq> CHR ''+''"
    using dig(1) ds by (auto simp: c_isspace_def c_isdigit_def cc_def)
  moreover have "takeWhile c_isdigit (show_nat n @ rest) = show_nat n"
    using dig(2) assms(2) by (cases rest) (auto simp: list_all_iff takeWhile_append2)
  ultimately show ?thesis using dig(3) ds assms(1) by (simp add: strtoumax_def Let_def)
qed

lemma ParseInode_show:
  assumes "n < 2 ^ 64" "rest = [] \<or> c_isspace (hd rest)" "nul \<notin> set rest"
  shows "ParseInode (show_nat n @ rest @ nul # junk) = Inr (Some (of_nat n))"
proof -
  have "nul \<notin> set (show_nat n)" using show_nat_digits [of n] digit_plain by (auto simp: list_all_iff plain_def)
  then have "takeWhile (\<lambda>c. c \<noteq> nul) (show_nat n @ rest @ nul # junk) = show_nat n @ rest"
    using assms(3) by (subst takeWhile_append2; auto)+
  moreover have "rest = [] \<or> \<not> c_isdigit (hd rest)"
    using assms(2) by (auto simp: c_isspace_def c_isdigit_def)
  ultimately show ?thesis using assms strtoumax_digits [OF assms(1)]
    by (auto simp: ParseInode_def c_string_def)
qed

lemma hex_char_plain: "IsHexChar c \<Longrightarrow> plain c"
  by (auto simp: IsHexChar_def plain_def c_isspace_def c_isdigit_def cc_letters nul_eq cc_def split: if_splits)

lemma hex_byte_plain: "list_all plain (hex_byte b)"
  using hex_digit_laws [OF nibble_bounds(1) [of b]] hex_digit_laws [OF nibble_bounds(2) [of b]]
  by (simp add: hex_byte_def hex_char_plain)

lemma hex_endpoint_plain: "list_all plain (hex_endpoint bs w)"
proof -
  have "list_all plain (hex_words bs)" by (induction bs rule: hex_words.induct) (simp_all add: hex_byte_plain)
  then show ?thesis by (simp add: hex_endpoint_def hex_port_def hex_byte_plain) (simp add: plain_def c_isspace_def nul_eq cc_def)
qed

lemma hd_plain: "list_all plain w \<Longrightarrow> w \<noteq> [] \<Longrightarrow> plain (hd (w @ q))"
  by (cases w) simp_all

lemma endpoint_not_empty: "hex_endpoint bs w \<noteq> []"
  by (simp add: hex_endpoint_def)

lemma nextfield_endpoint: "list_all plain w \<Longrightarrow> gap s \<Longrightarrow> nextfield (w @ s @ hex_endpoint bs pt @ q) = Inr (Some (hex_endpoint bs pt @ q))"
  using endpoint_not_empty [of bs pt] by (intro nextfield_gap hd_plain hex_endpoint_plain) simp_all

lemma ParseConnLine_state_fields:
  assumes "good_fields fs" "length fs = 5" "gap g" "inode < 2 ^ 64" "rest = [] \<or> c_isspace (hd rest)" "nul \<notin> set rest"
  shows "ParseConnLine_state (hex_byte st @ proc_fields fs @ g @ show_nat inode @ rest @ nul # junk) l r =
    Inr (Some \<lparr>cl_local = l, cl_remote = r, cl_state = st, cl_inode = of_nat inode\<rparr>)"
proof -
  let ?q = "proc_fields fs @ g @ show_nat inode @ rest @ nul # junk"
  have q: "?q \<noteq> []" by simp
  have rd: "ReadHexBytes (hex_byte st @ ?q) 1 1 False = (1, [st])"
    using read_hex_byte [OF q, of 0 1 st 1 False "[]"] by (simp add: ReadHexBytes_def ReadHexBytes_loop_stop store_byte_def)
  have "proc_word (show_nat inode)"
    using show_nat_digits [of inode] digit_plain by (auto simp: proc_word_def list_all_iff)
  then have "good_fields (fs @ [(g, show_nat inode)])" using assms(1,3) by (simp add: good_fields_def)
  then have "rep_nextfield (length (fs @ [(g, show_nat inode)])) (Some ([] @ proc_fields (fs @ [(g, show_nat inode)]) @ rest @ nul # junk)) =
      Inr (Some (show_nat inode @ rest @ nul # junk))"
    by (subst rep_nextfield_fields) simp_all
  then have "rep_nextfield 6 (Some ?q) = Inr (Some (show_nat inode @ rest @ nul # junk))"
    using assms(2) by (simp add: proc_fields_def numeral_eq_Suc del: rep_nextfield.simps)
  moreover have "drop (1 * 2) (hex_byte st @ ?q) = ?q" by (simp add: hex_byte_def)
  ultimately show ?thesis
    unfolding ParseConnLine_state_def rd using ParseInode_show [OF assms(4-6), of junk] by simp
qed

section \<open>Properties\<close>

text \<open>
  C21: A line in the format of the kernel parses to what was printed: both endpoints with their
  addresses and ports, the state and the inode, for any width of the white space, any contents of
  the fields that are skipped, and anything in the buffer after the terminator.
\<close>

theorem ParseConnLine_reads_line:
  assumes "list_all c_isspace lead" "proc_word sl" "gap g1" "gap g2" "gap g3" "gap g4"
    "length lb = Address_Length f" "length rb = Address_Length f" "good_fields fs" "length fs = 5"
    "inode < 2 ^ 64" "rest = [] \<or> c_isspace (hd rest)" "nul \<notin> set rest"
  shows "ParseConnLine (lead @ sl @ g1 @ hex_endpoint lb lp @ g2 @ hex_endpoint rb rp @ g3 @
      hex_byte st @ proc_fields fs @ g4 @ show_nat inode @ rest @ nul # junk) f =
    Inr (Some \<lparr>cl_local = Endpoint_of_address (Address_of_bytes f lb) lp,
      cl_remote = Endpoint_of_address (Address_of_bytes f rb) rp, cl_state = st, cl_inode = of_nat inode\<rparr>)"
proof -
  let ?q3 = "hex_byte st @ proc_fields fs @ g4 @ show_nat inode @ rest @ nul # junk"
  let ?q2 = "hex_endpoint rb rp @ g3 @ ?q3"
  let ?q1 = "hex_endpoint lb lp @ g2 @ ?q2"
  have sl: "list_all plain sl" "sl \<noteq> []" using assms(2) by (simp_all add: proc_word_def)
  have "strip_leading (lead @ sl @ g1 @ ?q1) = Inr (sl @ g1 @ ?q1)"
    using assms(1) sl by (induction lead) (cases sl; auto simp: plain_def)+
  moreover have "nextfield (sl @ g1 @ ?q1) = Inr (Some ?q1)" by (rule nextfield_endpoint [OF sl(1) assms(3)])
  moreover have "ParseEndpoint ?q1 f = Inr (Some (g2 @ ?q2, Endpoint_of_address (Address_of_bytes f lb) lp))"
    using assms(4,7) by (intro ParseEndpoint_hex) (auto simp: gap_def)
  moreover have "nextfield (g2 @ ?q2) = Inr (Some ?q2)" using nextfield_endpoint [of "[]", OF _ assms(4)] by simp
  moreover have "ParseEndpoint ?q2 f = Inr (Some (g3 @ ?q3, Endpoint_of_address (Address_of_bytes f rb) rp))"
    using assms(5,8) by (intro ParseEndpoint_hex) (auto simp: gap_def)
  moreover have "nextfield (g3 @ ?q3) = Inr (Some ?q3)"
    using nextfield_gap [of "[]", OF _ assms(5) _ hd_plain [OF hex_byte_plain]] by (simp add: hex_byte_def)
  ultimately show ?thesis
    unfolding ParseConnLine_def
    using ParseConnLine_state_fields [OF assms(9,10,6,11-13)] by simp
qed

text \<open>A line that a kernel printed.\<close>

theorem ParseConnLine_reads_line_witness:
  "ParseConnLine (''   0: 0100007F:1F90 0101A8C0:C350 01 00000000:00000000 00:00000000 00000000     0        0 12345 1'' @ [nul]) IPV4 =
    Inr (Some \<lparr>cl_local = Endpoint_of_address (Address_of_bytes IPV4 [127, 0, 0, 1]) 8080,
      cl_remote = Endpoint_of_address (Address_of_bytes IPV4 [192, 168, 1, 1]) 50000, cl_state = 1, cl_inode = 12345\<rparr>)"
proof -
  let ?fs = "[('' '', ''00000000:00000000''), ('' '', ''00:00000000''), ('' '', ''00000000''), (''     '', ''0''), (''        '', ''0'')]"
  have "hex_endpoint [127, 0, 0, 1] 8080 = ''0100007F:1F90''" "hex_endpoint [192, 168, 1, 1] 50000 = ''0101A8C0:C350''"
    "hex_byte 1 = ''01''"
    by (simp_all add: hex_endpoint_def hex_port_def hex_byte_def hex_digit_def char_of_def bit_Suc_0_iff)
  moreover have "proc_fields ?fs = '' 00000000:00000000 00:00000000 00000000     0        0''"
    by (simp add: proc_fields_def)
  moreover have "show_nat 12345 = ''12345''"
    by (simp add: show_nat.simps char_of_def bit_Suc_0_iff)
  moreover have "list_all c_isspace ''   ''" "proc_word ''0:''" "gap '' ''" "good_fields ?fs" "c_isspace (hd '' 1'')" "nul \<notin> set '' 1''"
    by (simp_all add: proc_word_def gap_def good_fields_def plain_def c_isspace_def cc_def nul_eq)
  ultimately show ?thesis
    using ParseConnLine_reads_line [of "''   ''" "''0:''" "'' ''" "'' ''" "'' ''" "'' ''" "[127, 0, 0, 1]" IPV4
      "[192, 168, 1, 1]" ?fs 12345 "'' 1''" 8080 50000 1 "[]"]
    by (simp add: Address_Length_def)
qed

end
