(* ===== verification/ProcfsScraper.thy ===== *)
theory ProcfsScraper
  imports ProcText CollectorStats
begin

text \<open>
  The scrape of \<open>/proc\<close> (\<open>ProcfsScraper.cpp\<close>): sockets of container processes, connections and
  listening endpoints of network namespaces, and how they are joined; and the scrape of one process.

  The file system is an argument: what each process directory answers when it is read. A file is its
  contents, a link its target, and \<open>None\<close> is a call that fails. The link of the network namespace
  is read twice, and may have changed in between.
\<close>

section \<open>The file system\<close>

record ProcDir =
  pd_name :: string
  pd_opens :: bool
  pd_stat :: "string option"
  pd_cgroup :: "string option"
  pd_netns :: "string option"
  pd_netns_again :: "string option"
  pd_fds :: "(string \<times> string option) list option"
  pd_tcp :: "string option"
  pd_tcp6 :: "string option"
  pd_exe :: "string option"
  pd_cmdline :: "string option"

text \<open>\<open>fgets\<close> with a buffer of 512 bytes: a line with its newline, or the part of it that fits.\<close>

definition fgets_len :: "string \<Rightarrow> nat" where
  "fgets_len content =
     min 511 (case find_char newline content of Some i \<Rightarrow> i + 1 | None \<Rightarrow> length content)"

definition fgets :: "string \<Rightarrow> (string \<times> string) option" where
  "fgets content =
     (if content = [] then None else Some (take (fgets_len content) content, drop (fgets_len content) content))"

lemma fgets_len_pos: "content \<noteq> [] \<Longrightarrow> 0 < fgets_len content"
  by (auto simp: fgets_len_def split: option.split)

text \<open>The lines that a loop of \<open>fgets\<close> sees.\<close>

function fgets_lines :: "string \<Rightarrow> string list" where
  "fgets_lines content = (case fgets content of None \<Rightarrow> [] | Some (line, rest) \<Rightarrow> line # fgets_lines rest)"
  by pat_completeness auto
termination
proof (relation "measure length")
  fix content x line rest
  assume "fgets content = Some x" "(line, rest) = x"
  then show "(rest, content) \<in> measure length"
    using fgets_len_pos [of content] by (auto simp: fgets_def split: if_splits)
qed simp

declare fgets_lines.simps [simp del]

text \<open>The line buffer after \<open>fgets\<close>: the line, a terminator, and the bytes that were there before.\<close>

definition fill_buffer :: "string \<Rightarrow> string \<Rightarrow> string" where
  "fill_buffer line buf = line @ nul # drop (Suc (length line)) buf"

section \<open>Inodes, states and containers\<close>

definition ReadINode :: "string option \<Rightarrow> string \<Rightarrow> u64 option" where
  "ReadINode link pre =
     (case link of
        None \<Rightarrow> None
      | Some target \<Rightarrow>
          (let nread = min 64 (length target)
           in if nread = 0 \<or> nread \<ge> 63 then None
              else if last target \<noteq> CHR '']'' then None
              else
                (let linkbuf = takeWhile (\<lambda>c. c \<noteq> nul) target
                 in if \<not> is_prefix pre linkbuf then None
                    else if \<not> is_prefix '':['' (drop (length pre) linkbuf) then None
                    else
                      (let (parsed, endp) = strtoumax (drop (length pre + 2) linkbuf)
                       in if hd (endp @ [nul]) \<noteq> CHR '']'' then None else Some parsed))))"

definition GetNetworkNamespace :: "string option \<Rightarrow> u64 option" where
  "GetNetworkNamespace link = ReadINode link ''net''"

text \<open>Two sockets are equal when their inodes are.\<close>

record SocketInfo =
  si_inode :: u64
  si_pid :: u64

definition emplace_socket :: "SocketInfo \<Rightarrow> SocketInfo list \<Rightarrow> SocketInfo list" where
  "emplace_socket s sock_inodes =
     (if list_ex (\<lambda>t. si_inode t = si_inode s) sock_inodes then sock_inodes else sock_inodes @ [s])"

definition starts_with_digit :: "string \<Rightarrow> bool" where
  "starts_with_digit d_name = c_isdigit (hd (d_name @ [nul]))"

fun socket_entries :: "(string \<times> string option) list \<Rightarrow> u64 \<Rightarrow> SocketInfo list \<Rightarrow> SocketInfo list" where
  "socket_entries [] pid sock_inodes = sock_inodes"
| "socket_entries ((d_name, link) # entries) pid sock_inodes =
     (if \<not> starts_with_digit d_name then socket_entries entries pid sock_inodes
      else
        (case ReadINode link ''socket'' of
           None \<Rightarrow> socket_entries entries pid sock_inodes
         | Some inode \<Rightarrow>
             socket_entries entries pid (emplace_socket \<lparr>si_inode = inode, si_pid = pid\<rparr> sock_inodes)))"

definition GetSocketINodes ::
  "(string \<times> string option) list option \<Rightarrow> u64 \<Rightarrow> SocketInfo list \<Rightarrow> CollectorStats \<Rightarrow>
     bool \<times> SocketInfo list \<times> CollectorStats" where
  "GetSocketINodes fds pid sock_inodes stats =
     (case fds of
        None \<Rightarrow> (False, sock_inodes, COUNTER_INC procfs_could_not_open_fd_dir stats)
      | Some entries \<Rightarrow> (True, socket_entries entries pid sock_inodes, stats))"

definition ExtractProcessState :: "string \<Rightarrow> char option" where
  "ExtractProcessState line =
     (case rfind_str '') '' line of
        None \<Rightarrow> None
      | Some last_parenthese \<Rightarrow>
          (let rest = drop (last_parenthese + 2) line in if rest = [] then None else Some (hd rest)))"

text \<open>On an error the result is \<open>false\<close>, which becomes the character zero.\<close>

definition ReadProcessState :: "string option \<Rightarrow> char option" where
  "ReadProcessState stat_file =
     (case stat_file of
        None \<Rightarrow> Some nul
      | Some content \<Rightarrow>
          (case fgets content of
             None \<Rightarrow> Some nul
           | Some (line, _) \<Rightarrow> ExtractProcessState (takeWhile (\<lambda>c. c \<noteq> nul) line)))"

definition ExtractContainerID :: "string \<Rightarrow> string option" where
  "ExtractContainerID cgroup_line =
     (case rep_find 2 cgroup_line CHR '':'' of
        None \<Rightarrow> None
      | Some start \<Rightarrow> ExtractContainerIDFromCgroup (drop (start + 1) cgroup_line))"

fun first_container_id :: "string list \<Rightarrow> string option" where
  "first_container_id [] = None"
| "first_container_id (line # ls) =
     (case ExtractContainerID line of None \<Rightarrow> first_container_id ls | Some i \<Rightarrow> Some i)"

definition GetContainerID_proc :: "string option \<Rightarrow> string option" where
  "GetContainerID_proc cgroups_file =
     (case cgroups_file of None \<Rightarrow> None | Some content \<Rightarrow> first_container_id (getlines content))"

section \<open>Connections of a namespace\<close>

record ConnInfo =
  ci_local :: Endpoint
  ci_remote :: Endpoint
  ci_l4proto :: L4Proto
  ci_is_server :: bool

record EndpointInfo =
  ei_endpoint :: Endpoint
  ei_l4proto :: L4Proto

definition TCP_ESTABLISHED :: u8 where
  "TCP_ESTABLISHED = 1"

definition TCP_LISTEN :: u8 where
  "TCP_LISTEN = 10"

definition set_contains :: "Endpoint list \<Rightarrow> Endpoint \<Rightarrow> bool" where
  "set_contains s e = list_ex (\<lambda>x. Endpoint_eq x e) s"

definition LocalIsServer :: "Endpoint \<Rightarrow> Endpoint \<Rightarrow> Endpoint list \<Rightarrow> bool" where
  "LocalIsServer local remote listen_endpoints =
     (if set_contains listen_endpoints local then True
      else
        (let local_any = Endpoint_of_address (Address_of_family (addr_family (Endpoint_address local))) (ep_port local)
         in if set_contains listen_endpoints local_any then True
            else IsEphemeralPort (ep_port remote) > IsEphemeralPort (ep_port local)))"

record NSNetworkData =
  ns_connections :: "(u64, ConnInfo) umap"
  ns_listen_endpoints :: "(u64, EndpointInfo) umap"

definition NSNetworkData_default :: NSNetworkData where
  "NSNetworkData_default = \<lparr>ns_connections = [], ns_listen_endpoints = []\<rparr>"

text \<open>What one line of the file adds; \<open>want\<close> is that endpoints are collected.\<close>

definition conn_line ::
  "bool \<Rightarrow> L4Proto \<Rightarrow> ConnLineData \<Rightarrow> Endpoint list \<times> NSNetworkData \<Rightarrow> Endpoint list \<times> NSNetworkData" where
  "conn_line want l4proto data st =
     (let (all_listen_endpoints, ns) = st
      in if cl_state data = TCP_LISTEN then
           (all_listen_endpoints @ [cl_local data],
            if cl_inode data \<noteq> 0 \<and> want
            then ns\<lparr>ns_listen_endpoints :=
                   um_put (=) (cl_inode data) \<lparr>ei_endpoint = cl_local data, ei_l4proto = l4proto\<rparr> (ns_listen_endpoints ns)\<rparr>
            else ns)
         else if cl_state data \<noteq> TCP_ESTABLISHED then st
         else if cl_inode data = 0 then st
         else
           (all_listen_endpoints,
            ns\<lparr>ns_connections :=
              um_put (=) (cl_inode data)
                \<lparr>ci_local = cl_local data, ci_remote = cl_remote data, ci_l4proto = l4proto,
                 ci_is_server = LocalIsServer (cl_local data) (cl_remote data) all_listen_endpoints\<rparr>
                (ns_connections ns)\<rparr>))"

fun ReadConnections_loop ::
  "bool \<Rightarrow> Family \<Rightarrow> L4Proto \<Rightarrow> string list \<Rightarrow> string \<Rightarrow> Endpoint list \<times> NSNetworkData \<Rightarrow> cxx_fault + NSNetworkData" where
  "ReadConnections_loop want family l4proto [] buf st = Inr (snd st)"
| "ReadConnections_loop want family l4proto (line # ls) buf st =
     (let buf' = fill_buffer line buf
      in res_bind (ParseConnLine buf' family) (\<lambda>r.
           case r of
             None \<Rightarrow> ReadConnections_loop want family l4proto ls buf' st
           | Some data \<Rightarrow> ReadConnections_loop want family l4proto ls buf' (conn_line want l4proto data st)))"

text \<open>The first line is a header. The line buffer starts with indeterminate bytes.\<close>

definition ReadConnectionsFromFile ::
  "string \<Rightarrow> bool \<Rightarrow> Family \<Rightarrow> L4Proto \<Rightarrow> string \<Rightarrow> NSNetworkData \<Rightarrow> cxx_fault + bool \<times> NSNetworkData" where
  "ReadConnectionsFromFile stack want family l4proto f ns =
     (case fgets_lines f of
        [] \<Rightarrow> Inr (False, ns)
      | header # ls \<Rightarrow>
          res_bind (ReadConnections_loop want family l4proto ls (fill_buffer header stack) ([], ns)) (\<lambda>ns'. Inr (True, ns')))"

definition ReadConnections_open ::
  "string \<Rightarrow> bool \<Rightarrow> Family \<Rightarrow> string option \<Rightarrow> bool \<times> NSNetworkData \<Rightarrow> cxx_fault + bool \<times> NSNetworkData" where
  "ReadConnections_open stack want family file st =
     (let (success, ns) = st
      in case file of
           None \<Rightarrow> Inr (False, ns)
         | Some f \<Rightarrow>
             res_bind (ReadConnectionsFromFile stack want family TCP f ns) (\<lambda>(ok, ns'). Inr (ok \<and> success, ns')))"

definition GetConnections :: "string \<Rightarrow> bool \<Rightarrow> ProcDir \<Rightarrow> NSNetworkData \<Rightarrow> cxx_fault + bool \<times> NSNetworkData" where
  "GetConnections stack want p ns =
     res_bind (ReadConnections_open stack want IPV4 (pd_tcp p) (True, ns))
       (ReadConnections_open stack want IPV6 (pd_tcp6 p))"

section \<open>The scrape\<close>

type_synonym ConnsByNS = "(u64, NSNetworkData) umap"
type_synonym SocketsByContainer = "(string, (u64, SocketInfo list) umap) umap"

text \<open>One socket of a container: a connection, or a listening endpoint with its process.\<close>

definition resolve_socket ::
  "(u64 \<Rightarrow> Process option) option \<Rightarrow> bool \<Rightarrow> string \<Rightarrow> NSNetworkData \<Rightarrow> SocketInfo \<Rightarrow>
     Connection list \<times> ContainerEndpoint list \<Rightarrow> Connection list \<times> ContainerEndpoint list" where
  "resolve_socket process_store want container_id ns socket st =
     (let (connections, listen_endpoints) = st
      in case um_lookup (=) (si_inode socket) (ns_connections ns) of
           Some conn \<Rightarrow>
             (let connection = Connection_mk container_id (ci_local conn) (ci_remote conn) (ci_l4proto conn) (ci_is_server conn)
              in if \<not> IsRelevantConnection connection then st else (connections @ [connection], listen_endpoints))
         | None \<Rightarrow>
             if want then
               (case um_lookup (=) (si_inode socket) (ns_listen_endpoints ns) of
                  None \<Rightarrow> st
                | Some ep \<Rightarrow>
                    if \<not> IsRelevantEndpoint (ei_endpoint ep) then st
                    else
                      (connections,
                       listen_endpoints @
                         [\<lparr>cep_container = container_id, cep_endpoint = ei_endpoint ep, cep_l4proto = ei_l4proto ep,
                           cep_originator = (case process_store of None \<Rightarrow> None | Some fetch \<Rightarrow> fetch (si_pid socket))\<rparr>]))
             else st)"

definition resolve_ns ::
  "(u64 \<Rightarrow> Process option) option \<Rightarrow> bool \<Rightarrow> ConnsByNS \<Rightarrow> string \<Rightarrow>
     Connection list \<times> ContainerEndpoint list \<Rightarrow> u64 \<times> SocketInfo list \<Rightarrow> Connection list \<times> ContainerEndpoint list" where
  "resolve_ns process_store want conns_by_ns container_id st netns_sockets =
     (case um_lookup (=) (fst netns_sockets) conns_by_ns of
        None \<Rightarrow> st
      | Some ns \<Rightarrow>
          foldl (\<lambda>st socket. resolve_socket process_store want container_id ns socket st) st (snd netns_sockets))"

definition ResolveSocketInodes ::
  "(u64 \<Rightarrow> Process option) option \<Rightarrow> bool \<Rightarrow> SocketsByContainer \<Rightarrow> ConnsByNS \<Rightarrow>
     Connection list \<times> ContainerEndpoint list \<Rightarrow> Connection list \<times> ContainerEndpoint list" where
  "ResolveSocketInodes process_store want sockets_by_container conns_by_ns st =
     foldl (\<lambda>st (container_id, nss). foldl (resolve_ns process_store want conns_by_ns container_id) st nss)
       st sockets_by_container"

record ScrapeState =
  ss_conns_by_ns :: ConnsByNS
  ss_sockets :: SocketsByContainer
  ss_stats :: CollectorStats

text \<open>\<open>strtoll\<close> of a name that starts with a digit.\<close>

definition strtoll :: "string \<Rightarrow> u64" where
  "strtoll s =
     (let v = digits_value (takeWhile c_isdigit s)
      in if v \<ge> 2 ^ 63 then 2 ^ 63 - 1 else of_nat v)"

text \<open>\<open>sockets[container][netns]\<close>: what it refers to, and what the map is after it is assigned.\<close>

definition sockets_at :: "string \<Rightarrow> u64 \<Rightarrow> SocketsByContainer \<Rightarrow> SocketInfo list" where
  "sockets_at container_id netns m =
     (case um_lookup (=) container_id m of
        None \<Rightarrow> []
      | Some nss \<Rightarrow> (case um_lookup (=) netns nss of None \<Rightarrow> [] | Some socks \<Rightarrow> socks))"

definition set_sockets :: "string \<Rightarrow> u64 \<Rightarrow> SocketInfo list \<Rightarrow> SocketsByContainer \<Rightarrow> SocketsByContainer" where
  "set_sockets container_id netns socks m =
     um_update (=) container_id (um_put (=) netns socks) (fst (um_insert (=) container_id [] m))"

text \<open>The connections of a namespace are read once, and dropped when its process went away meanwhile.\<close>

definition read_namespace ::
  "string \<Rightarrow> bool \<Rightarrow> ProcDir \<Rightarrow> u64 \<Rightarrow> ConnsByNS \<Rightarrow> cxx_fault + ConnsByNS" where
  "read_namespace stack want p netns_inode conns_by_ns =
     (let (m, inserted) = um_insert (=) netns_inode NSNetworkData_default conns_by_ns
      in if \<not> inserted then Inr m
         else
           res_bind (GetConnections stack want p NSNetworkData_default) (\<lambda>(success, ns).
             if \<not> success \<and> GetNetworkNamespace (pd_netns_again p) \<noteq> Some netns_inode
             then Inr (um_erase (=) netns_inode m)
             else Inr (um_put (=) netns_inode ns m)))"

text \<open>The body of the loop over the process directories.\<close>

definition scrape_process :: "string \<Rightarrow> bool \<Rightarrow> ProcDir \<Rightarrow> ScrapeState \<Rightarrow> cxx_fault + ScrapeState" where
  "scrape_process stack want p st =
     (if \<not> starts_with_digit (pd_name p) then Inr st
      else if \<not> pd_opens p then Inr (st\<lparr>ss_stats := COUNTER_INC procfs_could_not_open_pid_dir (ss_stats st)\<rparr>)
      else if ReadProcessState (pd_stat p) = Some CHR ''Z''
      then Inr (st\<lparr>ss_stats := COUNTER_INC procfs_zombie_process (ss_stats st)\<rparr>)
      else
        (case GetContainerID_proc (pd_cgroup p) of
           None \<Rightarrow> Inr st
         | Some container_id \<Rightarrow>
             (case GetNetworkNamespace (pd_netns p) of
                None \<Rightarrow> Inr (st\<lparr>ss_stats := COUNTER_INC procfs_could_not_get_network_namespace (ss_stats st)\<rparr>)
              | Some netns_inode \<Rightarrow>
                  (let socks = sockets_at container_id netns_inode (ss_sockets st);
                       no_sockets = (socks = []);
                       (ok, socks', stats) = GetSocketINodes (pd_fds p) (strtoll (pd_name p)) socks (ss_stats st);
                       st1 = st\<lparr>ss_sockets := set_sockets container_id netns_inode socks' (ss_sockets st), ss_stats := stats\<rparr>
                   in if \<not> ok then
                        Inr (st1\<lparr>ss_stats := COUNTER_INC procfs_could_not_get_socket_inodes (ss_stats st1)\<rparr>)
                      else if no_sockets \<and> socks' \<noteq> [] then
                        res_bind (read_namespace stack want p netns_inode (ss_conns_by_ns st1)) (\<lambda>m.
                          Inr (st1\<lparr>ss_conns_by_ns := m\<rparr>))
                      else Inr st1))))"

fun scrape_loop :: "string \<Rightarrow> bool \<Rightarrow> ProcDir list \<Rightarrow> ScrapeState \<Rightarrow> cxx_fault + ScrapeState" where
  "scrape_loop stack want [] st = Inr st"
| "scrape_loop stack want (p # ps) st = res_bind (scrape_process stack want p st) (scrape_loop stack want ps)"

definition ReadContainerConnections ::
  "string \<Rightarrow> ProcDir list option \<Rightarrow> (u64 \<Rightarrow> Process option) option \<Rightarrow> bool \<Rightarrow> CollectorStats \<Rightarrow>
     Connection list \<times> ContainerEndpoint list \<Rightarrow>
     cxx_fault + bool \<times> (Connection list \<times> ContainerEndpoint list) \<times> CollectorStats" where
  "ReadContainerConnections stack procdir process_store want stats out =
     (case procdir of
        None \<Rightarrow> Inr (False, out, COUNTER_INC procfs_could_not_open_proc_dir stats)
      | Some ps \<Rightarrow>
          res_bind (scrape_loop stack want ps \<lparr>ss_conns_by_ns = [], ss_sockets = [], ss_stats = stats\<rparr>) (\<lambda>st.
            Inr (True, ResolveSocketInodes process_store want (ss_sockets st) (ss_conns_by_ns st) out, ss_stats st)))"

section \<open>One process\<close>

record ProcessInfo =
  pi_container_id :: string
  pi_comm :: string
  pi_exe :: string
  pi_exe_path :: string
  pi_args :: string
  pi_pid :: u64

definition PATH_MAX :: nat where
  "PATH_MAX = 4096"

text \<open>The part after the last slash.\<close>

definition after_slash :: "string \<Rightarrow> string" where
  "after_slash s = rev (takeWhile (\<lambda>c. c \<noteq> CHR ''/'') (rev s))"

definition ReadProcessExe :: "string option \<Rightarrow> CollectorStats \<Rightarrow> (string \<times> string) option \<times> CollectorStats" where
  "ReadProcessExe link stats =
     (let nread = (case link of None \<Rightarrow> 0 | Some target \<Rightarrow> min PATH_MAX (length target))
      in if nread = 0 \<or> nread \<ge> PATH_MAX then (None, COUNTER_INC procfs_could_not_read_exe stats)
         else
           (let buffer = takeWhile (\<lambda>c. c \<noteq> nul) (the link)
            in (Some (if hd (buffer @ [nul]) = CHR ''/'' then after_slash buffer else buffer, buffer), stats)))"

text \<open>The loop over the characters: the first word is the executable, the others the arguments.\<close>

fun cmdline_loop :: "string \<Rightarrow> bool \<Rightarrow> bool \<Rightarrow> string \<Rightarrow> string \<Rightarrow> string \<times> string" where
  "cmdline_loop [] did_exe arg_completed exe stringbuf = (exe, stringbuf)"
| "cmdline_loop (c # cs) did_exe arg_completed exe stringbuf =
     (if c \<noteq> nul then
        (if arg_completed then cmdline_loop cs did_exe False exe (stringbuf @ [CHR '' '', c])
         else cmdline_loop cs did_exe arg_completed exe (stringbuf @ [c]))
      else if did_exe then cmdline_loop cs did_exe True exe stringbuf
      else cmdline_loop cs True arg_completed stringbuf [])"

definition ReadProcessCmdline ::
  "string option \<Rightarrow> string \<Rightarrow> CollectorStats \<Rightarrow> (string \<times> string) option \<times> CollectorStats" where
  "ReadProcessCmdline cmdline exe stats =
     (case cmdline of
        None \<Rightarrow> (None, COUNTER_INC procfs_could_not_read_cmdline stats)
      | Some content \<Rightarrow> (Some (cmdline_loop content False False exe []), stats))"

text \<open>The path of a process: \<open>snprintf\<close> into 64 bytes, with the identifier as a signed number.\<close>

definition process_path :: "string \<Rightarrow> u64 \<Rightarrow> string" where
  "process_path proc_path pid = take 63 (proc_path @ ''/'' @ show_int (sint pid))"

definition ProcessScraper_Scrape ::
  "(string \<Rightarrow> ProcDir option) \<Rightarrow> string \<Rightarrow> u64 \<Rightarrow> ProcessInfo \<Rightarrow> CollectorStats \<Rightarrow> bool \<times> ProcessInfo \<times> CollectorStats" where
  "ProcessScraper_Scrape open_dir proc_path pid process_info stats =
     (let info = process_info\<lparr>pi_pid := pid\<rparr>
      in case open_dir (process_path proc_path pid) of
           None \<Rightarrow> (False, info, stats)
         | Some p \<Rightarrow>
             if GetContainerID_proc (pd_cgroup p) = None then (False, info, stats)
             else
               (case ReadProcessExe (pd_exe p) stats of
                  (None, stats1) \<Rightarrow> (False, info, stats1)
                | (Some (comm, exe_path), stats1) \<Rightarrow>
                    (let info1 = info\<lparr>pi_comm := comm, pi_exe_path := exe_path\<rparr>
                     in case ReadProcessCmdline (pd_cmdline p) (pi_exe info1) stats1 of
                          (None, stats2) \<Rightarrow> (False, info1, stats2)
                        | (Some (exe, args), stats2) \<Rightarrow> (True, info1\<lparr>pi_exe := exe, pi_args := args\<rparr>, stats2))))"

end
