(* ===== verification/ProcfsProps.thy ===== *)
theory ProcfsProps
  imports ProcfsScraper
begin

text \<open>
  Properties of the scrape: what the connections and endpoints it reports are, in terms of the
  process directories; that it never reads outside its line buffer; and the command line of a process.
\<close>

section \<open>No fault\<close>

lemma fill_buffer_terminated: "nul \<in> set (fill_buffer line buf)"
  by (simp add: fill_buffer_def)

lemma ReadConnections_loop_ok: "\<exists>ns. ReadConnections_loop want f p ls buf st = Inr ns"
proof (induction ls arbitrary: buf st)
  case (Cons l ls)
  obtain r where "ParseConnLine (fill_buffer l buf) f = Inr r"
    using ParseConnLine_safe [OF fill_buffer_terminated, of l buf f] by (auto simp: safe_def split: sum.splits)
  then show ?case using Cons.IH by (cases r) (simp_all add: Let_def)
qed simp

lemma ReadConnections_open_ok: "\<exists>r. ReadConnections_open stack want f file st = Inr r"
proof -
  have "\<exists>r. ReadConnectionsFromFile stack want f TCP c ns = Inr r" for c ns
    using ReadConnections_loop_ok [of want f TCP]
    by (auto simp: ReadConnectionsFromFile_def res_bind_def split: list.split sum.split) (metis Inl_Inr_False)
  then show ?thesis
    by (auto simp: ReadConnections_open_def res_bind_def split: option.split sum.split prod.split) (metis Inl_Inr_False)
qed

lemma GetConnections_ok: "\<exists>ok ns'. GetConnections stack want p ns = Inr (ok, ns')"
  using ReadConnections_open_ok by (simp add: GetConnections_def res_bind_def split: sum.split) (metis Inl_Inr_False surj_pair)

section \<open>Maps and sockets\<close>

text \<open>The sockets of a container in a namespace, over the whole map.\<close>

definition pairs :: "(u64, SocketInfo list) umap \<Rightarrow> (u64 \<times> u64) set" where
  "pairs nss = (\<Union>e \<in> set nss. {fst e} \<times> si_inode ` set (snd e))"

definition triples :: "SocketsByContainer \<Rightarrow> (string \<times> u64 \<times> u64) set" where
  "triples m = (\<Union>e \<in> set m. {fst e} \<times> pairs (snd e))"

lemma pairs_append: "pairs (a @ b) = pairs a \<union> pairs b" "pairs (e # b) = {fst e} \<times> si_inode ` set (snd e) \<union> pairs b" "pairs [] = {}"
  by (auto simp: pairs_def)

lemma triples_append: "triples (a @ b) = triples a \<union> triples b" "triples (e # b) = {fst e} \<times> pairs (snd e) \<union> triples b" "triples [] = {}"
  by (auto simp: triples_def)

lemma um_update_split:
  "um_find (=) k m \<noteq> None \<Longrightarrow> \<exists>a v b. m = a @ (k, v) # b \<and> um_update (=) k f m = a @ (k, f v) # b \<and> um_lookup (=) k m = Some v"
proof (induction m)
  case (Cons e m)
  show ?case
  proof (cases "k = fst e")
    case True
    then show ?thesis by (intro exI [of _ "[]"] exI [of _ "snd e"] exI [of _ m]) (cases e; simp add: um_lookup_def)
  next
    case False
    then obtain a v b where "m = a @ (k, v) # b" "um_update (=) k f m = a @ (k, f v) # b" "um_lookup (=) k m = Some v"
      using Cons by auto
    then show ?thesis using False by (intro exI [of _ "e # a"] exI [of _ v] exI [of _ b]) (simp add: um_lookup_def)
  qed
qed simp

text \<open>An entry that is updated or created: what was before it, its old value, and what is after it.\<close>

lemma um_insert_split:
  "\<exists>a b v. fst (um_insert (=) k d m) = a @ (k, v) # b \<and> um_update (=) k f (fst (um_insert (=) k d m)) = a @ (k, f v) # b \<and>
     (um_lookup (=) k m = Some v \<and> m = a @ (k, v) # b \<or> um_lookup (=) k m = None \<and> v = d \<and> b = [] \<and> m = a)"
proof (cases "um_find (=) k m")
  case None
  then have l: "um_lookup (=) k m = None" by (simp add: um_lookup_def)
  have "um_update (=) k f (m @ [(k, d)]) = m @ [(k, f d)]"
    using None by (induction m) (auto split: if_splits)
  then show ?thesis using None l by (intro exI [of _ m] exI [of _ "[]"] exI [of _ d]) (simp add: um_insert_def)
next
  case (Some e)
  then obtain a v b where "m = a @ (k, v) # b" "um_update (=) k f m = a @ (k, f v) # b" "um_lookup (=) k m = Some v"
    using um_update_split [of k m f] by auto
  then show ?thesis using Some by (intro exI [of _ a] exI [of _ b] exI [of _ v]) (simp add: um_insert_def)
qed

lemma pairs_put:
  assumes "\<And>old. um_lookup (=) n nss = Some old \<Longrightarrow> si_inode ` set old \<subseteq> si_inode ` set socks"
  shows "pairs (um_put (=) n socks nss) = pairs nss \<union> {n} \<times> si_inode ` set socks"
proof -
  obtain a b v where s: "um_update (=) n (\<lambda>_. socks) (fst (um_insert (=) n socks nss)) = a @ (n, socks) # b"
    "um_lookup (=) n nss = Some v \<and> nss = a @ (n, v) # b \<or> um_lookup (=) n nss = None \<and> v = socks \<and> b = [] \<and> nss = a"
    using um_insert_split [of n socks nss "\<lambda>_. socks"] by blast
  from s(2) show ?thesis
  proof
    assume l: "um_lookup (=) n nss = Some v \<and> nss = a @ (n, v) # b"
    then have "si_inode ` set v \<subseteq> si_inode ` set socks" using assms by blast
    moreover have "pairs nss = pairs a \<union> {n} \<times> si_inode ` set v \<union> pairs b" using l by (simp add: pairs_append Un_assoc)
    ultimately show ?thesis unfolding um_put_def s(1) pairs_append fst_conv snd_conv by blast
  next
    assume "um_lookup (=) n nss = None \<and> v = socks \<and> b = [] \<and> nss = a"
    then show ?thesis unfolding um_put_def s(1) pairs_append fst_conv snd_conv by (simp add: pairs_append)
  qed
qed

lemma triples_set_sockets:
  assumes "si_inode ` set (sockets_at c n m) \<subseteq> si_inode ` set socks"
  shows "triples (set_sockets c n socks m) = triples m \<union> {c} \<times> {n} \<times> si_inode ` set socks"
proof -
  obtain a b v where s: "um_update (=) c (um_put (=) n socks) (fst (um_insert (=) c [] m)) = a @ (c, um_put (=) n socks v) # b"
    "um_lookup (=) c m = Some v \<and> m = a @ (c, v) # b \<or> um_lookup (=) c m = None \<and> v = [] \<and> b = [] \<and> m = a"
    using um_insert_split [of c "[]" m "um_put (=) n socks"] by blast
  have "um_lookup (=) n v = Some old \<Longrightarrow> si_inode ` set old \<subseteq> si_inode ` set socks" for old
    using assms s(2) by (auto simp: sockets_at_def)
  then have "pairs (um_put (=) n socks v) = pairs v \<union> {n} \<times> si_inode ` set socks"
    by (metis pairs_put)
  with s show ?thesis unfolding set_sockets_def
    by (elim disjE conjE) (simp add: triples_append pairs_append Sigma_Un_distrib2 Un_ac)+
qed

lemma sockets_at_subset: "{c} \<times> {n} \<times> si_inode ` set (sockets_at c n m) \<subseteq> triples m"
proof (cases "sockets_at c n m = []")
  case False
  then obtain nss where "um_lookup (=) c m = Some nss" "um_lookup (=) n nss = Some (sockets_at c n m)"
    by (auto simp: sockets_at_def split: option.splits)
  then have "(c, nss) \<in> set m" "(n, sockets_at c n m) \<in> set nss" by (auto dest: um_lookup_SomeD)
  then have "{n} \<times> si_inode ` set (sockets_at c n m) \<subseteq> pairs nss" "{c} \<times> pairs nss \<subseteq> triples m"
    unfolding pairs_def triples_def by force+
  then show ?thesis by blast
qed simp

lemma sockets_at_triples: "sockets_at c n m \<noteq> [] \<Longrightarrow> \<exists>i. (c, n, i) \<in> triples m"
  using sockets_at_subset [of c n m] by (cases "sockets_at c n m") auto

lemma socket_entries_inodes:
  "si_inode ` set (socket_entries es pid s) =
     si_inode ` set s \<union> {i. \<exists>(d, l) \<in> set es. starts_with_digit d \<and> ReadINode l ''socket'' = Some i}"
  by (induction es pid s rule: socket_entries.induct)
     (auto simp: emplace_socket_def list_ex_iff image_iff split: option.splits if_splits)

section \<open>What a process contributes\<close>

text \<open>The inodes of the sockets that a directory of descriptors shows.\<close>

definition entry_inodes :: "(string \<times> string option) list \<Rightarrow> u64 list" where
  "entry_inodes es =
     List.map_filter (\<lambda>(d, l). if starts_with_digit d then ReadINode l ''socket'' else None) es"

lemma set_entry_inodes: "set (entry_inodes es) = {i. \<exists>(d, l) \<in> set es. starts_with_digit d \<and> ReadINode l ''socket'' = Some i}"
  by (induction es) (auto simp: entry_inodes_def List.map_filter_simps split: option.splits if_splits)

text \<open>The container, the namespace and the sockets of a process that is scraped.\<close>

definition sockets_of :: "ProcDir \<Rightarrow> (string \<times> u64 \<times> u64 list) option" where
  "sockets_of p =
     (if starts_with_digit (pd_name p) \<and> pd_opens p \<and> ReadProcessState (pd_stat p) \<noteq> Some CHR ''Z'' then
        (case (GetContainerID_proc (pd_cgroup p), GetNetworkNamespace (pd_netns p), pd_fds p) of
           (Some c, Some n, Some es) \<Rightarrow> Some (c, n, entry_inodes es)
         | _ \<Rightarrow> None)
      else None)"

lemma sockets_of_cong: "sockets_of (p\<lparr>pd_tcp := x, pd_netns_again := y\<rparr>) = sockets_of p"
  by (simp add: sockets_of_def)

definition contributions :: "ProcDir set \<Rightarrow> (string \<times> u64 \<times> u64) set" where
  "contributions D = {(c, n, i) | c n i. \<exists>p \<in> D. \<exists>I. sockets_of p = Some (c, n, I) \<and> i \<in> set I}"

lemma contributions_insert:
  "contributions (insert p D) =
     contributions D \<union> (case sockets_of p of None \<Rightarrow> {} | Some (c, n, I) \<Rightarrow> {c} \<times> {n} \<times> set I)"
  by (auto simp: contributions_def split: option.splits prod.splits)

lemma contributions_empty [simp]: "contributions {} = {}"
  by (simp add: contributions_def)

text \<open>
  The namespaces hold still: every process of a namespace that has sockets shows the same
  connections, and if reading them fails the process is still there.
\<close>

definition stable :: "string \<Rightarrow> bool \<Rightarrow> (u64 \<Rightarrow> NSNetworkData) \<Rightarrow> ProcDir \<Rightarrow> bool" where
  "stable stack want T p =
     (case sockets_of p of
        None \<Rightarrow> True
      | Some (c, n, I) \<Rightarrow>
          I = [] \<or>
          (case GetConnections stack want p NSNetworkData_default of
             Inl _ \<Rightarrow> False
           | Inr (ok, ns) \<Rightarrow> ns = T n \<and> (ok \<or> GetNetworkNamespace (pd_netns_again p) = Some n)))"

text \<open>The state of the scrape after some processes.\<close>

definition scraped :: "(u64 \<Rightarrow> NSNetworkData) \<Rightarrow> ProcDir set \<Rightarrow> ScrapeState \<Rightarrow> bool" where
  "scraped T D st \<longleftrightarrow>
     triples (ss_sockets st) = contributions D \<and>
     (\<forall>n. um_lookup (=) n (ss_conns_by_ns st) = (if \<exists>c i. (c, n, i) \<in> contributions D then Some (T n) else None))"

lemma read_namespace_known:
  "um_lookup (=) n m \<noteq> None \<Longrightarrow> read_namespace stack want p n m = Inr m"
  by (auto simp: read_namespace_def um_insert_def um_lookup_def split: option.splits)

lemma read_namespace_new:
  assumes "um_lookup (=) n m = None" "GetConnections stack want p NSNetworkData_default = Inr (ok, ns)"
    "ok \<or> GetNetworkNamespace (pd_netns_again p) = Some n"
  shows "\<exists>m'. read_namespace stack want p n m = Inr m' \<and> (\<forall>k. um_lookup (=) k m' = (if k = n then Some ns else um_lookup (=) k m))"
proof -
  have f: "um_find (=) n m = None" using assms(1) by (simp add: um_lookup_def)
  have "um_lookup (=) k (m @ [(n, d)]) = (if k = n then Some d else um_lookup (=) k m)" for d k
    using assms(1) by (auto simp: um_lookup_append split: option.splits)
  then show ?thesis using assms f by (auto simp: read_namespace_def um_insert_def value_keys.lookup_put)
qed

lemma scrape_process_skip:
  assumes "sockets_of p = None"
  shows "\<exists>st'. scrape_process stack want p st = Inr st' \<and> ss_conns_by_ns st' = ss_conns_by_ns st \<and>
    triples (ss_sockets st') = triples (ss_sockets st)"
proof (cases "\<exists>c n. starts_with_digit (pd_name p) \<and> pd_opens p \<and> ReadProcessState (pd_stat p) \<noteq> Some CHR ''Z'' \<and>
    GetContainerID_proc (pd_cgroup p) = Some c \<and> GetNetworkNamespace (pd_netns p) = Some n")
  case True
  then obtain c n where g: "starts_with_digit (pd_name p)" "pd_opens p" "ReadProcessState (pd_stat p) \<noteq> Some CHR ''Z''"
    "GetContainerID_proc (pd_cgroup p) = Some c" "GetNetworkNamespace (pd_netns p) = Some n" by blast
  then have "pd_fds p = None" using assms by (auto simp: sockets_of_def split: option.splits)
  moreover have "triples (set_sockets c n (sockets_at c n m) m) = triples m" for m
  proof -
    have "{c} \<times> {n} \<times> si_inode ` set (sockets_at c n m) \<subseteq> triples m" by (rule sockets_at_subset)
    then show ?thesis using triples_set_sockets [of c n m "sockets_at c n m"] by blast
  qed
  ultimately show ?thesis using g by (simp add: scrape_process_def GetSocketINodes_def Let_def)
next
  case False
  then show ?thesis by (auto simp: scrape_process_def split: option.splits)
qed

lemma scrape_process_sockets:
  assumes "sockets_of p = Some (c, n, I)"
  shows "\<exists>socks. si_inode ` set socks = si_inode ` set (sockets_at c n (ss_sockets st)) \<union> set I \<and>
    scrape_process stack want p st =
      (let st1 = st\<lparr>ss_sockets := set_sockets c n socks (ss_sockets st)\<rparr>
       in if sockets_at c n (ss_sockets st) = [] \<and> I \<noteq> [] then
            res_bind (read_namespace stack want p n (ss_conns_by_ns st)) (\<lambda>m. Inr (st1\<lparr>ss_conns_by_ns := m\<rparr>))
          else Inr st1)"
proof -
  obtain es where g: "starts_with_digit (pd_name p)" "pd_opens p" "ReadProcessState (pd_stat p) \<noteq> Some CHR ''Z''"
    "GetContainerID_proc (pd_cgroup p) = Some c" "GetNetworkNamespace (pd_netns p) = Some n" "pd_fds p = Some es" "I = entry_inodes es"
    using assms by (auto simp: sockets_of_def split: option.splits if_splits)
  let ?old = "sockets_at c n (ss_sockets st)"
  let ?socks = "socket_entries es (strtoll (pd_name p)) ?old"
  have i: "si_inode ` set ?socks = si_inode ` set ?old \<union> set I"
    unfolding socket_entries_inodes g(7) set_entry_inodes ..
  then have "?old = [] \<Longrightarrow> ?socks = [] \<longleftrightarrow> I = []" by auto
  then show ?thesis using g(1-6) i
    by (intro exI [of _ ?socks] conjI) (auto simp: scrape_process_def GetSocketINodes_def Let_def)
qed

lemma scrape_process_step:
  assumes "stable stack want T p" "scraped T D st"
  shows "\<exists>st'. scrape_process stack want p st = Inr st' \<and> scraped T (insert p D) st'"
proof (cases "sockets_of p")
  case None
  then show ?thesis using scrape_process_skip [OF None, of stack want st] assms(2)
    by (auto simp: scraped_def contributions_insert)
next
  case (Some x)
  then obtain c n I where p: "sockets_of p = Some (c, n, I)" by (cases x) auto
  obtain socks where s: "si_inode ` set socks = si_inode ` set (sockets_at c n (ss_sockets st)) \<union> set I"
    "scrape_process stack want p st =
      (let st1 = st\<lparr>ss_sockets := set_sockets c n socks (ss_sockets st)\<rparr>
       in if sockets_at c n (ss_sockets st) = [] \<and> I \<noteq> [] then
            res_bind (read_namespace stack want p n (ss_conns_by_ns st)) (\<lambda>m. Inr (st1\<lparr>ss_conns_by_ns := m\<rparr>))
          else Inr st1)"
    using scrape_process_sockets [OF p] by blast
  have tr: "triples (ss_sockets st) = contributions D" using assms(2) by (simp add: scraped_def)
  have t: "triples (set_sockets c n socks (ss_sockets st)) = contributions (insert p D)"
    using triples_set_sockets [of c n "ss_sockets st" socks] sockets_at_subset [of c n "ss_sockets st"]
    unfolding s(1) tr contributions_insert p by (simp add: Sigma_Un_distrib2 Un_absorb2 flip: Un_assoc)
  have old: "sockets_at c n (ss_sockets st) \<noteq> [] \<Longrightarrow> \<exists>c i. (c, n, i) \<in> contributions D"
    using sockets_at_triples assms(2) by (fastforce simp: scraped_def)
  have ins: "(\<exists>c' i. (c', k, i) \<in> contributions (insert p D)) \<longleftrightarrow> (\<exists>c' i. (c', k, i) \<in> contributions D) \<or> k = n \<and> I \<noteq> []" for k
    using p by (auto simp: contributions_insert intro: hd_in_set)
  show ?thesis
  proof (cases "sockets_at c n (ss_sockets st) = [] \<and> I \<noteq> [] \<and> um_lookup (=) n (ss_conns_by_ns st) = None")
    case True
    then obtain ok where "GetConnections stack want p NSNetworkData_default = Inr (ok, T n)"
      "ok \<or> GetNetworkNamespace (pd_netns_again p) = Some n"
      using assms(1) p by (auto simp: stable_def split: sum.splits)
    then obtain m where "read_namespace stack want p n (ss_conns_by_ns st) = Inr m"
      "\<And>k. um_lookup (=) k m = (if k = n then Some (T n) else um_lookup (=) k (ss_conns_by_ns st))"
      using read_namespace_new [OF conjunct2 [OF conjunct2 [OF True]]] by blast
    then show ?thesis using s(2) t ins True assms(2) by (simp add: scraped_def)
  next
    case False
    then have "scrape_process stack want p st = Inr (st\<lparr>ss_sockets := set_sockets c n socks (ss_sockets st)\<rparr>)"
      using s(2) read_namespace_known [of n "ss_conns_by_ns st" stack want p] by (auto simp: Let_def)
    moreover have "(\<exists>c' i. (c', k, i) \<in> contributions (insert p D)) \<longleftrightarrow> (\<exists>c' i. (c', k, i) \<in> contributions D)" for k
      using ins [of k] old False assms(2) by (auto simp: scraped_def split: if_splits)
    ultimately show ?thesis using t assms(2) by (simp add: scraped_def)
  qed
qed

lemma scrape_loop_scraped:
  "list_all (stable stack want T) ps \<Longrightarrow> scraped T D st \<Longrightarrow>
     \<exists>st'. scrape_loop stack want ps st = Inr st' \<and> scraped T (D \<union> set ps) st'"
proof (induction ps arbitrary: D st)
  case (Cons p ps)
  then obtain st1 where "scrape_process stack want p st = Inr st1" "scraped T (insert p D) st1"
    using scrape_process_step by force
  then show ?case using Cons.IH [of "insert p D" st1] Cons.prems(1) by simp
qed simp

section \<open>Resolution\<close>

text \<open>The connection and the listening endpoint that a socket of a container stands for.\<close>

definition conn_at :: "string \<Rightarrow> NSNetworkData \<Rightarrow> u64 \<Rightarrow> Connection set" where
  "conn_at c ns i =
     (case um_lookup (=) i (ns_connections ns) of
        None \<Rightarrow> {}
      | Some ci \<Rightarrow>
          {k. k = Connection_mk c (ci_local ci) (ci_remote ci) (ci_l4proto ci) (ci_is_server ci) \<and> IsRelevantConnection k})"

definition ep_at :: "bool \<Rightarrow> string \<Rightarrow> NSNetworkData \<Rightarrow> u64 \<Rightarrow> (string \<times> Endpoint \<times> L4Proto) set" where
  "ep_at want c ns i =
     (if want \<and> um_lookup (=) i (ns_connections ns) = None then
        (case um_lookup (=) i (ns_listen_endpoints ns) of
           None \<Rightarrow> {}
         | Some ep \<Rightarrow> if IsRelevantEndpoint (ei_endpoint ep) then {(c, ei_endpoint ep, ei_l4proto ep)} else {})
      else {})"

definition ep_key :: "ContainerEndpoint \<Rightarrow> string \<times> Endpoint \<times> L4Proto" where
  "ep_key e = (cep_container e, cep_endpoint e, cep_l4proto e)"

abbreviation out_conns :: "Connection list \<times> ContainerEndpoint list \<Rightarrow> Connection set" where
  "out_conns st \<equiv> set (fst st)"

abbreviation out_eps :: "Connection list \<times> ContainerEndpoint list \<Rightarrow> (string \<times> Endpoint \<times> L4Proto) set" where
  "out_eps st \<equiv> ep_key ` set (snd st)"

lemma foldl_collects:
  assumes "\<And>st x. g (f st x) = g st \<union> h x"
  shows "g (foldl f st xs) = g st \<union> (\<Union>x \<in> set xs. h x)"
  by (induction xs arbitrary: st) (auto simp: assms)

lemma resolve_socket_collects:
  "out_conns (resolve_socket ps want c ns s st) = out_conns st \<union> conn_at c ns (si_inode s)"
  "out_eps (resolve_socket ps want c ns s st) = out_eps st \<union> ep_at want c ns (si_inode s)"
  by (auto simp: resolve_socket_def conn_at_def ep_at_def ep_key_def Let_def split: option.splits prod.splits)

lemma resolve_ns_collects:
  "out_conns (resolve_ns ps want m c st e) =
     out_conns st \<union> (\<Union>i \<in> si_inode ` set (snd e). case um_lookup (=) (fst e) m of None \<Rightarrow> {} | Some ns \<Rightarrow> conn_at c ns i)"
  "out_eps (resolve_ns ps want m c st e) =
     out_eps st \<union> (\<Union>i \<in> si_inode ` set (snd e). case um_lookup (=) (fst e) m of None \<Rightarrow> {} | Some ns \<Rightarrow> ep_at want c ns i)"
proof -
  note c = foldl_collects [of out_conns, OF resolve_socket_collects(1)]
  note e = foldl_collects [of out_eps, OF resolve_socket_collects(2)]
  show "out_conns (resolve_ns ps want m c st e) =
     out_conns st \<union> (\<Union>i \<in> si_inode ` set (snd e). case um_lookup (=) (fst e) m of None \<Rightarrow> {} | Some ns \<Rightarrow> conn_at c ns i)"
    by (simp add: resolve_ns_def c split: option.split)
  show "out_eps (resolve_ns ps want m c st e) =
     out_eps st \<union> (\<Union>i \<in> si_inode ` set (snd e). case um_lookup (=) (fst e) m of None \<Rightarrow> {} | Some ns \<Rightarrow> ep_at want c ns i)"
    by (simp add: resolve_ns_def e split: option.split)
qed

lemma UN_sigma: "(\<Union>x \<in> (\<Union>e \<in> A. {f e} \<times> B e). G x) = (\<Union>e \<in> A. \<Union>y \<in> B e. G (f e, y))"
  by auto

lemma UN_triples:
  "(\<Union>(c, n, i) \<in> triples m. F c n i) = (\<Union>e \<in> set m. \<Union>x \<in> set (snd e). \<Union>i \<in> si_inode ` set (snd x). F (fst e) (fst x) i)"
  unfolding triples_def UN_sigma pairs_def UN_sigma by simp

lemma ResolveSocketInodes_collects:
  "out_conns (ResolveSocketInodes ps want m conns st) =
     out_conns st \<union> (\<Union>(c, n, i) \<in> triples m. case um_lookup (=) n conns of None \<Rightarrow> {} | Some ns \<Rightarrow> conn_at c ns i)"
  "out_eps (ResolveSocketInodes ps want m conns st) =
     out_eps st \<union> (\<Union>(c, n, i) \<in> triples m. case um_lookup (=) n conns of None \<Rightarrow> {} | Some ns \<Rightarrow> ep_at want c ns i)"
proof -
  note inner = foldl_collects [of out_conns, OF resolve_ns_collects(1)] foldl_collects [of out_eps, OF resolve_ns_collects(2)]
  have "out_conns (ResolveSocketInodes ps want m conns st) = out_conns st \<union> (\<Union>e \<in> set m. \<Union>x \<in> set (snd e).
      \<Union>i \<in> si_inode ` set (snd x). case um_lookup (=) (fst x) conns of None \<Rightarrow> {} | Some ns \<Rightarrow> conn_at (fst e) ns i)"
    unfolding ResolveSocketInodes_def by (rule foldl_collects) (simp add: split_beta inner)
  then show "out_conns (ResolveSocketInodes ps want m conns st) =
     out_conns st \<union> (\<Union>(c, n, i) \<in> triples m. case um_lookup (=) n conns of None \<Rightarrow> {} | Some ns \<Rightarrow> conn_at c ns i)"
    unfolding UN_triples .
  have "out_eps (ResolveSocketInodes ps want m conns st) = out_eps st \<union> (\<Union>e \<in> set m. \<Union>x \<in> set (snd e).
      \<Union>i \<in> si_inode ` set (snd x). case um_lookup (=) (fst x) conns of None \<Rightarrow> {} | Some ns \<Rightarrow> ep_at want (fst e) ns i)"
    unfolding ResolveSocketInodes_def by (rule foldl_collects) (simp add: split_beta inner)
  then show "out_eps (ResolveSocketInodes ps want m conns st) =
     out_eps st \<union> (\<Union>(c, n, i) \<in> triples m. case um_lookup (=) n conns of None \<Rightarrow> {} | Some ns \<Rightarrow> ep_at want c ns i)"
    unfolding UN_triples .
qed

section \<open>A process that disappears\<close>

lemma sockets_at_set:
  "sockets_at c n (set_sockets c' n' s m) = (if c = c' \<and> n = n' then s else sockets_at c n m)"
  by (auto simp: sockets_at_def set_sockets_def value_keys.lookup_update value_keys.lookup_insert value_keys.lookup_put
      split: option.splits)

lemma scrape_process_sockets_at:
  assumes "sockets_of p = None"
  shows "\<exists>st'. scrape_process stack want p st = Inr st' \<and> ss_conns_by_ns st' = ss_conns_by_ns st \<and>
    sockets_at c n (ss_sockets st') = sockets_at c n (ss_sockets st)"
  using assms by (auto simp: scrape_process_def sockets_of_def GetSocketINodes_def Let_def sockets_at_set split: option.splits)

lemma scrape_process_again:
  assumes "sockets_of q = None \<or> (\<exists>J. sockets_of q = Some (c, n, J))" "sockets_at c n (ss_sockets st) \<noteq> []"
  shows "\<exists>st'. scrape_process stack want q st = Inr st' \<and> ss_conns_by_ns st' = ss_conns_by_ns st \<and>
    sockets_at c n (ss_sockets st') \<noteq> []"
  using assms(1)
proof
  assume "sockets_of q = None"
  then show ?thesis using scrape_process_sockets_at [of q stack want st c n] assms(2) by auto
next
  assume "\<exists>J. sockets_of q = Some (c, n, J)"
  then obtain J where q: "sockets_of q = Some (c, n, J)" by blast
  obtain socks where s: "si_inode ` set socks = si_inode ` set (sockets_at c n (ss_sockets st)) \<union> set J"
    "scrape_process stack want q st = Inr (st\<lparr>ss_sockets := set_sockets c n socks (ss_sockets st)\<rparr>)"
    using scrape_process_sockets [OF q, of st stack want] assms(2) by (auto simp: Let_def)
  then have "socks \<noteq> []" using assms(2) by auto
  then show ?thesis using s(2) by (simp add: sockets_at_set)
qed

lemma scrape_loop_again:
  assumes "list_all (\<lambda>q. sockets_of q = None \<or> (\<exists>J. sockets_of q = Some (c, n, J))) qs" "sockets_at c n (ss_sockets st) \<noteq> []"
  shows "\<exists>st'. scrape_loop stack want qs st = Inr st' \<and> ss_conns_by_ns st' = ss_conns_by_ns st"
  using assms
proof (induction qs arbitrary: st)
  case (Cons q qs)
  then obtain st1 where "scrape_process stack want q st = Inr st1" "ss_conns_by_ns st1 = ss_conns_by_ns st"
    "sockets_at c n (ss_sockets st1) \<noteq> []" using scrape_process_again [of q c n st stack want] by auto
  then show ?case using Cons.IH [of st1] Cons.prems(1) by auto
qed simp

lemma Resolve_nothing: "ResolveSocketInodes ps want m [] out = out"
proof -
  have "foldl (resolve_ns ps want [] c) st nss = st" for c st nss
    by (induction nss) (simp_all add: resolve_ns_def)
  then show ?thesis unfolding ResolveSocketInodes_def by (induction m) (simp_all add: split_beta)
qed

section \<open>The command line\<close>

lemma cmdline_word:
  "nul \<notin> set w \<Longrightarrow> cmdline_loop (w @ cs) d b exe buf =
     cmdline_loop cs d (b \<and> w = []) exe (buf @ (if b \<and> w \<noteq> [] then CHR '' '' # w else w))"
  by (induction w arbitrary: b buf) auto

lemma cmdline_args:
  "list_all (\<lambda>w. nul \<notin> set w) ws \<Longrightarrow>
     cmdline_loop (concat (map (\<lambda>w. w @ [nul]) ws)) True True exe buf =
       (exe, buf @ concat (map (\<lambda>w. CHR '' '' # w) (filter (\<lambda>w. w \<noteq> []) ws)))"
  by (induction ws arbitrary: buf) (auto simp: cmdline_word)

text \<open>
  Reading a command line of terminated words gives the first word as the executable and the others
  joined by single spaces; empty arguments after the first are dropped.
\<close>

lemma ReadProcessCmdline_words:
  assumes "nul \<notin> set exe" "nul \<notin> set arg" "list_all (\<lambda>w. nul \<notin> set w) ws"
  shows "ReadProcessCmdline (Some (concat (map (\<lambda>w. w @ [nul]) (exe # arg # ws)))) old stats =
    (Some (exe, arg @ concat (map (\<lambda>w. CHR '' '' # w) (filter (\<lambda>w. w \<noteq> []) ws))), stats)"
  using assms by (simp add: ReadProcessCmdline_def cmdline_word cmdline_args)

section \<open>Examples\<close>

definition example_proc :: ProcDir where
  "example_proc =
     \<lparr>pd_name = ''41'', pd_opens = True, pd_stat = Some ''41 (sh) S 1'', pd_cgroup = Some (''0::/docker/'' @ replicate 64 CHR ''a''),
      pd_netns = Some ''net:[5]'', pd_netns_again = Some ''net:[5]'', pd_fds = Some [(''.'', None), (''3'', Some ''socket:[7]'')],
      pd_tcp = Some ''header'', pd_tcp6 = None, pd_exe = None, pd_cmdline = None\<rparr>"

lemma getlines_single: "s \<noteq> [] \<Longrightarrow> newline \<notin> set s \<Longrightarrow> getlines s = [s]"
proof (induction s)
  case (Cons c s)
  then show ?case by (cases "s = []") auto
qed simp

lemma example_container: "GetContainerID_proc (pd_cgroup example_proc) = Some (replicate 12 CHR ''a'')"
proof -
  let ?s = "''0::/docker/'' @ replicate 64 CHR ''a''"
  have "getlines ?s = [?s]" by (rule getlines_single) (simp_all add: newline_def char_of_def)
  moreover have "rep_find 2 ?s CHR '':'' = Some 2" by (simp add: rep_find_def find_char_from_def numeral_eq_Suc)
  moreover have "ExtractContainerIDFromCgroup (''/docker/'' @ replicate 64 CHR ''a'') = Some (replicate 12 CHR ''a'')"
    by code_simp
  ultimately show ?thesis by (simp add: example_proc_def GetContainerID_proc_def ExtractContainerID_def)
qed

lemmas read_inode_simps = ReadINode_def strtoumax_def c_isdigit_def c_isspace_def cc_def nul_eq digits_value_def
  digit_value_def Let_def

lemma example_proc_sockets: "sockets_of example_proc = Some (replicate 12 CHR ''a'', 5, [7])"
proof -
  have "GetNetworkNamespace (pd_netns example_proc) = Some 5"
    by (simp add: example_proc_def GetNetworkNamespace_def read_inode_simps)
  moreover have "ReadProcessState (pd_stat example_proc) = Some CHR ''S''"
    by (simp add: example_proc_def ReadProcessState_def fgets_def fgets_len_def newline_def char_of_def nul_eq
        ExtractProcessState_def Let_def)
  moreover have "entry_inodes (the (pd_fds example_proc)) = [7]"
    by (simp add: example_proc_def entry_inodes_def List.map_filter_simps starts_with_digit_def read_inode_simps)
  ultimately show ?thesis using example_container
    by (simp add: sockets_of_def starts_with_digit_def example_proc_def c_isdigit_def cc_def)
qed

section \<open>Properties\<close>

text \<open>
  C20: The scrape of a \<open>/proc\<close> directory never reads outside its buffers and always returns, whatever
  the files contain and whatever bytes the line buffer starts with.
\<close>

theorem ReadContainerConnections_no_fault:
  "\<exists>r. ReadContainerConnections stack procdir store want stats out = Inr r"
proof -
  have rn: "\<exists>m'. read_namespace stack want p n m = Inr m'" for p n m
    using GetConnections_ok [of stack want p NSNetworkData_default]
    by (auto simp: read_namespace_def Let_def split: prod.split)
  have "\<exists>st'. scrape_process stack want p st = Inr st'" for p st
  proof (cases "sockets_of p")
    case None
    then show ?thesis using scrape_process_skip [of p stack want st] by blast
  next
    case (Some x)
    then obtain c n I where "sockets_of p = Some (c, n, I)" by (cases x) auto
    from scrape_process_sockets [OF this, of st stack want] rn [of p n "ss_conns_by_ns st"] show ?thesis
      by (auto simp: Let_def)
  qed
  then have loop: "\<exists>st'. scrape_loop stack want ps st = Inr st'" for ps st
    by (induction ps arbitrary: st) (auto, metis res_bind_simps(1))
  show ?thesis
  proof (cases procdir)
    case (Some ps)
    obtain st where "scrape_loop stack want ps \<lparr>ss_conns_by_ns = [], ss_sockets = [], ss_stats = stats\<rparr> = Inr st"
      using loop by blast
    then show ?thesis by (auto simp: Some ReadContainerConnections_def)
  qed (auto simp: ReadContainerConnections_def)
qed

text \<open>
  C19: The scrape reports exactly the relevant connections and listening endpoints of the sockets that
  processes of containers hold. For every process that is not a zombie, belongs to a container and
  shows its network namespace, each of its sockets is looked up in that namespace; nothing else is
  reported. This holds when the namespaces hold still while they are read.
\<close>

theorem ReadContainerConnections_exact:
  assumes "list_all (stable stack want T) ps"
  shows "\<exists>out' stats'. ReadContainerConnections stack (Some ps) store want stats out = Inr (True, out', stats') \<and>
    set (fst out') = set (fst out) \<union>
      (\<Union>p \<in> set ps. case sockets_of p of None \<Rightarrow> {} | Some (c, n, I) \<Rightarrow> \<Union>i \<in> set I. conn_at c (T n) i) \<and>
    ep_key ` set (snd out') = ep_key ` set (snd out) \<union>
      (\<Union>p \<in> set ps. case sockets_of p of None \<Rightarrow> {} | Some (c, n, I) \<Rightarrow> \<Union>i \<in> set I. ep_at want c (T n) i)"
proof -
  let ?st0 = "\<lparr>ss_conns_by_ns = [], ss_sockets = [], ss_stats = stats\<rparr>"
  have "scraped T {} ?st0" by (simp add: scraped_def triples_append)
  then obtain st where st: "scrape_loop stack want ps ?st0 = Inr st" "scraped T (set ps) st"
    using scrape_loop_scraped [OF assms] by fastforce
  have tr: "triples (ss_sockets st) = contributions (set ps)" using st(2) by (simp add: scraped_def)
  have lk: "(c, n, i) \<in> contributions (set ps) \<Longrightarrow> um_lookup (=) n (ss_conns_by_ns st) = Some (T n)" for c n i
    using st(2) unfolding scraped_def by metis
  have u: "(\<Union>(c, n, i) \<in> triples (ss_sockets st). case um_lookup (=) n (ss_conns_by_ns st) of None \<Rightarrow> {} | Some ns \<Rightarrow> F c ns i) =
      (\<Union>p \<in> set ps. case sockets_of p of None \<Rightarrow> {} | Some (c, n, I) \<Rightarrow> \<Union>i \<in> set I. F c (T n) i)" for F :: "string \<Rightarrow> NSNetworkData \<Rightarrow> u64 \<Rightarrow> 'x set"
  proof -
    have "(\<Union>(c, n, i) \<in> triples (ss_sockets st). case um_lookup (=) n (ss_conns_by_ns st) of None \<Rightarrow> {} | Some ns \<Rightarrow> F c ns i) =
        (\<Union>(c, n, i) \<in> contributions (set ps). F c (T n) i)"
      using lk tr by (intro SUP_cong) auto
    also have "\<dots> = (\<Union>p \<in> set ps. case sockets_of p of None \<Rightarrow> {} | Some (c, n, I) \<Rightarrow> \<Union>i \<in> set I. F c (T n) i)"
      by (fastforce simp: contributions_def split: option.splits)
    finally show ?thesis .
  qed
  show ?thesis
    by (simp add: ReadContainerConnections_def st(1) ResolveSocketInodes_collects u)
qed

theorem ReadContainerConnections_exact_witness:
  "\<exists>T out' stats'. ReadContainerConnections [] (Some [example_proc]) None True CollectorStats_new ([], []) = Inr (True, out', stats') \<and>
    set (fst out') = conn_at (replicate 12 CHR ''a'') (T 5) 7"
proof -
  obtain ok ns where g: "GetConnections [] True example_proc NSNetworkData_default = Inr (ok, ns)"
    using GetConnections_ok by blast
  have "GetNetworkNamespace (pd_netns_again example_proc) = Some 5"
    by (simp add: example_proc_def GetNetworkNamespace_def read_inode_simps)
  then have "list_all (stable [] True (\<lambda>_. ns)) [example_proc]"
    by (simp add: stable_def example_proc_sockets g)
  from ReadContainerConnections_exact [OF this, of None CollectorStats_new "([], [])"] show ?thesis
    by (intro exI [of _ "\<lambda>_. ns"]) (auto simp: example_proc_sockets)
qed



end
