(* ===== verification/SignalService.thy ===== *)
theory SignalService
  imports Prelude
begin

text \<open>
  The thread class (\<open>StoppableThread.cpp\<close>) and the client that pushes process signals
  (\<open>SignalServiceClient.cpp\<close>). The client has two threads: the worker, which establishes the stream
  and waits until it is interrupted, and its owner, which pushes signals and stops the client. They
  are two programs with their own program counters over a shared state, and a step is a step of one
  of them. The channel and the stream are gRPC's: their answers are arbitrary.

  A condition variable wakes a waiting thread when it is notified; a notification that finds nobody
  waiting is lost.
\<close>

section \<open>Stoppable threads\<close>

record StoppableThread =
  th_running :: bool
  th_should_stop :: bool
  th_write_end :: bool
  th_read_end :: bool

definition StoppableThread_new :: StoppableThread where
  "StoppableThread_new = \<lparr>th_running = False, th_should_stop = False, th_write_end = False, th_read_end = False\<rparr>"

text \<open>The outcome of \<open>pipe\<close> is an argument.\<close>

definition prepareStart :: "bool \<Rightarrow> StoppableThread \<Rightarrow> StoppableThread \<times> bool" where
  "prepareStart pipe_ok t =
     (if th_running t then (t, False)
      else
        (let t1 = t\<lparr>th_should_stop := False\<rparr>
         in if \<not> pipe_ok then (t1, False) else (t1\<lparr>th_write_end := True, th_read_end := True\<rparr>, True)))"

definition doStart :: "StoppableThread \<Rightarrow> StoppableThread \<times> bool" where
  "doStart t = (t\<lparr>th_running := True\<rparr>, True)"

definition Thread_Start :: "bool \<Rightarrow> StoppableThread \<Rightarrow> StoppableThread \<times> bool" where
  "Thread_Start pipe_ok t = (let (t1, ok) = prepareStart pipe_ok t in if \<not> ok then (t1, False) else doStart t1)"

text \<open>\<open>Stop\<close> before and after it waits for the thread.\<close>

definition Stop_begin :: "StoppableThread \<Rightarrow> StoppableThread" where
  "Stop_begin t = t\<lparr>th_should_stop := True, th_write_end := False\<rparr>"

definition Stop_end :: "StoppableThread \<Rightarrow> StoppableThread" where
  "Stop_end t = t\<lparr>th_running := False, th_read_end := False\<rparr>"

section \<open>The client\<close>

text \<open>
  The worker evaluates the condition of \<open>stream_interrupted_.wait\<close> (\<open>W_check\<close>); if it is false it
  goes on to wait (\<open>W_wait\<close>) and then waits for a notification (\<open>W_blocked\<close>). The mutex of the wait is
  a local variable that the notifying threads do not take, so nothing keeps a notification from
  arriving in between. After the wait (\<open>W_woken\<close>) it waits for the channel (\<open>W_channel\<close>), creates the
  stream (\<open>W_ready\<close>) and waits until it has started (\<open>W_starting\<close>); in the end it has returned
  (\<open>W_finished\<close>).
\<close>

datatype worker_pc = W_check | W_wait | W_blocked | W_woken | W_channel | W_ready | W_starting | W_finished

text \<open>
  The owner is between two calls (\<open>O_idle\<close>), or in \<open>Stop\<close>: after the notification (\<open>O_notified\<close>),
  waiting for the thread (\<open>O_joining\<close>), after that (\<open>O_joined\<close>), and after it has returned
  (\<open>O_stopped\<close>) or dereferenced a null pointer (\<open>O_crashed\<close>).
\<close>

datatype owner_pc = O_idle | O_notified | O_joining | O_joined | O_stopped | O_crashed

datatype SignalResult = PROCESSED | IGNORED | ERROR | NEEDS_REFRESH | FINISHED

record SignalServiceClient =
  sc_thread :: StoppableThread
  sc_stream_active :: bool
  sc_context :: bool
  sc_writer :: bool
  sc_first_write :: bool
  sc_worker :: worker_pc
  sc_owner :: owner_pc

text \<open>After construction and \<open>Start\<close>, where \<open>first_write_\<close> is indeterminate.\<close>

definition SignalServiceClient_started :: "bool \<Rightarrow> SignalServiceClient" where
  "SignalServiceClient_started fw =
     \<lparr>sc_thread = fst (Thread_Start True StoppableThread_new), sc_stream_active = False, sc_context = False, sc_writer = False,
      sc_first_write = fw, sc_worker = W_check, sc_owner = O_idle\<rparr>"

abbreviation should_stop :: "SignalServiceClient \<Rightarrow> bool" where
  "should_stop c \<equiv> th_should_stop (sc_thread c)"

text \<open>\<open>stream_interrupted_.notify_one()\<close>.\<close>

definition notify_interrupted :: "SignalServiceClient \<Rightarrow> SignalServiceClient" where
  "notify_interrupted c = (if sc_worker c = W_blocked then c\<lparr>sc_worker := W_check\<rparr> else c)"

text \<open>
  One step of \<open>EstablishGRPCStreamSingle\<close>, called in a loop as long as it returns true. The argument
  is what the channel or the stream answers where it is asked.
\<close>

definition EstablishGRPCStreamSingle :: "bool \<Rightarrow> SignalServiceClient \<Rightarrow> SignalServiceClient" where
  "EstablishGRPCStreamSingle answer c =
     (case sc_worker c of
        W_check \<Rightarrow> c\<lparr>sc_worker := (if \<not> sc_stream_active c \<or> should_stop c then W_woken else W_wait)\<rparr>
      | W_wait \<Rightarrow> c\<lparr>sc_worker := W_blocked\<rparr>
      | W_woken \<Rightarrow> c\<lparr>sc_worker := (if should_stop c then W_finished else W_channel)\<rparr>
      | W_channel \<Rightarrow>
          c\<lparr>sc_worker := (if should_stop c then W_finished else if answer then W_ready else W_channel)\<rparr>
      | W_ready \<Rightarrow>
          if should_stop c then c\<lparr>sc_worker := W_finished\<rparr>
          else c\<lparr>sc_context := True, sc_writer := True, sc_worker := W_starting\<rparr>
      | W_starting \<Rightarrow>
          if \<not> answer then c\<lparr>sc_writer := False, sc_worker := W_check\<rparr>
          else c\<lparr>sc_first_write := True, sc_stream_active := True, sc_worker := W_check\<rparr>
      | _ \<Rightarrow> c)"

text \<open>\<open>write_ok\<close> is the outcome of the write; \<open>None\<close> is a call through a null writer.\<close>

definition PushSignals :: "bool \<Rightarrow> SignalServiceClient \<Rightarrow> (SignalServiceClient \<times> SignalResult) option" where
  "PushSignals write_ok c =
     (if \<not> sc_stream_active c then Some (c, ERROR)
      else if sc_first_write c then Some (c\<lparr>sc_first_write := False\<rparr>, NEEDS_REFRESH)
      else if \<not> sc_writer c then None
      else if \<not> write_ok then
        Some (notify_interrupted (c\<lparr>sc_writer := False, sc_stream_active := False\<rparr>), ERROR)
      else Some (c, PROCESSED))"

text \<open>The statements of \<open>Stop\<close>, one after the other; waiting for the thread ends when it has finished.\<close>

definition SignalServiceClient_Stop :: "SignalServiceClient \<Rightarrow> SignalServiceClient option" where
  "SignalServiceClient_Stop c =
     (case sc_owner c of
        O_idle \<Rightarrow> Some ((notify_interrupted c)\<lparr>sc_owner := O_notified\<rparr>)
      | O_notified \<Rightarrow> Some (c\<lparr>sc_thread := Stop_begin (sc_thread c), sc_owner := O_joining\<rparr>)
      | O_joining \<Rightarrow>
          if sc_worker c = W_finished then Some (c\<lparr>sc_thread := Stop_end (sc_thread c), sc_owner := O_joined\<rparr>) else None
      | O_joined \<Rightarrow>
          if \<not> sc_context c then Some (c\<lparr>sc_owner := O_crashed\<rparr>)
          else Some (c\<lparr>sc_context := False, sc_owner := O_stopped\<rparr>)
      | _ \<Rightarrow> None)"

section \<open>Interleaving\<close>

inductive client_step :: "SignalServiceClient \<Rightarrow> SignalServiceClient \<Rightarrow> bool" where
  worker_step:
    "sc_worker c \<noteq> W_blocked \<Longrightarrow> sc_worker c \<noteq> W_finished \<Longrightarrow> sc_owner c \<noteq> O_crashed \<Longrightarrow>
       client_step c (EstablishGRPCStreamSingle answer c)"
| push_step: "sc_owner c = O_idle \<Longrightarrow> PushSignals write_ok c = Some (c', r) \<Longrightarrow> client_step c c'"
| stop_step: "SignalServiceClient_Stop c = Some c' \<Longrightarrow> client_step c c'"

inductive client_reachable :: "SignalServiceClient \<Rightarrow> bool" where
  client_started: "client_reachable (SignalServiceClient_started fw)"
| client_stepped: "client_reachable c \<Longrightarrow> client_step c c' \<Longrightarrow> client_reachable c'"

definition client_inv :: "SignalServiceClient \<Rightarrow> bool" where
  "client_inv c \<longleftrightarrow>
     (sc_stream_active c \<longrightarrow> sc_writer c \<and> sc_worker c \<in> {W_check, W_wait, W_blocked, W_woken, W_finished} \<and> (sc_context c \<or> sc_owner c \<in> {O_stopped, O_crashed})) \<and>
     (sc_stream_active c \<and> sc_worker c = W_woken \<longrightarrow> should_stop c) \<and>
     (sc_worker c = W_starting \<longrightarrow> sc_writer c \<and> sc_context c) \<and>
     (should_stop c \<longleftrightarrow> sc_owner c \<in> {O_joining, O_joined, O_stopped, O_crashed}) \<and>
     (sc_owner c \<in> {O_joined, O_stopped, O_crashed} \<longrightarrow> sc_worker c = W_finished) \<and>
     (sc_worker c = W_finished \<longrightarrow> should_stop c)"

lemma client_inv_started: "client_inv (SignalServiceClient_started fw)"
  by (simp add: client_inv_def SignalServiceClient_started_def Thread_Start_def prepareStart_def doStart_def
      StoppableThread_new_def)

lemma client_inv_step:
  assumes "client_inv c" "client_step c c'"
  shows "client_inv c'"
  using assms(2,1)
proof (induction rule: client_step.induct)
  case (worker_step c answer)
  then show ?case
    by (cases "sc_worker c"; simp add: client_inv_def EstablishGRPCStreamSingle_def; blast)
next
  case (push_step c write_ok c' r)
  then show ?case
    by (auto simp: client_inv_def PushSignals_def notify_interrupted_def split: if_splits)
next
  case (stop_step c c')
  then show ?case
    by (cases "sc_owner c"; cases "sc_worker c") (auto simp: client_inv_def SignalServiceClient_Stop_def notify_interrupted_def
      Stop_begin_def Stop_end_def split: if_splits)
qed

lemma client_inv_reachable: "client_reachable c \<Longrightarrow> client_inv c"
  by (induction rule: client_reachable.induct) (auto intro: client_inv_started client_inv_step)

section \<open>Runs\<close>

abbreviation client_run :: "SignalServiceClient \<Rightarrow> SignalServiceClient \<Rightarrow> bool" where
  "client_run \<equiv> client_step\<^sup>*\<^sup>*"

lemma run_reachable: "client_run c c' \<Longrightarrow> client_reachable c \<Longrightarrow> client_reachable c'"
  by (induction rule: rtranclp_induct) (auto intro: client_stepped)

lemma run_worker:
  "sc_worker c \<noteq> W_blocked \<Longrightarrow> sc_worker c \<noteq> W_finished \<Longrightarrow> sc_owner c \<noteq> O_crashed \<Longrightarrow>
     EstablishGRPCStreamSingle answer c = c' \<Longrightarrow> client_run c c'"
  using worker_step by blast

lemma run_push: "sc_owner c = O_idle \<Longrightarrow> PushSignals write_ok c = Some (c', r) \<Longrightarrow> client_run c c'"
  using push_step by blast

lemma run_stop: "SignalServiceClient_Stop c = Some c' \<Longrightarrow> client_run c c'"
  using stop_step by blast

lemmas run_simps = EstablishGRPCStreamSingle_def PushSignals_def SignalServiceClient_Stop_def notify_interrupted_def
  Stop_begin_def Stop_end_def SignalServiceClient_started_def Thread_Start_def prepareStart_def doStart_def
  StoppableThread_new_def

text \<open>The stream is established.\<close>

definition established :: SignalServiceClient where
  "established =
     \<lparr>sc_thread = \<lparr>th_running = True, th_should_stop = False, th_write_end = True, th_read_end = True\<rparr>,
      sc_stream_active = True, sc_context = True, sc_writer = True, sc_first_write = True, sc_worker = W_check, sc_owner = O_idle\<rparr>"

lemma established_reachable: "client_reachable established"
proof -
  let ?c = "SignalServiceClient_started False"
  have "client_run ?c (?c\<lparr>sc_worker := W_woken\<rparr>)"
    by (rule run_worker [where answer = True]) (simp_all add: run_simps)
  also have "client_run (?c\<lparr>sc_worker := W_woken\<rparr>) (?c\<lparr>sc_worker := W_channel\<rparr>)"
    by (rule run_worker [where answer = True]) (simp_all add: run_simps)
  also have "client_run (?c\<lparr>sc_worker := W_channel\<rparr>) (?c\<lparr>sc_worker := W_ready\<rparr>)"
    by (rule run_worker [where answer = True]) (simp_all add: run_simps)
  also have "client_run (?c\<lparr>sc_worker := W_ready\<rparr>) (?c\<lparr>sc_context := True, sc_writer := True, sc_worker := W_starting\<rparr>)"
    by (rule run_worker [where answer = True]) (simp_all add: run_simps)
  also have "client_run (?c\<lparr>sc_context := True, sc_writer := True, sc_worker := W_starting\<rparr>) established"
    by (rule run_worker [where answer = True]) (simp_all add: run_simps established_def)
  finally show ?thesis by (rule run_reachable) (rule client_started)
qed

text \<open>A write failed after the worker decided to wait and before it waits.\<close>

definition interrupted_unnoticed :: SignalServiceClient where
  "interrupted_unnoticed =
     established\<lparr>sc_stream_active := False, sc_writer := False, sc_first_write := False, sc_worker := W_blocked\<rparr>"

lemma interrupted_unnoticed_run: "client_run established interrupted_unnoticed"
proof -
  have "client_run established (EstablishGRPCStreamSingle True established)" (is "client_run _ ?c1")
    by (rule run_worker [where answer = True]) (simp_all add: established_def)
  also have "client_run ?c1 (?c1\<lparr>sc_first_write := False\<rparr>)" (is "client_run _ ?c2")
    by (rule run_push [where write_ok = True and r = NEEDS_REFRESH]) (simp_all add: run_simps established_def)
  also have "client_run ?c2 (?c2\<lparr>sc_writer := False, sc_stream_active := False\<rparr>)" (is "client_run _ ?c3")
    by (rule run_push [where write_ok = False and r = ERROR]) (simp_all add: run_simps established_def)
  also have "client_run ?c3 (EstablishGRPCStreamSingle True ?c3)" (is "client_run _ ?c4")
    by (rule run_worker [where answer = True]) (simp_all add: run_simps established_def)
  also have "?c4 = interrupted_unnoticed"
    by (simp add: run_simps established_def interrupted_unnoticed_def)
  finally show ?thesis .
qed

section \<open>Properties\<close>



text \<open>
  C24: A failed write can be lost on the worker: the state where the worker waits although the stream is
  down is reachable, and from such a state no push and no step of the worker leads out of it. Every
  signal is refused from then on, until the client is stopped.
\<close>

theorem lost_interruption:
  "\<exists>c. client_reachable c \<and> sc_owner c = O_idle \<and> sc_worker c = W_blocked \<and> \<not> sc_stream_active c \<and>
    (\<forall>ok. PushSignals ok c = Some (c, ERROR)) \<and> {c'. client_step c c'} \<subseteq> {c, (c\<lparr>sc_worker := W_check, sc_owner := O_notified\<rparr>)}"
proof (intro exI [of _ interrupted_unnoticed] conjI)
  show "client_reachable interrupted_unnoticed"
    by (rule run_reachable [OF interrupted_unnoticed_run established_reachable])
  show "{c'. client_step interrupted_unnoticed c'} \<subseteq>
      {interrupted_unnoticed, (interrupted_unnoticed\<lparr>sc_worker := W_check, sc_owner := O_notified\<rparr>)}"
    by (auto simp: interrupted_unnoticed_def established_def run_simps elim!: client_step.cases)
qed (simp_all add: interrupted_unnoticed_def established_def PushSignals_def)

text \<open>
  C25: Stopping a client whose stream is up can hang for ever: \<open>Stop\<close> notifies the worker before the
  thread is told to stop, so the worker can go back to waiting and is never notified again. And stopping
  a client that never had a stream dereferences the null context.
\<close>

theorem stop_can_hang_or_crash:
  "(client_reachable c \<and> sc_owner c = O_idle \<and> sc_worker c = W_blocked \<and> sc_stream_active c \<longrightarrow>
      (\<exists>c'. client_run c c' \<and> sc_owner c' = O_joining \<and> (\<nexists>c''. client_step c' c''))) \<and>
   (\<exists>c'. client_run (SignalServiceClient_started fw) c' \<and> sc_owner c' = O_crashed)"
proof (intro conjI impI)
  assume c: "client_reachable c \<and> sc_owner c = O_idle \<and> sc_worker c = W_blocked \<and> sc_stream_active c"
  then have ns: "\<not> should_stop c" using client_inv_reachable [of c] by (auto simp: client_inv_def)
  let ?n = "c\<lparr>sc_owner := O_notified\<rparr>"
  let ?j = "?n\<lparr>sc_thread := Stop_begin (sc_thread c), sc_owner := O_joining\<rparr>"
  have "client_run c (?n\<lparr>sc_worker := W_check\<rparr>)"
    using c by (intro run_stop) (simp_all add: run_simps)
  also have "client_run (?n\<lparr>sc_worker := W_check\<rparr>) (?n\<lparr>sc_worker := W_wait\<rparr>)"
    using c ns by (intro run_worker [where answer = True]) (simp_all add: run_simps)
  also have "client_run (?n\<lparr>sc_worker := W_wait\<rparr>) (?n\<lparr>sc_worker := W_blocked\<rparr>)"
    using c ns by (intro run_worker [where answer = True]) (simp_all add: run_simps)
  also have "?n\<lparr>sc_worker := W_blocked\<rparr> = ?n" using c by simp
  also have "client_run ?n ?j" by (intro run_stop) (simp_all add: run_simps)
  finally have "client_run c ?j" .
  moreover have "\<nexists>c''. client_step ?j c''"
    using c by (auto simp: run_simps elim!: client_step.cases)
  ultimately show "\<exists>c'. client_run c c' \<and> sc_owner c' = O_joining \<and> (\<nexists>c''. client_step c' c'')" by force
next
  let ?c = "SignalServiceClient_started fw"
  let ?j = "?c\<lparr>sc_owner := O_joining, sc_thread := Stop_begin (sc_thread ?c)\<rparr>"
  have "client_run ?c (?c\<lparr>sc_owner := O_notified\<rparr>)" by (intro run_stop) (simp_all add: run_simps)
  also have "client_run (?c\<lparr>sc_owner := O_notified\<rparr>) ?j" by (intro run_stop) (simp_all add: run_simps)
  also have "client_run ?j (?j\<lparr>sc_worker := W_woken\<rparr>)"
    by (intro run_worker [where answer = True]) (simp_all add: run_simps)
  also have "client_run (?j\<lparr>sc_worker := W_woken\<rparr>) (?j\<lparr>sc_worker := W_finished\<rparr>)"
    by (intro run_worker [where answer = True]) (simp_all add: run_simps)
  also have "client_run (?j\<lparr>sc_worker := W_finished\<rparr>)
      (?j\<lparr>sc_worker := W_finished, sc_thread := Stop_end (sc_thread ?j), sc_owner := O_joined\<rparr>)" (is "client_run _ ?d")
    by (intro run_stop) (simp_all add: run_simps)
  also have "client_run ?d (?d\<lparr>sc_owner := O_crashed\<rparr>)" by (intro run_stop) (simp_all add: run_simps)
  finally show "\<exists>c'. client_run ?c c' \<and> sc_owner c' = O_crashed" by force
qed

theorem stop_can_hang_or_crash_witness:
  "\<exists>c'. client_run (established\<lparr>sc_worker := W_blocked\<rparr>) c' \<and> sc_owner c' = O_joining \<and> (\<nexists>c''. client_step c' c'')"
proof -
  have "client_run established (established\<lparr>sc_worker := W_wait\<rparr>)"
    by (rule run_worker [where answer = True]) (simp_all add: run_simps established_def)
  also have "client_run (established\<lparr>sc_worker := W_wait\<rparr>) (established\<lparr>sc_worker := W_blocked\<rparr>)"
    by (rule run_worker [where answer = True]) (simp_all add: run_simps established_def)
  finally have "client_reachable (established\<lparr>sc_worker := W_blocked\<rparr>)"
    by (rule run_reachable) (rule established_reachable)
  then show ?thesis
    using stop_can_hang_or_crash [of "established\<lparr>sc_worker := W_blocked\<rparr>"] by (simp add: established_def)
qed

end
