(* ===== verification/ProcessSignals.thy ===== *)
theory ProcessSignals
  imports Utility RateLimit SignalService
begin

text \<open>
  Signals about processes: their messages (\<open>ProcessSignalFormatter.cpp\<close>) and their handler
  (\<open>ProcessSignalHandler.cpp\<close>).

  Events and threads belong to libsinsp: an event is what the accessors of the extractor give for it,
  a null pointer being \<open>None\<close>, and the traversal of the ancestors of a thread visits a list of
  pointers until its visitor says stop. The generated messages are records of their fields.
\<close>

section \<open>Threads, events and messages\<close>

record ThreadInfo =
  ti_comm :: string
  ti_exe :: string
  ti_exepath :: string
  ti_args :: "string list"
  ti_pid :: int
  ti_vpid :: int
  ti_uid :: u32
  ti_gid :: u32
  ti_clone_ts :: u64
  ti_is_main :: bool
  ti_cgroups :: "(string \<times> string) list"

record SinspEvent =
  ev_name :: string
  ev_comm :: "string option"
  ev_exepath :: "string option"
  ev_args :: "string option"
  ev_pid :: "int option"
  ev_uid :: "u32 option"
  ev_gid :: "u32 option"
  ev_ts :: u64
  ev_tinfo :: "ThreadInfo option"

record LineageInfo =
  li_parent_uid :: u32
  li_parent_exec_file_path :: string

record 't ProcessSignal =
  ps_id :: string
  ps_name :: string
  ps_exec_file_path :: string
  ps_args :: string
  ps_pid :: u32
  ps_uid :: u32
  ps_gid :: u32
  ps_time :: 't
  ps_container_id :: string
  ps_lineage :: "LineageInfo list"
  ps_scraped :: bool

text \<open>
  What the formatter uses of its surroundings: the library that checks UTF-8, the fresh identifier, the
  main thread and the ancestors of a thread, the conversion of times, and the configuration.
\<close>

record 't FormatEnv =
  fe_span :: "string \<Rightarrow> nat"
  fe_uuid :: string
  fe_main_thread :: "ThreadInfo \<Rightarrow> ThreadInfo option"
  fe_ancestors :: "ThreadInfo \<Rightarrow> ThreadInfo option list"
  fe_timestamp :: "u64 \<Rightarrow> 't"
  fe_disable_arguments :: bool

section \<open>Lineage\<close>

text \<open>The visitor: whether to go on, and the lineage.\<close>

definition lineage_visitor :: "ThreadInfo option \<Rightarrow> LineageInfo list \<Rightarrow> bool \<times> LineageInfo list" where
  "lineage_visitor ptr lineage =
     (case ptr of
        None \<Rightarrow> (False, lineage)
      | Some pt \<Rightarrow>
          if ti_pid pt = 0 then (False, lineage)
          else if ti_vpid pt = 0 \<and> GetContainerID (ti_cgroups pt) = [] then (False, lineage)
          else if ti_vpid pt \<noteq> 0 \<and> ti_pid pt = ti_vpid pt then (False, lineage)
          else if ti_vpid pt = -1 then (False, lineage)
          else
            (let lineage' =
               (if lineage = [] \<or> li_parent_exec_file_path (last lineage) \<noteq> ti_exepath pt
                then lineage @ [\<lparr>li_parent_uid = ti_uid pt, li_parent_exec_file_path = ti_exepath pt\<rparr>]
                else lineage)
             in if length lineage' \<ge> 10 then (False, lineage') else (True, lineage')))"

fun traverse_parent_state :: "ThreadInfo option list \<Rightarrow> LineageInfo list \<Rightarrow> LineageInfo list" where
  "traverse_parent_state [] lineage = lineage"
| "traverse_parent_state (p # ps) lineage =
     (let (go_on, lineage') = lineage_visitor p lineage
      in if go_on then traverse_parent_state ps lineage' else lineage')"

text \<open>The total is an \<open>int\<close>, which is extended with its sign when it is added to a counter.\<close>

definition GetTotalStringLength :: "LineageInfo list \<Rightarrow> u32" where
  "GetTotalStringLength lineage =
     foldl (\<lambda>n l. n + of_nat (length (li_parent_exec_file_path l))) 0 lineage"

definition CountLineage :: "LineageInfo list \<Rightarrow> CollectorStats \<Rightarrow> CollectorStats" where
  "CountLineage lineage stats =
     COUNTER_ADD process_lineage_string_total (scast (GetTotalStringLength lineage))
       (COUNTER_ADD process_lineage_sqr_total (of_nat (length lineage) * of_nat (length lineage))
         (COUNTER_ADD process_lineage_total (of_nat (length lineage)) (COUNTER_INC process_lineage_counts stats)))"

definition GetProcessLineage ::
  "'t FormatEnv \<Rightarrow> ThreadInfo option \<Rightarrow> LineageInfo list \<Rightarrow> CollectorStats \<Rightarrow> LineageInfo list \<times> CollectorStats" where
  "GetProcessLineage env ptr lineage stats =
     (case ptr of
        None \<Rightarrow> (lineage, stats)
      | Some tinfo \<Rightarrow>
          (case (if ti_is_main tinfo then Some tinfo else fe_main_thread env tinfo) of
             None \<Rightarrow> (lineage, stats)
           | Some mt \<Rightarrow>
               (let lineage' = traverse_parent_state (fe_ancestors env mt) lineage
                in (lineage', CountLineage lineage' stats))))"

section \<open>Messages\<close>

definition sanitize :: "(string \<Rightarrow> nat) \<Rightarrow> string \<Rightarrow> string" where
  "sanitize span s = (case SanitizedUTF8 span s of Some t \<Rightarrow> t | None \<Rightarrow> s)"

fun join_args :: "(string \<Rightarrow> string) \<Rightarrow> string list \<Rightarrow> string" where
  "join_args f [] = []"
| "join_args f [a] = f a"
| "join_args f (a # b # as) = f a @ CHR '' '' # join_args f (b # as)"

definition extract_proc_args :: "(string \<Rightarrow> nat) \<Rightarrow> ThreadInfo \<Rightarrow> string" where
  "extract_proc_args span tinfo = join_args (sanitize span) (ti_args tinfo)"

text \<open>A name or a path that is there, not empty and not marked as missing.\<close>

definition available :: "string option \<Rightarrow> bool" where
  "available s = (case s of None \<Rightarrow> False | Some x \<Rightarrow> x \<noteq> [] \<and> x \<noteq> ''<NA>'')"

definition first_available :: "(string \<Rightarrow> nat) \<Rightarrow> string option \<Rightarrow> string option \<Rightarrow> string" where
  "first_available span a b =
     (if available a then sanitize span (the a) else if available b then sanitize span (the b) else [])"

definition ValidateProcessDetails :: "ThreadInfo option \<Rightarrow> bool" where
  "ValidateProcessDetails ptr =
     (case ptr of
        None \<Rightarrow> False
      | Some tinfo \<Rightarrow> \<not> (ti_exepath tinfo = ''<NA>'' \<and> ti_comm tinfo = ''<NA>''))"

definition CreateProcessSignal_evt ::
  "'t FormatEnv \<Rightarrow> SinspEvent \<Rightarrow> CollectorStats \<Rightarrow> 't ProcessSignal \<times> CollectorStats" where
  "CreateProcessSignal_evt env event stats =
     (let (lineage, stats') = GetProcessLineage env (ev_tinfo event) [] stats
      in (\<lparr>ps_id = fe_uuid env,
           ps_name = first_available (fe_span env) (ev_comm event) (ev_exepath event),
           ps_exec_file_path = first_available (fe_span env) (ev_exepath event) (ev_comm event),
           ps_args =
             (if fe_disable_arguments env then []
              else (case ev_args event of None \<Rightarrow> [] | Some args \<Rightarrow> sanitize (fe_span env) args)),
           ps_pid = (case ev_pid event of None \<Rightarrow> 0 | Some pid \<Rightarrow> word_of_int pid),
           ps_uid = (case ev_uid event of None \<Rightarrow> 0 | Some uid \<Rightarrow> uid),
           ps_gid = (case ev_gid event of None \<Rightarrow> 0 | Some gid \<Rightarrow> gid),
           ps_time = fe_timestamp env (ev_ts event),
           ps_container_id = GetContainerID_event (Some (map_option ti_cgroups (ev_tinfo event))),
           ps_lineage = lineage, ps_scraped = False\<rparr>, stats'))"

definition CreateProcessSignal_tinfo ::
  "'t FormatEnv \<Rightarrow> ThreadInfo \<Rightarrow> CollectorStats \<Rightarrow> 't ProcessSignal \<times> CollectorStats" where
  "CreateProcessSignal_tinfo env tinfo stats =
     (let (lineage, stats') = GetProcessLineage env (Some tinfo) [] stats
      in (\<lparr>ps_id = fe_uuid env,
           ps_name = first_available (fe_span env) (Some (ti_comm tinfo)) (Some (ti_exepath tinfo)),
           ps_exec_file_path = first_available (fe_span env) (Some (ti_exepath tinfo)) (Some (ti_comm tinfo)),
           ps_args = extract_proc_args (fe_span env) tinfo,
           ps_pid = word_of_int (ti_pid tinfo), ps_uid = ti_uid tinfo, ps_gid = ti_gid tinfo,
           ps_time = fe_timestamp env (ti_clone_ts tinfo),
           ps_container_id = GetContainerID (ti_cgroups tinfo),
           ps_lineage = lineage, ps_scraped = True\<rparr>, stats'))"

definition process_signals :: "string \<Rightarrow> bool" where
  "process_signals name = (name = ''execve<'')"

definition ToProtoMessage_evt ::
  "'t FormatEnv \<Rightarrow> SinspEvent \<Rightarrow> CollectorStats \<Rightarrow> 't ProcessSignal option \<times> CollectorStats" where
  "ToProtoMessage_evt env event stats =
     (if \<not> process_signals (ev_name event) then (None, stats)
      else if \<not> ValidateProcessDetails (ev_tinfo event) then (None, stats)
      else (let (signal, stats') = CreateProcessSignal_evt env event stats in (Some signal, stats')))"

definition ToProtoMessage_tinfo ::
  "'t FormatEnv \<Rightarrow> ThreadInfo option \<Rightarrow> CollectorStats \<Rightarrow> 't ProcessSignal option \<times> CollectorStats" where
  "ToProtoMessage_tinfo env ptr stats =
     (if \<not> ValidateProcessDetails ptr then (None, stats)
      else (let (signal, stats') = CreateProcessSignal_tinfo env (the ptr) stats in (Some signal, stats')))"

section \<open>The handler\<close>

definition compute_process_key :: "'t ProcessSignal \<Rightarrow> string" where
  "compute_process_key s =
     ps_container_id s @ '' '' @ ps_name s @ '' '' @
       (if length (ps_args s) \<le> 256 then ps_args s else take 256 (ps_args s)) @ '' '' @ ps_exec_file_path s"

text \<open>The counters of the inspector that the handler changes.\<close>

record InspectorStats =
  nProcessSent :: u64
  nProcessSendFailures :: u64
  nProcessResolutionFailuresByEvt :: u64
  nProcessResolutionFailuresByTinfo :: u64
  nProcessRateLimitCount :: u64

record 'c ProcessSignalHandler =
  ph_client :: 'c
  ph_rate_limiter :: RateLimitCache
  ph_stats :: InspectorStats
  ph_collector_stats :: CollectorStats

text \<open>
  The common end of both handlers: rate limit and push. The client is its state and its push operation.
  \<open>None\<close> is a null pointer that was dereferenced, in the rate limiter or in the client.
\<close>

definition send_signal ::
  "('t ProcessSignal \<Rightarrow> 'c \<Rightarrow> ('c \<times> SignalResult) option) \<Rightarrow> Clock \<Rightarrow> 't ProcessSignal \<Rightarrow> 'c ProcessSignalHandler \<Rightarrow>
     ('c ProcessSignalHandler \<times> SignalResult) option" where
  "send_signal push clock signal h =
     (let ((rl, cs), allowed) = RateLimitCache_Allow clock (compute_process_key signal) (ph_rate_limiter h, ph_collector_stats h);
          h1 = h\<lparr>ph_rate_limiter := rl, ph_collector_stats := cs\<rparr>
      in case allowed of
           None \<Rightarrow> None
         | Some False \<Rightarrow>
             Some (h1\<lparr>ph_stats := (ph_stats h1)\<lparr>nProcessRateLimitCount := nProcessRateLimitCount (ph_stats h1) + 1\<rparr>\<rparr>, IGNORED)
         | Some True \<Rightarrow>
             (case push signal (ph_client h1) of
                None \<Rightarrow> None
              | Some (client, result) \<Rightarrow>
                  (let h2 = h1\<lparr>ph_client := client\<rparr>
                   in Some (if result = PROCESSED
                            then h2\<lparr>ph_stats := (ph_stats h2)\<lparr>nProcessSent := nProcessSent (ph_stats h2) + 1\<rparr>\<rparr>
                            else if result = ERROR
                            then h2\<lparr>ph_stats := (ph_stats h2)\<lparr>nProcessSendFailures := nProcessSendFailures (ph_stats h2) + 1\<rparr>\<rparr>
                            else h2, result))))"

definition HandleSignal ::
  "'t FormatEnv \<Rightarrow> ('t ProcessSignal \<Rightarrow> 'c \<Rightarrow> ('c \<times> SignalResult) option) \<Rightarrow> Clock \<Rightarrow> SinspEvent \<Rightarrow> 'c ProcessSignalHandler \<Rightarrow>
     ('c ProcessSignalHandler \<times> SignalResult) option" where
  "HandleSignal env push clock evt h =
     (let (msg, cs) = ToProtoMessage_evt env evt (ph_collector_stats h);
          h1 = h\<lparr>ph_collector_stats := cs\<rparr>
      in case msg of
           None \<Rightarrow>
             Some (h1\<lparr>ph_stats := (ph_stats h1)\<lparr>nProcessResolutionFailuresByEvt := nProcessResolutionFailuresByEvt (ph_stats h1) + 1\<rparr>\<rparr>,
                   IGNORED)
         | Some signal \<Rightarrow> send_signal push clock signal h1)"

definition HandleExistingProcess ::
  "'t FormatEnv \<Rightarrow> ('t ProcessSignal \<Rightarrow> 'c \<Rightarrow> ('c \<times> SignalResult) option) \<Rightarrow> Clock \<Rightarrow> ThreadInfo option \<Rightarrow> 'c ProcessSignalHandler \<Rightarrow>
     ('c ProcessSignalHandler \<times> SignalResult) option" where
  "HandleExistingProcess env push clock ptr h =
     (let (msg, cs) = ToProtoMessage_tinfo env ptr (ph_collector_stats h);
          h1 = h\<lparr>ph_collector_stats := cs\<rparr>
      in case msg of
           None \<Rightarrow>
             Some (h1\<lparr>ph_stats := (ph_stats h1)\<lparr>nProcessResolutionFailuresByTinfo := nProcessResolutionFailuresByTinfo (ph_stats h1) + 1\<rparr>\<rparr>,
                   IGNORED)
         | Some signal \<Rightarrow> send_signal push clock signal h1)"

definition Handler_Stop :: "('c \<Rightarrow> 'c) \<Rightarrow> 'c ProcessSignalHandler \<Rightarrow> 'c ProcessSignalHandler \<times> bool" where
  "Handler_Stop stop h =
     (h\<lparr>ph_client := stop (ph_client h), ph_rate_limiter := ResetRateLimitCache (ph_rate_limiter h)\<rparr>, True)"

section \<open>Lineage as a function of the ancestors\<close>

text \<open>The ancestors up to the boundary of the container.\<close>

definition in_container :: "ThreadInfo option \<Rightarrow> bool" where
  "in_container ptr =
     (case ptr of
        None \<Rightarrow> False
      | Some pt \<Rightarrow>
          ti_pid pt \<noteq> 0 \<and> ti_vpid pt \<noteq> -1 \<and>
          (if ti_vpid pt = 0 then GetContainerID (ti_cgroups pt) \<noteq> [] else ti_pid pt \<noteq> ti_vpid pt))"

definition lineage_of :: "ThreadInfo \<Rightarrow> LineageInfo" where
  "lineage_of pt = \<lparr>li_parent_uid = ti_uid pt, li_parent_exec_file_path = ti_exepath pt\<rparr>"

text \<open>Of neighbours with the same path the first one stays.\<close>

fun collapse :: "string option \<Rightarrow> LineageInfo list \<Rightarrow> LineageInfo list" where
  "collapse prev [] = []"
| "collapse prev (l # ls) =
     (if prev = Some (li_parent_exec_file_path l) then collapse prev ls
      else l # collapse (Some (li_parent_exec_file_path l)) ls)"

definition last_path :: "LineageInfo list \<Rightarrow> string option" where
  "last_path ls = (if ls = [] then None else Some (li_parent_exec_file_path (last ls)))"

lemma lineage_visitor_eq:
  "lineage_visitor p ls =
     (if in_container p then
        (let ls' = (if ls = [] \<or> li_parent_exec_file_path (last ls) \<noteq> ti_exepath (the p) then ls @ [lineage_of (the p)] else ls)
         in (length ls' < 10, ls'))
      else (False, ls))"
  by (cases p) (auto simp: lineage_visitor_def in_container_def lineage_of_def Let_def)

lemma traverse_parent_state_eq:
  "length ls < 10 \<Longrightarrow> traverse_parent_state ps ls =
     ls @ take (10 - length ls) (collapse (last_path ls) (map (\<lambda>p. lineage_of (the p)) (takeWhile in_container ps)))"
proof (induction ps arbitrary: ls)
  case (Cons p ps)
  let ?rest = "map (\<lambda>p. lineage_of (the p)) (takeWhile in_container ps)"
  let ?l = "lineage_of (the p)"
  have path: "li_parent_exec_file_path ?l = ti_exepath (the p)" by (simp add: lineage_of_def)
  show ?case
  proof (cases "in_container p")
    case True
    show ?thesis
    proof (cases "last_path ls = Some (ti_exepath (the p))")
      case True
      then have "ls \<noteq> []" "li_parent_exec_file_path (last ls) = ti_exepath (the p)"
        by (auto simp: last_path_def split: if_splits)
      then show ?thesis using Cons.IH [OF Cons.prems] Cons.prems \<open>in_container p\<close> True path
        by (simp add: lineage_visitor_eq)
    next
      case False
      let ?ls = "ls @ [?l]"
      have v: "lineage_visitor p ls = (length ?ls < 10, ?ls)"
        using False True by (auto simp: lineage_visitor_eq last_path_def split: if_splits)
      have lp: "last_path ?ls = Some (ti_exepath (the p))" by (simp add: last_path_def path)
      obtain k where k: "10 - length ls = Suc k" "10 - length ?ls = k"
        using Cons.prems by (cases "10 - length ls") auto
      show ?thesis
      proof (cases "length ?ls < 10")
        case True
        then show ?thesis using Cons.IH [OF True] v lp k False \<open>in_container p\<close> path by simp
      next
        case no: False
        then have "k = 0" using k by simp
        then show ?thesis using v k no False \<open>in_container p\<close> path by simp
      qed
    qed
  next
    case False
    then show ?thesis by (simp add: lineage_visitor_eq)
  qed
qed simp

lemma collapse_no_repeat:
  "(\<forall>i. Suc i < length (collapse prev ls) \<longrightarrow>
     li_parent_exec_file_path (collapse prev ls ! i) \<noteq> li_parent_exec_file_path (collapse prev ls ! Suc i)) \<and>
   (collapse prev ls \<noteq> [] \<longrightarrow> prev \<noteq> Some (li_parent_exec_file_path (hd (collapse prev ls))))"
proof (induction prev ls rule: collapse.induct)
  case (2 prev l ls)
  show ?case
  proof (cases "prev = Some (li_parent_exec_file_path l)")
    case False
    let ?c = "collapse (Some (li_parent_exec_file_path l)) ls"
    have "li_parent_exec_file_path ((l # ?c) ! i) \<noteq> li_parent_exec_file_path ((l # ?c) ! Suc i)" if "Suc i < length (l # ?c)" for i
      using that 2(2) [OF False] by (cases i) (auto simp: hd_conv_nth)
    then show ?thesis using False by simp
  qed (use 2 in simp)
qed simp

section \<open>The counters of the handler\<close>

text \<open>Every signal that was looked at and not deferred is in one of the counters.\<close>

definition accounted :: "InspectorStats \<Rightarrow> u64" where
  "accounted s =
     nProcessSent s + nProcessSendFailures s + nProcessResolutionFailuresByEvt s + nProcessResolutionFailuresByTinfo s +
     nProcessRateLimitCount s"

lemma Allow_with_limiter:
  assumes "rl_limiter c \<noteq> None"
  shows "\<exists>c' stats' b. RateLimitCache_Allow clock key (c, stats) = ((c', stats'), Some b) \<and> rl_limiter c' = rl_limiter c"
  using assms by (auto simp: RateLimitCache_Allow_def Let_def split: prod.split)

lemma PushSignals_results:
  "PushSignals ok c = Some (c', r) \<Longrightarrow> r \<in> {PROCESSED, ERROR, NEEDS_REFRESH}"
  by (auto simp: PushSignals_def split: if_splits)

text \<open>No null pointer was dereferenced, and the signal was counted once unless it is to be handled again.\<close>

definition counted_once ::
  "'c ProcessSignalHandler \<Rightarrow> ('c ProcessSignalHandler \<times> SignalResult) option \<Rightarrow> bool" where
  "counted_once h outcome =
     (case outcome of
        None \<Rightarrow> False
      | Some (h', r) \<Rightarrow>
          accounted (ph_stats h') = accounted (ph_stats h) + (if r = NEEDS_REFRESH then 0 else 1) \<and>
          rl_limiter (ph_rate_limiter h') \<noteq> None)"

lemma counted_once_Some:
  "counted_once h (Some (h', r)) \<longleftrightarrow>
     accounted (ph_stats h') = accounted (ph_stats h) + (if r = NEEDS_REFRESH then 0 else 1) \<and>
     rl_limiter (ph_rate_limiter h') \<noteq> None"
  by (simp add: counted_once_def)

lemma counted_once_cong: "counted_once (h\<lparr>ph_collector_stats := cs\<rparr>) x = counted_once h x"
  by (cases x) (auto simp: counted_once_def)

lemma send_signal_accounts:
  assumes "rl_limiter (ph_rate_limiter h) \<noteq> None" "push signal (ph_client h) = Some (c, res)" "res \<in> {PROCESSED, ERROR, NEEDS_REFRESH}"
  shows "counted_once h (send_signal push clock signal h)"
proof -
  obtain rl cs b where "RateLimitCache_Allow clock (compute_process_key signal) (ph_rate_limiter h, ph_collector_stats h) = ((rl, cs), Some b)"
    "rl_limiter rl \<noteq> None" using Allow_with_limiter [OF assms(1)] assms(1) by metis
  then show ?thesis using assms(2,3) by (cases b) (auto simp: send_signal_def accounted_def counted_once_def)
qed

section \<open>Properties\<close>

text \<open>
  C26: The lineage of a process is made of its ancestors up to the boundary of its container, without
  the neighbours that run the same path, and it has at most ten entries.
\<close>

theorem GetProcessLineage_ancestors:
  assumes "(if ti_is_main t then Some t else fe_main_thread env t) = Some mt"
  shows "fst (GetProcessLineage env (Some t) [] stats) =
      take 10 (collapse None (map (\<lambda>p. lineage_of (the p)) (takeWhile in_container (fe_ancestors env mt)))) \<and>
    length (fst (GetProcessLineage env (Some t) [] stats)) \<le> 10 \<and>
    (\<forall>i. Suc i < length (fst (GetProcessLineage env (Some t) [] stats)) \<longrightarrow>
       li_parent_exec_file_path (fst (GetProcessLineage env (Some t) [] stats) ! i) \<noteq>
       li_parent_exec_file_path (fst (GetProcessLineage env (Some t) [] stats) ! Suc i))"
proof -
  let ?c = "collapse None (map (\<lambda>p. lineage_of (the p)) (takeWhile in_container (fe_ancestors env mt)))"
  have "fst (GetProcessLineage env (Some t) [] stats) = take 10 ?c"
    using assms traverse_parent_state_eq [of "[]"] by (simp add: GetProcessLineage_def Let_def last_path_def)
  then show ?thesis using collapse_no_repeat [of None "map (\<lambda>p. lineage_of (the p)) (takeWhile in_container (fe_ancestors env mt))"]
    by simp
qed

definition example_thread :: ThreadInfo where
  "example_thread =
     \<lparr>ti_comm = ''sh'', ti_exe = ''/bin/sh'', ti_exepath = ''/bin/sh'', ti_args = [''-c'', ''id''], ti_pid = 41, ti_vpid = 7, ti_uid = 3, ti_gid = 0,
      ti_clone_ts = 0, ti_is_main = True, ti_cgroups = []\<rparr>"

definition example_env :: "unit FormatEnv" where
  "example_env =
     \<lparr>fe_span = length, fe_uuid = ''id'', fe_main_thread = (\<lambda>t. Some t),
      fe_ancestors = (\<lambda>t. [Some t, Some t, None]), fe_timestamp = (\<lambda>_. ()), fe_disable_arguments = True\<rparr>"

theorem GetProcessLineage_ancestors_witness:
  "fst (GetProcessLineage example_env (Some example_thread) [] CollectorStats_new) =
    [\<lparr>li_parent_uid = 3, li_parent_exec_file_path = ''/bin/sh''\<rparr>]"
  using GetProcessLineage_ancestors [of example_thread example_env example_thread CollectorStats_new]
  by (simp add: example_thread_def example_env_def in_container_def lineage_of_def)



text \<open>
  C27: With the gRPC client, handling an event or an existing process never dereferences a null pointer,
  and each one is counted exactly once, as sent, failed, unresolved or limited, unless the client asks
  for a refresh; in that case it is counted when it is handled again.
\<close>

theorem handler_counts_once:
  assumes "client_reachable (ph_client h)" "rl_limiter (ph_rate_limiter h) \<noteq> None"
  shows "counted_once h (HandleSignal env (\<lambda>_. PushSignals ok) clock evt h) \<and>
    counted_once h (HandleExistingProcess env (\<lambda>_. PushSignals ok) clock ptr h)"
proof -
  have "sc_stream_active (ph_client h) \<longrightarrow> sc_writer (ph_client h)"
    using client_inv_reachable [OF assms(1)] by (simp add: client_inv_def)
  then have "PushSignals ok (ph_client h) \<noteq> None" by (simp add: PushSignals_def)
  then obtain c res where p: "PushSignals ok (ph_client h) = Some (c, res)" "res \<in> {PROCESSED, ERROR, NEEDS_REFRESH}"
    using PushSignals_results by (metis option.exhaust surj_pair)
  have s: "counted_once h (send_signal (\<lambda>_. PushSignals ok) clock signal (h\<lparr>ph_collector_stats := cs\<rparr>))"
    for signal :: "'t ProcessSignal" and cs
    using send_signal_accounts [of "h\<lparr>ph_collector_stats := cs\<rparr>" "\<lambda>_. PushSignals ok" signal c res clock] assms(2) p
    by (simp add: counted_once_cong)
  have u: "accounted (x\<lparr>nProcessResolutionFailuresByEvt := nProcessResolutionFailuresByEvt x + 1\<rparr>) = accounted x + 1"
    "accounted (x\<lparr>nProcessResolutionFailuresByTinfo := nProcessResolutionFailuresByTinfo x + 1\<rparr>) = accounted x + 1" for x
    by (simp_all add: accounted_def)
  have e: "counted_once h (HandleSignal env (\<lambda>_. PushSignals ok) clock evt h)"
  proof (cases "ToProtoMessage_evt env evt (ph_collector_stats h)")
    case (Pair msg cs)
    then show ?thesis using s assms(2) by (cases msg) (simp_all add: HandleSignal_def u counted_once_Some)
  qed
  have "counted_once h (HandleExistingProcess env (\<lambda>_. PushSignals ok) clock ptr h)"
  proof (cases "ToProtoMessage_tinfo env ptr (ph_collector_stats h)")
    case (Pair msg cs)
    then show ?thesis using s assms(2) by (cases msg) (simp_all add: HandleExistingProcess_def u counted_once_Some)
  qed
  with e show ?thesis ..
qed

definition example_handler :: "SignalServiceClient ProcessSignalHandler" where
  "example_handler =
     \<lparr>ph_client = established, ph_rate_limiter = RateLimitCache_default,
      ph_stats = \<lparr>nProcessSent = 0, nProcessSendFailures = 0, nProcessResolutionFailuresByEvt = 0,
        nProcessResolutionFailuresByTinfo = 0, nProcessRateLimitCount = 0\<rparr>,
      ph_collector_stats = CollectorStats_new\<rparr>"

theorem handler_counts_once_witness:
  "counted_once example_handler (HandleExistingProcess example_env (\<lambda>_. PushSignals True)
     \<lparr>now_fill = 1, now_refill = 1, now_cap = 1\<rparr> (Some example_thread) example_handler)"
  using handler_counts_once [of example_handler example_env True] established_reachable
  by (simp add: example_handler_def RateLimitCache_default_def)

end
