(* ===== verification/ProcessStore.thy ===== *)
theory ProcessStore
  imports ProcessSignals
begin

text \<open>
  Processes and their store (\<open>Process.cpp\<close>), with the requests for process information that the
  inspector serves (\<open>system-inspector/Service.cpp\<close>).

  The objects live in an explicit heap. A weak pointer is an address, and locking it succeeds while the
  object lives. The callback of a request is owned by its process, so it lives as long as the process;
  but locking the callback does not keep the process alive. The serving thread is therefore modelled in
  two steps, locking the callback and calling it.
\<close>

section \<open>Processes\<close>

record ProcessObject =
  po_pid :: u64
  po_pending :: bool
  po_info :: "ThreadInfo option"

text \<open>
  The state that is shared by the store, its processes and the serving thread. The serving thread holds
  the mutex of the requests while it has a callback locked. The last field records that a callback ran on
  a process that was already destroyed.
\<close>

record StoreState =
  ss_instance :: bool
  ss_objects :: "nat \<rightharpoonup> ProcessObject"
  ss_next :: nat
  ss_cache :: "u64 \<rightharpoonup> nat"
  ss_requests :: "(u64 \<times> nat) list"
  ss_locked :: "nat option"
  ss_dangling :: bool

definition ProcessStore_new :: "bool \<Rightarrow> StoreState" where
  "ProcessStore_new inst =
     \<lparr>ss_instance = inst, ss_objects = Map.empty, ss_next = 0, ss_cache = Map.empty, ss_requests = [],
      ss_locked = None, ss_dangling = False\<rparr>"

definition GetProcessInformation :: "u64 \<Rightarrow> nat \<Rightarrow> StoreState \<Rightarrow> StoreState" where
  "GetProcessInformation pid callback s = s\<lparr>ss_requests := ss_requests s @ [(pid, callback)]\<rparr>"

definition Process_new :: "u64 \<Rightarrow> StoreState \<Rightarrow> nat \<times> StoreState" where
  "Process_new pid s =
     (let a = ss_next s;
          s1 = s\<lparr>ss_next := Suc a,
                 ss_objects := (ss_objects s)(a \<mapsto> \<lparr>po_pid = pid, po_pending = ss_instance s, po_info = None\<rparr>)\<rparr>
      in (a, if ss_instance s then GetProcessInformation pid a s1 else s1))"

definition weak_lock :: "StoreState \<Rightarrow> nat \<Rightarrow> nat option" where
  "weak_lock s a = (case ss_objects s a of None \<Rightarrow> None | Some _ \<Rightarrow> Some a)"

definition Fetch :: "u64 \<Rightarrow> StoreState \<Rightarrow> nat option \<times> StoreState" where
  "Fetch pid s =
     (case ss_cache s pid of
        Some a \<Rightarrow> (weak_lock s a, s)
      | None \<Rightarrow>
          (let (a, s1) = Process_new pid s
           in (Some a, s1\<lparr>ss_cache := (ss_cache s1)(pid \<mapsto> a)\<rparr>)))"

definition Process_delete :: "nat \<Rightarrow> StoreState \<Rightarrow> StoreState" where
  "Process_delete a s =
     (case ss_objects s a of
        None \<Rightarrow> s
      | Some p \<Rightarrow> s\<lparr>ss_cache := (ss_cache s)(po_pid p := None), ss_objects := (ss_objects s)(a := None)\<rparr>)"

definition resolved :: "ThreadInfo option \<Rightarrow> ProcessObject \<Rightarrow> ProcessObject" where
  "resolved process_info p = p\<lparr>po_info := process_info, po_pending := False\<rparr>"

definition ProcessInfoResolved :: "ThreadInfo option \<Rightarrow> nat \<Rightarrow> StoreState \<Rightarrow> StoreState" where
  "ProcessInfoResolved process_info a s =
     (case ss_objects s a of
        None \<Rightarrow> s\<lparr>ss_dangling := True\<rparr>
      | Some p \<Rightarrow> s\<lparr>ss_objects := (ss_objects s)(a \<mapsto> resolved process_info p)\<rparr>)"

text \<open>The counters of a wait that took \<open>micros\<close> when it had to wait.\<close>

definition WaitForProcessInfo :: "u64 \<Rightarrow> ProcessObject \<Rightarrow> CollectorStats \<Rightarrow> CollectorStats" where
  "WaitForProcessInfo micros p stats =
     (let stats' = COUNTER_ADD (if po_pending p then process_info_miss else process_info_hit) 1 stats
      in if po_pending p then EndTimerAt process_info_wait micros stats' else stats')"

text \<open>The accessors, on the object as it is after the wait.\<close>

definition NOT_AVAILABLE :: string where
  "NOT_AVAILABLE = ''N/A''"

definition Process_container_id :: "ProcessObject \<Rightarrow> string" where
  "Process_container_id p =
     (case po_info p of
        Some t \<Rightarrow> if GetContainerID (ti_cgroups t) \<noteq> [] then GetContainerID (ti_cgroups t) else NOT_AVAILABLE
      | None \<Rightarrow> NOT_AVAILABLE)"

definition Process_comm :: "ProcessObject \<Rightarrow> string" where
  "Process_comm p = (case po_info p of Some t \<Rightarrow> ti_comm t | None \<Rightarrow> NOT_AVAILABLE)"

definition Process_exe :: "ProcessObject \<Rightarrow> string" where
  "Process_exe p = (case po_info p of Some t \<Rightarrow> ti_exe t | None \<Rightarrow> NOT_AVAILABLE)"

definition Process_exe_path :: "ProcessObject \<Rightarrow> string" where
  "Process_exe_path p = (case po_info p of Some t \<Rightarrow> ti_exepath t | None \<Rightarrow> NOT_AVAILABLE)"

fun args_loop :: "string list \<Rightarrow> string" where
  "args_loop [] = []"
| "args_loop (a # rest) = a @ (if rest \<noteq> [] then '' '' else []) @ args_loop rest"

definition Process_args :: "ProcessObject \<Rightarrow> string" where
  "Process_args p =
     (case po_info p of
        None \<Rightarrow> NOT_AVAILABLE
      | Some t \<Rightarrow> if ti_args t = [] then [] else args_loop (ti_args t))"

section \<open>Serving the requests\<close>

text \<open>The first half of an iteration: the front request, and its callback if it can be locked.\<close>

definition serve_lock :: "StoreState \<Rightarrow> StoreState" where
  "serve_lock s =
     (case ss_requests s of
        [] \<Rightarrow> s
      | (pid, callback) # rest \<Rightarrow>
          (case weak_lock s callback of
             None \<Rightarrow> s\<lparr>ss_requests := rest\<rparr>
           | Some a \<Rightarrow> s\<lparr>ss_locked := Some a\<rparr>))"

text \<open>The second half: the call, with what the thread table has for the process, and the removal.\<close>

definition serve_call :: "(u64 \<Rightarrow> ThreadInfo option) \<Rightarrow> StoreState \<Rightarrow> StoreState" where
  "serve_call get_thread s =
     (case ss_locked s of
        None \<Rightarrow> s
      | Some a \<Rightarrow>
          (case ss_requests s of
             [] \<Rightarrow> s
           | (pid, _) # rest \<Rightarrow> (ProcessInfoResolved (get_thread pid) a s)\<lparr>ss_requests := rest, ss_locked := None\<rparr>))"

fun serve_loop :: "(u64 \<Rightarrow> ThreadInfo option) \<Rightarrow> (u64 \<times> nat) list \<Rightarrow> StoreState \<Rightarrow> StoreState" where
  "serve_loop get_thread [] s = s"
| "serve_loop get_thread (_ # rest) s = serve_loop get_thread rest (serve_call get_thread (serve_lock s))"

definition ServePendingProcessRequests :: "(u64 \<Rightarrow> ThreadInfo option) \<Rightarrow> StoreState \<Rightarrow> StoreState" where
  "ServePendingProcessRequests get_thread s = serve_loop get_thread (ss_requests s) s"

text \<open>The end of \<open>CleanUp\<close>: every request is answered with a null pointer.\<close>

definition cancel_requests :: "StoreState \<Rightarrow> StoreState" where
  "cancel_requests s = serve_loop (\<lambda>_. None) (ss_requests s) s"

section \<open>Interleaving\<close>

text \<open>
  The owner fetches processes and drops them, while the serving thread answers. A new process makes a
  request and so waits for the mutex. Destroying a process takes no mutex: with \<open>excl\<close> it is assumed that
  nobody drops the process whose callback is locked.
\<close>

inductive store_step :: "bool \<Rightarrow> StoreState \<Rightarrow> StoreState \<Rightarrow> bool" for excl where
  step_fetch: "ss_cache s pid \<noteq> None \<or> ss_locked s = None \<Longrightarrow> store_step excl s (snd (Fetch pid s))"
| step_drop: "\<not> (excl \<and> ss_locked s = Some a) \<Longrightarrow> store_step excl s (Process_delete a s)"
| step_lock: "ss_locked s = None \<Longrightarrow> store_step excl s (serve_lock s)"
| step_call: "store_step excl s (serve_call get_thread s)"

inductive store_reachable :: "bool \<Rightarrow> StoreState \<Rightarrow> bool" for excl where
  reach_new: "store_reachable excl (ProcessStore_new inst)"
| reach_step: "store_reachable excl s \<Longrightarrow> store_step excl s s' \<Longrightarrow> store_reachable excl s'"

text \<open>
  The cache has exactly the live processes. Exactly the processes whose information is pending have a
  request, and they have one.
\<close>

definition cache_exact :: "StoreState \<Rightarrow> bool" where
  "cache_exact s \<longleftrightarrow> (\<forall>pid a. ss_cache s pid = Some a \<longleftrightarrow> (\<exists>p. ss_objects s a = Some p \<and> po_pid p = pid))"

definition fresh_above :: "StoreState \<Rightarrow> bool" where
  "fresh_above s \<longleftrightarrow> (\<forall>a. ss_next s \<le> a \<longrightarrow> ss_objects s a = None) \<and> (\<forall>r \<in> set (ss_requests s). snd r < ss_next s)"

definition request_each :: "StoreState \<Rightarrow> bool" where
  "request_each s \<longleftrightarrow>
     distinct (map snd (ss_requests s)) \<and>
     (\<forall>a p. ss_objects s a = Some p \<longrightarrow> (po_pending p \<longleftrightarrow> (po_pid p, a) \<in> set (ss_requests s))) \<and>
     (\<forall>r p. r \<in> set (ss_requests s) \<longrightarrow> ss_objects s (snd r) = Some p \<longrightarrow> po_pid p = fst r)"

definition locked_front :: "StoreState \<Rightarrow> bool" where
  "locked_front s \<longleftrightarrow> (\<forall>a. ss_locked s = Some a \<longrightarrow> ss_requests s \<noteq> [] \<and> snd (hd (ss_requests s)) = a)"

definition store_inv :: "StoreState \<Rightarrow> bool" where
  "store_inv s \<longleftrightarrow> cache_exact s \<and> fresh_above s \<and> request_each s \<and> locked_front s"

lemma store_inv_new: "store_inv (ProcessStore_new inst)"
  by (simp add: store_inv_def cache_exact_def fresh_above_def request_each_def locked_front_def ProcessStore_new_def)

lemma Fetch_cached: "ss_cache s pid = Some a \<Longrightarrow> Fetch pid s = (weak_lock s a, s)"
  by (simp add: Fetch_def)

lemma Fetch_new:
  assumes "ss_cache s pid = None"
  shows "Fetch pid s = (Some (ss_next s),
    s\<lparr>ss_next := Suc (ss_next s),
      ss_objects := (ss_objects s)(ss_next s \<mapsto> \<lparr>po_pid = pid, po_pending = ss_instance s, po_info = None\<rparr>),
      ss_cache := (ss_cache s)(pid \<mapsto> ss_next s),
      ss_requests := ss_requests s @ (if ss_instance s then [(pid, ss_next s)] else [])\<rparr>)"
  using assms by (simp add: Fetch_def Process_new_def GetProcessInformation_def Let_def)

lemma store_inv_fetch:
  assumes inv: "store_inv s" and "ss_cache s pid \<noteq> None \<or> ss_locked s = None"
  shows "store_inv (snd (Fetch pid s))"
proof (cases "ss_cache s pid")
  case None
  have l: "ss_locked s = None" using assms(2) None by simp
  have f: "ss_objects s (ss_next s) = None" "ss_next s \<notin> snd ` set (ss_requests s)" "\<And>x. (x, ss_next s) \<notin> set (ss_requests s)"
    using inv by (auto simp: store_inv_def fresh_above_def)
  have "\<And>b q. ss_objects s b = Some q \<Longrightarrow> po_pid q \<noteq> pid"
    using inv None unfolding store_inv_def cache_exact_def by (metis option.distinct(1))
  then have "cache_exact (snd (Fetch pid s))"
    using inv None f by (auto simp: Fetch_new store_inv_def cache_exact_def)
  moreover have "fresh_above (snd (Fetch pid s))"
    using inv None by (auto simp: Fetch_new store_inv_def fresh_above_def less_Suc_eq)
  moreover have "request_each (snd (Fetch pid s))"
    using inv None f by (auto simp: Fetch_new store_inv_def request_each_def)
  moreover have "locked_front (snd (Fetch pid s))"
    using l None by (simp add: Fetch_new locked_front_def)
  ultimately show ?thesis by (simp add: store_inv_def)
next
  case (Some a)
  then show ?thesis using inv by (simp add: Fetch_cached)
qed

lemma cache_unique:
  assumes "cache_exact s" "ss_objects s a = Some p" "ss_objects s b = Some q" "po_pid p = po_pid q"
  shows "a = b"
proof -
  have "ss_cache s (po_pid p) = Some a" "ss_cache s (po_pid p) = Some b"
    using assms by (auto simp: cache_exact_def)
  then show ?thesis by simp
qed

lemma store_inv_drop:
  assumes inv: "store_inv s"
  shows "store_inv (Process_delete a s)"
proof (cases "ss_objects s a")
  case None
  then show ?thesis using inv by (simp add: Process_delete_def)
next
  case (Some p)
  have x: "cache_exact s" using inv by (simp add: store_inv_def)
  have "cache_exact (Process_delete a s)"
    unfolding cache_exact_def
  proof (intro allI)
    fix pid b
    show "ss_cache (Process_delete a s) pid = Some b \<longleftrightarrow>
      (\<exists>q. ss_objects (Process_delete a s) b = Some q \<and> po_pid q = pid)"
    proof (cases "b = a")
      case True
      moreover have "pid \<noteq> po_pid p \<Longrightarrow> ss_cache s pid \<noteq> Some a" using x Some by (simp add: cache_exact_def)
      ultimately show ?thesis using Some by (simp add: Process_delete_def)
    next
      case False
      then have "ss_objects s b = Some q \<Longrightarrow> po_pid q \<noteq> po_pid p" for q using cache_unique [OF x _ Some] by blast
      then show ?thesis using Some False x by (auto simp: Process_delete_def cache_exact_def)
    qed
  qed
  moreover have "fresh_above (Process_delete a s)" "locked_front (Process_delete a s)"
    using inv Some by (simp_all add: Process_delete_def store_inv_def fresh_above_def locked_front_def)
  moreover have "request_each (Process_delete a s)"
    using inv Some by (simp add: Process_delete_def store_inv_def request_each_def)
  ultimately show ?thesis by (simp add: store_inv_def)
qed

lemma store_inv_lock:
  assumes inv: "store_inv s" and l: "ss_locked s = None"
  shows "store_inv (serve_lock s)"
proof (cases "ss_requests s")
  case Nil
  then show ?thesis using inv by (simp add: serve_lock_def)
next
  case (Cons r rest)
  obtain pid a where r: "r = (pid, a)" by (cases r)
  show ?thesis
  proof (cases "ss_objects s a")
    case None
    then have "serve_lock s = s\<lparr>ss_requests := rest\<rparr>" using Cons r by (simp add: serve_lock_def weak_lock_def)
    then show ?thesis
      using inv Cons r l None
      by (auto simp: store_inv_def cache_exact_def fresh_above_def request_each_def locked_front_def)
  next
    case (Some p)
    then have "serve_lock s = s\<lparr>ss_locked := Some a\<rparr>" using Cons r by (simp add: serve_lock_def weak_lock_def)
    then show ?thesis
      using inv Cons r by (simp add: store_inv_def cache_exact_def fresh_above_def request_each_def locked_front_def)
  qed
qed

lemma store_inv_call:
  assumes inv: "store_inv s"
  shows "store_inv (serve_call g s)"
proof (cases "ss_locked s")
  case None
  then show ?thesis using inv by (simp add: serve_call_def)
next
  case (Some a)
  then obtain pid rest where r: "ss_requests s = (pid, a) # rest"
    using inv by (cases "ss_requests s") (auto simp: store_inv_def locked_front_def)
  have q: "request_each s" using inv by (simp add: store_inv_def)
  then have d: "a \<notin> snd ` set rest" using r by (simp add: request_each_def)
  then have e: "(x, a) \<notin> set rest" for x by (metis image_eqI snd_conv)
  have "cache_exact (serve_call g s)" "fresh_above (serve_call g s)"
    using inv Some r
    by (auto simp: store_inv_def cache_exact_def fresh_above_def serve_call_def ProcessInfoResolved_def resolved_def
        split: option.splits)
  moreover have "request_each (serve_call g s)"
  proof (cases "ss_objects s a")
    case None
    then have eq: "serve_call g s = s\<lparr>ss_dangling := True, ss_requests := rest, ss_locked := None\<rparr>"
      using Some r by (simp add: serve_call_def ProcessInfoResolved_def)
    have "(po_pid p, b) \<in> set (ss_requests s) \<longleftrightarrow> (po_pid p, b) \<in> set rest" if "ss_objects s b = Some p" for b p
      using that None r by auto
    then show ?thesis using q r by (simp add: request_each_def eq)
  next
    case (Some p)
    then have eq: "serve_call g s =
        s\<lparr>ss_objects := (ss_objects s)(a \<mapsto> resolved (g pid) p), ss_requests := rest, ss_locked := None\<rparr>"
      using \<open>ss_locked s = Some a\<close> r by (simp add: serve_call_def ProcessInfoResolved_def)
    have "x \<in> set rest \<Longrightarrow> snd x \<noteq> a" for x using d by auto
    then show ?thesis using q r e by (simp add: request_each_def eq resolved_def)
  qed
  moreover have "locked_front (serve_call g s)"
    using Some r by (simp add: locked_front_def serve_call_def)
  ultimately show ?thesis by (simp add: store_inv_def)
qed

lemma store_inv_step: "store_step excl s s' \<Longrightarrow> store_inv s \<Longrightarrow> store_inv s'"
  by (induction rule: store_step.induct) (simp_all add: store_inv_fetch store_inv_drop store_inv_lock store_inv_call)

lemma store_inv_reachable: "store_reachable excl s \<Longrightarrow> store_inv s"
  by (induction rule: store_reachable.induct) (auto intro: store_inv_new store_inv_step)

lemma serve_round:
  assumes "ss_locked s = None" "ss_requests s = (pid, a) # rest"
  shows "serve_call g (serve_lock s) = s\<lparr>ss_requests := rest,
    ss_objects := (case ss_objects s a of None \<Rightarrow> ss_objects s | Some p \<Rightarrow> (ss_objects s)(a \<mapsto> resolved (g pid) p))\<rparr>"
  using assms by (cases "ss_objects s a") (simp_all add: serve_lock_def serve_call_def weak_lock_def ProcessInfoResolved_def)

text \<open>What becomes of a process when its request is answered.\<close>

definition answered :: "(u64 \<Rightarrow> ThreadInfo option) \<Rightarrow> ProcessObject \<Rightarrow> ProcessObject" where
  "answered g p = (if po_pending p then resolved (g (po_pid p)) p else p)"

lemma answered_resolved [simp]: "answered g (resolved x p) = resolved x p"
  by (simp add: answered_def resolved_def)

lemma serve_loop_eq:
  assumes "store_inv s" "ss_locked s = None"
  shows "serve_loop g (ss_requests s) s =
    s\<lparr>ss_requests := [], ss_objects := (\<lambda>a. map_option (answered g) (ss_objects s a))\<rparr>"
  using assms
proof (induction "ss_requests s" arbitrary: s)
  case Nil
  then have "map_option (answered g) (ss_objects s a) = ss_objects s a" for a
    by (cases "ss_objects s a") (auto simp: store_inv_def request_each_def answered_def)
  then show ?case using Nil(1) by simp
next
  case (Cons r rest)
  obtain pid a where r: "ss_requests s = (pid, a) # rest" using Cons(2) by (metis surj_pair)
  let ?s = "serve_call g (serve_lock s)"
  note eq = serve_round [OF Cons(4) r, of g]
  have "store_inv ?s" using Cons(3, 4) by (simp add: store_inv_lock store_inv_call)
  then have ih: "serve_loop g rest ?s = ?s\<lparr>ss_requests := [], ss_objects := (\<lambda>a. map_option (answered g) (ss_objects ?s a))\<rparr>"
    using Cons(1) [of ?s] Cons(4) eq by simp
  have p: "po_pending p \<and> po_pid p = pid" if "ss_objects s a = Some p" for p
    using Cons(3) r that by (fastforce simp: store_inv_def request_each_def)
  have "map_option (answered g) (ss_objects ?s b) = map_option (answered g) (ss_objects s b)" for b
    using p by (cases "ss_objects s a") (auto simp: eq answered_def resolved_def)
  then show ?case using ih by (simp add: r eq)
qed

lemma locked_alive:
  assumes "store_reachable True s"
  shows "\<not> ss_dangling s \<and> (\<forall>a. ss_locked s = Some a \<longrightarrow> ss_objects s a \<noteq> None)"
  using assms
proof (induction rule: store_reachable.induct)
  case (reach_new inst)
  show ?case by (simp add: ProcessStore_new_def)
next
  case (reach_step s s')
  from reach_step(2) show ?case
  proof cases
    case (step_fetch pid)
    then show ?thesis using reach_step(3) by (cases "ss_cache s pid") (auto simp: Fetch_cached Fetch_new)
  next
    case (step_drop a)
    then show ?thesis using reach_step(3) by (cases "ss_objects s a") (auto simp: Process_delete_def)
  next
    case step_lock
    then show ?thesis
      using reach_step(3) by (auto simp: serve_lock_def weak_lock_def split: list.splits option.splits)
  next
    case (step_call g)
    then show ?thesis
      using reach_step(3) by (auto simp: serve_call_def ProcessInfoResolved_def split: list.splits option.splits)
  qed
qed

section \<open>Properties\<close>



text \<open>
  C29: Serving the requests ends with none left, and then every live process that was waiting has exactly
  the information that the thread table had for it and no process waits; nothing else has changed. When the
  inspector is cleaned up, the waiting processes are released without information.
\<close>

theorem requests_are_answered:
  assumes "store_reachable excl s" "ss_locked s = None"
  shows "ServePendingProcessRequests get_thread s =
      s\<lparr>ss_requests := [], ss_objects := (\<lambda>a. map_option (answered get_thread) (ss_objects s a))\<rparr> \<and>
    (\<forall>a p. ss_objects (ServePendingProcessRequests get_thread s) a = Some p \<longrightarrow> \<not> po_pending p) \<and>
    cancel_requests s = s\<lparr>ss_requests := [], ss_objects := (\<lambda>a. map_option (answered (\<lambda>_. None)) (ss_objects s a))\<rparr>"
proof -
  note e = serve_loop_eq [OF store_inv_reachable [OF assms(1)] assms(2)]
  have "\<not> po_pending (answered g p)" for g p by (simp add: answered_def resolved_def)
  then show ?thesis by (auto simp: ServePendingProcessRequests_def cancel_requests_def e)
qed

theorem requests_are_answered_witness:
  "ss_requests (ServePendingProcessRequests (\<lambda>_. None) (snd (Fetch 7 (ProcessStore_new True)))) = []"
  using requests_are_answered [of True "snd (Fetch 7 (ProcessStore_new True))" "\<lambda>_. None"]
    reach_step [OF reach_new step_fetch [of "ProcessStore_new True" 7 True]]
  by (simp add: ProcessStore_new_def Fetch_new)

text \<open>
  C31: Locking the callback does not keep its process alive: there is an interleaving in which the callback
  runs on a destroyed process. It needs a process that is dropped between the locking and the call; when
  nobody drops a process whose callback is locked, it never happens.
\<close>

theorem callback_outlives_process:
  "(\<exists>s. store_reachable False s \<and> ss_dangling s) \<and> (\<forall>s. store_reachable True s \<longrightarrow> \<not> ss_dangling s)"
proof -
  let ?s1 = "snd (Fetch 7 (ProcessStore_new True))"
  let ?s2 = "serve_lock ?s1"
  let ?s3 = "Process_delete 0 ?s2"
  have l: "ss_locked ?s1 = None" by (simp add: ProcessStore_new_def Fetch_new)
  have "store_reachable False ?s1" by (rule reach_step [OF reach_new step_fetch]) (simp add: ProcessStore_new_def)
  then have "store_reachable False ?s2" using step_lock [OF l] by (rule reach_step)
  then have "store_reachable False ?s3" by (rule reach_step) (rule step_drop, simp)
  then have "store_reachable False (serve_call (\<lambda>_. None) ?s3)" using step_call by (rule reach_step)
  moreover have "ss_dangling (serve_call (\<lambda>_. None) ?s3)"
    by (simp add: ProcessStore_new_def Fetch_new serve_lock_def weak_lock_def Process_delete_def serve_call_def
        ProcessInfoResolved_def)
  ultimately show ?thesis using locked_alive by blast
qed

theorem callback_outlives_process_witness:
  "\<not> ss_dangling (ProcessStore_new True)"
  using callback_outlives_process reach_new by blast

end
