(* ===== verification/NetworkSignals.thy ===== *)
theory NetworkSignals
  imports ProcessSignals ConnTrackerLaws
begin

text \<open>
  Events by name (\<open>EventNames.cpp\<close>, \<open>EventMap.h\<close>) and the handler of network events
  (\<open>NetworkSignalHandler.cpp\<close>), which feeds the connection tracker.

  The table of events and the table of system calls are libscap's: the names of the events by their
  codes, the test for events on entry, and the pairs of codes of the system calls are arguments. An
  exception of the collector is its message on the left of a sum.
\<close>

section \<open>Names of events\<close>

record EventNames =
  en_events_by_name :: "(string, nat list) umap"
  en_names_by_id :: "string list"
  en_syscall_by_id :: "u16 list"

text \<open>\<open>events_by_name_[name].push_back(id)\<close>\<close>

definition push_event :: "string \<Rightarrow> nat \<Rightarrow> (string, nat list) umap \<Rightarrow> (string, nat list) umap" where
  "push_event name i m =
     um_put (=) name ((case um_lookup (=) name m of None \<Rightarrow> [] | Some ids \<Rightarrow> ids) @ [i]) m"

definition add_event :: "string list \<Rightarrow> (nat \<Rightarrow> bool) \<Rightarrow> (string, nat list) umap \<Rightarrow> nat \<Rightarrow> (string, nat list) umap" where
  "add_event names is_enter m i =
     (let name = names ! i
      in push_event (name @ (if is_enter i then ''>'' else ''<'')) i (push_event name i m))"

fun syscall_loop :: "(nat \<times> nat) list \<Rightarrow> nat \<Rightarrow> u16 list \<Rightarrow> string + u16 list" where
  "syscall_loop [] i by_id = Inr by_id"
| "syscall_loop ((enter_evt, exit_evt) # rest) i by_id =
     (if enter_evt \<ge> length by_id then Inl (''Invalid syscall event id '' @ show_nat enter_evt)
      else if exit_evt \<ge> length by_id then Inl (''Invalid syscall event id '' @ show_nat exit_evt)
      else syscall_loop rest (Suc i) (by_id[enter_evt := of_nat i, exit_evt := of_nat i]))"

definition EventNames_new :: "string list \<Rightarrow> (nat \<Rightarrow> bool) \<Rightarrow> (nat \<times> nat) list \<Rightarrow> string + EventNames" where
  "EventNames_new names is_enter syscalls =
     res_bind (syscall_loop syscalls 0 (replicate (length names) 0)) (\<lambda>by_id.
       Inr \<lparr>en_events_by_name = foldl (add_event names is_enter) [] [0..<length names],
            en_names_by_id = names, en_syscall_by_id = by_id\<rparr>)"

definition GetEventIDs :: "EventNames \<Rightarrow> string \<Rightarrow> string + nat list" where
  "GetEventIDs en name =
     (case um_lookup (=) name (en_events_by_name en) of
        None \<Rightarrow> Inl (''Invalid event name '' @ [CHR 0x27] @ name @ [CHR 0x27])
      | Some ids \<Rightarrow> Inr ids)"

definition GetEventName :: "EventNames \<Rightarrow> nat \<Rightarrow> string + string" where
  "GetEventName en i =
     (if i \<ge> length (en_names_by_id en) then Inl (''Invalid event id '' @ show_nat i) else Inr (en_names_by_id en ! i))"

definition GetEventSyscallID :: "EventNames \<Rightarrow> nat \<Rightarrow> string + u16" where
  "GetEventSyscallID en i =
     (if i \<ge> length (en_syscall_by_id en) then Inl (''Invalid event id '' @ show_nat i) else Inr (en_syscall_by_id en ! i))"

section \<open>Maps by event\<close>

definition EventMap_Set :: "EventNames \<Rightarrow> string \<Rightarrow> 'v \<Rightarrow> 'v list \<Rightarrow> string + 'v list" where
  "EventMap_Set en name value values =
     res_bind (GetEventIDs en name) (\<lambda>ids. Inr (foldl (\<lambda>vs i. vs[i := value]) values ids))"

fun EventMap_init :: "EventNames \<Rightarrow> (string \<times> 'v) list \<Rightarrow> 'v list \<Rightarrow> string + 'v list" where
  "EventMap_init en [] values = Inr values"
| "EventMap_init en ((name, value) # rest) values =
     res_bind (EventMap_Set en name value values) (EventMap_init en rest)"

definition EventMap_at :: "'v list \<Rightarrow> nat \<Rightarrow> string + 'v" where
  "EventMap_at values i = (if i \<ge> length values then Inl (''Invalid event id '' @ show_nat i) else Inr (values ! i))"

section \<open>The handler\<close>

datatype Modifier = INVALID | ADD | REMOVE

definition modifier_entries :: "(string \<times> Modifier) list" where
  "modifier_entries =
     [(''close<'', REMOVE), (''shutdown<'', REMOVE), (''connect<'', ADD), (''accept<'', ADD), (''accept4<'', ADD),
      (''getsockopt<'', ADD), (''sendto<'', ADD), (''sendto>'', ADD), (''sendmsg<'', ADD), (''sendmsg>'', ADD),
      (''sendmmsg<'', ADD), (''recvfrom<'', ADD), (''recvfrom>'', ADD), (''recvmsg<'', ADD), (''recvmsg>'', ADD),
      (''recvmmsg<'', ADD), (''recvmmsg>'', ADD)]"

definition modifiers :: "EventNames \<Rightarrow> nat \<Rightarrow> string + Modifier list" where
  "modifiers en n = EventMap_init en modifier_entries (replicate n INVALID)"

text \<open>
  What the handler uses of an event and of its file descriptor. The codes of the events that send and
  receive are libscap's constants.
\<close>

datatype ScapL4 = SCAP_L4_TCP | SCAP_L4_UDP | SCAP_L4_other nat

datatype SockInfo =
    SCAP_FD_IPV4_SOCK (sip4: u32) (sport4: u16) (dip4: u32) (dport4: u16)
  | SCAP_FD_IPV6_SOCK (sip6: "u32 \<times> u32 \<times> u32 \<times> u32") (sport6: u16) (dip6: "u32 \<times> u32 \<times> u32 \<times> u32") (dport6: u16)
  | SCAP_FD_other

record FdInfo =
  fd_socket_failed :: bool
  fd_socket_pending :: bool
  fd_role_server :: bool
  fd_role_client :: bool
  fd_l4proto :: ScapL4
  fd_sockinfo :: SockInfo

record NetEvent =
  ne_event :: SinspEvent
  ne_type :: nat
  ne_fd :: "FdInfo option"
  ne_rawres :: "int option"
  ne_exe :: "string option"
  ne_server_port :: "u16 option"
  ne_client_port :: "u16 option"

datatype PpmSocket =
    SENDTO_E | SENDTO_X | RECV_E | RECV_X | RECVFROM_E | RECVFROM_X | SENDMSG_E | SENDMSG_X
  | SENDMMSG_E | SENDMMSG_X | RECVMSG_E | RECVMSG_X | RECVMMSG_E | RECVMMSG_X

definition send_recv_codes :: "PpmSocket list" where
  "send_recv_codes =
     [SENDTO_E, SENDTO_X, RECV_E, RECV_X, RECVFROM_E, RECVFROM_X, SENDMSG_E, SENDMSG_X, SENDMMSG_E, SENDMMSG_X,
      RECVMSG_E, RECVMSG_X, RECVMMSG_E, RECVMMSG_X]"

record NetworkSignalHandler =
  nh_collect_connection_status :: bool
  nh_track_send_recv :: bool

definition Address_of_m_b :: "u32 \<times> u32 \<times> u32 \<times> u32 \<Rightarrow> Address" where
  "Address_of_m_b m_b = (case m_b of (w0, w1, w2, w3) \<Rightarrow> Address_of_ipv6_u32 w0 w1 w2 w3)"

definition sock_endpoints :: "SockInfo \<Rightarrow> (Endpoint \<times> Endpoint) option" where
  "sock_endpoints s =
     (case s of
        SCAP_FD_IPV4_SOCK sip sport dip dport \<Rightarrow>
          Some (Endpoint_of_address (Address_of_ipv4 sip) sport, Endpoint_of_address (Address_of_ipv4 dip) dport)
      | SCAP_FD_IPV6_SOCK sip sport dip dport \<Rightarrow>
          Some (Endpoint_of_address (Address_of_m_b sip) sport, Endpoint_of_address (Address_of_m_b dip) dport)
      | SCAP_FD_other \<Rightarrow> None)"

definition GetConnection :: "(PpmSocket \<Rightarrow> nat) \<Rightarrow> NetworkSignalHandler \<Rightarrow> NetEvent \<Rightarrow> Connection option" where
  "GetConnection code h evt =
     (case ne_fd evt of
        None \<Rightarrow> None
      | Some fd_info \<Rightarrow>
          if nh_collect_connection_status h \<and> ne_type evt \<notin> set (map code send_recv_codes) \<and>
             (fd_socket_failed fd_info \<or> fd_socket_pending fd_info) then None
          else if (case ne_rawres evt of None \<Rightarrow> True | Some res \<Rightarrow> res < 0) then None
          else if \<not> fd_role_server fd_info \<and> \<not> fd_role_client fd_info then None
          else
            (case (case fd_l4proto fd_info of SCAP_L4_TCP \<Rightarrow> Some TCP | SCAP_L4_UDP \<Rightarrow> Some UDP | _ \<Rightarrow> None) of
               None \<Rightarrow> None
             | Some l4proto \<Rightarrow>
                 (case sock_endpoints (fd_sockinfo fd_info) of
                    None \<Rightarrow> None
                  | Some (client, server) \<Rightarrow>
                      (let is_server = fd_role_server fd_info;
                           local = if is_server then server else client;
                           remote = if is_server then client else server;
                           container_id = GetContainerID_event (Some (map_option ti_cgroups (ev_tinfo (ne_event evt))))
                       in if container_id = [] then None
                          else Some (Connection_mk container_id local remote l4proto is_server)))))"

definition NetworkHandleSignal ::
  "(PpmSocket \<Rightarrow> nat) \<Rightarrow> Modifier list \<Rightarrow> NetworkSignalHandler \<Rightarrow> NetEvent \<Rightarrow> ConnectionTracker \<times> CollectorStats \<Rightarrow>
     string + ((ConnectionTracker \<times> CollectorStats) \<times> SignalResult)" where
  "NetworkHandleSignal code mods h evt st =
     res_bind (EventMap_at mods (ne_type evt)) (\<lambda>modifier.
       if modifier = INVALID then Inr (st, IGNORED)
       else
         (case GetConnection code h evt of
            None \<Rightarrow> Inr (st, IGNORED)
          | Some conn \<Rightarrow>
              if \<not> IsRelevantConnection conn then Inr (st, IGNORED)
              else Inr (UpdateConnection conn (uint (ev_ts (ne_event evt) div 1000)) (modifier = ADD) st, PROCESSED)))"

definition GetRelevantEvents :: "NetworkSignalHandler \<Rightarrow> string list" where
  "GetRelevantEvents h =
     [''close<'', ''shutdown<'', ''connect<'', ''accept<'', ''accept4<'', ''getsockopt<''] @
     (if nh_track_send_recv h
      then [''sendto<'', ''sendto>'', ''sendmsg<'', ''sendmsg>'', ''sendmmsg<'', ''recvfrom<'', ''recvfrom>'',
            ''recvmsg<'', ''recvmsg>'', ''recvmmsg<'', ''recvmmsg>'', ''recvmsg<'', ''recvmsg>'']
      else [])"

section \<open>Codes by name\<close>

text \<open>The names under which an event is known: its own, and its own with the direction.\<close>

definition event_called :: "string list \<Rightarrow> (nat \<Rightarrow> bool) \<Rightarrow> nat \<Rightarrow> string \<Rightarrow> bool" where
  "event_called names is_enter i n \<longleftrightarrow>
     n = names ! i \<or> n = names ! i @ (if is_enter i then ''>'' else ''<'')"

lemma lookup_push_event:
  "um_lookup (=) n (push_event name i m) =
    (if n = name then Some ((case um_lookup (=) name m of None \<Rightarrow> [] | Some ids \<Rightarrow> ids) @ [i]) else um_lookup (=) n m)"
  by (simp add: push_event_def value_keys.lookup_put)

lemma lookup_add_event:
  "um_lookup (=) n (add_event names is_enter m i) =
    (if event_called names is_enter i n then Some ((case um_lookup (=) n m of None \<Rightarrow> [] | Some ids \<Rightarrow> ids) @ [i])
     else um_lookup (=) n m)"
  by (simp add: add_event_def lookup_push_event event_called_def Let_def)

lemma lookup_events:
  "um_lookup (=) n (foldl (add_event names is_enter) [] xs) =
    (if filter (\<lambda>i. event_called names is_enter i n) xs = [] then None
     else Some (filter (\<lambda>i. event_called names is_enter i n) xs))"
  by (induction xs rule: rev_induct) (auto simp: lookup_add_event)

lemma GetEventIDs_new:
  assumes "EventNames_new names is_enter syscalls = Inr en"
  shows "GetEventIDs en n = (if \<exists>i < length names. event_called names is_enter i n
      then Inr (filter (\<lambda>i. event_called names is_enter i n) [0..<length names])
      else Inl (''Invalid event name '' @ [CHR 0x27] @ n @ [CHR 0x27]))"
proof -
  have "en_events_by_name en = foldl (add_event names is_enter) [] [0..<length names]"
    using assms by (auto simp: EventNames_new_def res_bind_Inr_iff)
  then show ?thesis by (auto simp: GetEventIDs_def lookup_events filter_empty_conv)
qed

lemma foldl_set_values:
  "length (foldl (\<lambda>vs i. vs[i := value]) vs ids) = length vs"
  "k < length vs \<Longrightarrow> foldl (\<lambda>vs i. vs[i := value]) vs ids ! k = (if k \<in> set ids then value else vs ! k)"
  by (induction ids arbitrary: vs) (auto simp: nth_list_update)

lemma EventMap_init_values:
  assumes "EventNames_new names is_enter syscalls = Inr en"
    "\<forall>n \<in> set (map fst es). \<exists>i < length names. event_called names is_enter i n" "length vs = length names"
  shows "\<exists>vs'. EventMap_init en es vs = Inr vs' \<and> length vs' = length names \<and>
    (\<forall>k < length names. vs' ! k = foldl (\<lambda>v (n, w). if event_called names is_enter k n then w else v) (vs ! k) es)"
  using assms(2, 3)
proof (induction es arbitrary: vs)
  case (Cons e es)
  obtain n w where e: "e = (n, w)" by (cases e)
  let ?vs = "foldl (\<lambda>vs i. vs[i := w]) vs (filter (\<lambda>i. event_called names is_enter i n) [0..<length names])"
  have s: "EventMap_Set en n w vs = Inr ?vs"
    using Cons.prems(1) by (auto simp: EventMap_Set_def GetEventIDs_new [OF assms(1)] e)
  have k: "k < length names \<Longrightarrow> ?vs ! k = (if event_called names is_enter k n then w else vs ! k)" for k
    using Cons.prems(2) by (simp add: foldl_set_values)
  have "length ?vs = length names" using Cons.prems(2) by (simp add: foldl_set_values)
  then show ?case using Cons.IH [of ?vs] Cons.prems(1) by (simp add: e s k)
qed simp

lemma foldl_unique_entry:
  assumes "\<And>n w. (n, w) \<in> set es \<Longrightarrow> P n \<Longrightarrow> w = x"
  shows "foldl (\<lambda>v (n, w). if P n then w else v) v es = (if \<exists>n \<in> set (map fst es). P n then x else v)"
  using assms
proof (induction es rule: rev_induct)
  case (snoc e es)
  obtain n w where e: "e = (n, w)" by (cases e)
  have "foldl (\<lambda>v (n, w). if P n then w else v) v es = (if \<exists>n \<in> set (map fst es). P n then x else v)"
    by (rule snoc.IH) (rule snoc.prems, simp_all)
  then show ?case using snoc.prems [of n w] by (cases "P n") (simp_all add: e)
qed simp

text \<open>No name of the table is another one with one more letter, so an event has at most one of them.\<close>

lemma entry_names:
  assumes "n \<in> set (map fst modifier_entries)" "n' \<in> set (map fst modifier_entries)"
    "event_called names is_enter i n" "event_called names is_enter i n'"
  shows "n = n'"
proof -
  have d: "\<forall>a \<in> set (map fst modifier_entries). \<forall>b \<in> set (map fst modifier_entries). butlast a \<noteq> b"
    by (simp add: modifier_entries_def)
  have "butlast (m @ (if c then ''>'' else ''<'')) = m" for m c by simp
  then show ?thesis using assms d unfolding event_called_def by metis
qed

lemma entry_functional:
  "(n, w) \<in> set modifier_entries \<Longrightarrow> (n, w') \<in> set modifier_entries \<Longrightarrow> w = w'"
  by (rule eq_key_imp_eq_value [of modifier_entries]) (simp_all add: modifier_entries_def)

lemma modifier_entry_kinds:
  "(n, w) \<in> set modifier_entries \<Longrightarrow> w \<noteq> INVALID"
  "(n, REMOVE) \<in> set modifier_entries \<longleftrightarrow> n \<in> {''close<'', ''shutdown<''}"
  by (auto simp: modifier_entries_def)

lemma modifiers_entry:
  assumes "(n, w) \<in> set modifier_entries" "event_called names is_enter k n"
  shows "foldl (\<lambda>v (n, w). if event_called names is_enter k n then w else v) v modifier_entries = w"
proof -
  have "w' = w" if "(n', w') \<in> set modifier_entries" "event_called names is_enter k n'" for n' w'
  proof -
    have "n' \<in> set (map fst modifier_entries)" "n \<in> set (map fst modifier_entries)"
      using assms(1) that(1) by force+
    then have "n' = n" using that(2) assms(2) by (rule entry_names)
    then show ?thesis using entry_functional assms(1) that(1) by blast
  qed
  then have "foldl (\<lambda>v (n, w). if event_called names is_enter k n then w else v) v modifier_entries =
      (if \<exists>n \<in> set (map fst modifier_entries). event_called names is_enter k n then w else v)"
    by (rule foldl_unique_entry)
  moreover have "n \<in> set (map fst modifier_entries)" using assms(1) by force
  ultimately show ?thesis using assms(2) by auto
qed

lemma no_entry:
  assumes "\<forall>(n, w) \<in> set es. \<not> P n"
  shows "foldl (\<lambda>v (n, w). if P n then w else v) v es = v"
  using assms by (induction es) auto

section \<open>Runs of network events\<close>

fun network_run ::
  "(PpmSocket \<Rightarrow> nat) \<Rightarrow> Modifier list \<Rightarrow> NetworkSignalHandler \<Rightarrow> NetEvent list \<Rightarrow> ConnectionTracker \<times> CollectorStats \<Rightarrow>
     string + (ConnectionTracker \<times> CollectorStats)" where
  "network_run code mods h [] st = Inr st"
| "network_run code mods h (evt # evts) st =
     res_bind (NetworkHandleSignal code mods h evt st) (\<lambda>(st', r). network_run code mods h evts st')"

definition event_time :: "NetEvent \<Rightarrow> int" where
  "event_time evt = uint (ev_ts (ne_event evt) div 1000)"

text \<open>The connection and the status that an event reports.\<close>

definition reported ::
  "(PpmSocket \<Rightarrow> nat) \<Rightarrow> Modifier list \<Rightarrow> NetworkSignalHandler \<Rightarrow> NetEvent \<Rightarrow> (Connection \<times> ConnStatus) option" where
  "reported code mods h evt =
     (if mods ! ne_type evt = INVALID then None
      else case GetConnection code h evt of
             None \<Rightarrow> None
           | Some conn \<Rightarrow>
               if IsRelevantConnection conn then Some (conn, ConnStatus_mk (event_time evt) (mods ! ne_type evt = ADD))
               else None)"

lemma NetworkHandleSignal_eq:
  assumes "ne_type evt < length mods"
  shows "NetworkHandleSignal code mods h evt st =
    Inr (case reported code mods h evt of
           None \<Rightarrow> (st, IGNORED)
         | Some (conn, status) \<Rightarrow> (EmplaceOrUpdateConnection conn status st, PROCESSED))"
  using assms
  by (cases "GetConnection code h evt")
     (simp_all add: NetworkHandleSignal_def EventMap_at_def reported_def UpdateConnection_def event_time_def)

lemma event_time_LastActiveTime: "LastActiveTime (ConnStatus_mk (event_time evt) a) = event_time evt"
proof (rule LastActiveTime_mk)
  show "0 \<le> event_time evt" by (simp add: event_time_def)
  have "uint (ev_ts (ne_event evt)) < 2 ^ 64" using uint_lt2p [of "ev_ts (ne_event evt)"] by simp
  then show "event_time evt < 2 ^ 63" by (simp add: event_time_def uint_div)
qed

lemma GetConnection_raw: "GetConnection code h evt = Some c \<Longrightarrow> c \<in> raw_conns"
  by (auto simp: GetConnection_def sock_endpoints_def Connection_mk_def Endpoint_of_address_def IPNet_of_address_def
      conn_carrier_def net_carrier_def Let_def split: option.splits if_splits ScapL4.splits SockInfo.splits)

lemma reported_SomeD:
  assumes "reported code mods h evt = Some (c, s)"
  shows "GetConnection code h evt = Some c" "s = ConnStatus_mk (event_time evt) (mods ! ne_type evt = ADD)"
  using assms by (auto simp: reported_def split: if_splits option.splits)

text \<open>The status of a connection that an event reports.\<close>

definition status_of ::
  "(PpmSocket \<Rightarrow> nat) \<Rightarrow> Modifier list \<Rightarrow> NetworkSignalHandler \<Rightarrow> Connection \<Rightarrow> NetEvent \<Rightarrow> ConnStatus option" where
  "status_of code mods h x evt =
     (case reported code mods h evt of
        None \<Rightarrow> None
      | Some (conn, status) \<Rightarrow> if Connection_eq x conn then Some status else None)"

definition later_of :: "ConnStatus option \<Rightarrow> ConnStatus option \<Rightarrow> ConnStatus option" where
  "later_of v s = (case s of None \<Rightarrow> v | Some status \<Rightarrow> later_status status v)"

lemma network_run_state:
  assumes "tracker_inv (fst st)" "\<forall>e \<in> set evts. ne_type e < length mods"
  shows "\<exists>st'. network_run code mods h evts st = Inr st' \<and> tracker_inv (fst st') \<and>
    (\<forall>x \<in> raw_conns. um_lookup Connection_eq x (conn_state (fst st')) =
       foldl later_of (um_lookup Connection_eq x (conn_state (fst st))) (map (status_of code mods h x) evts))"
  using assms
proof (induction evts arbitrary: st)
  case (Cons e evts)
  note eq = NetworkHandleSignal_eq [of e mods code h st]
  show ?case
  proof (cases "reported code mods h e")
    case None
    then show ?thesis using Cons eq by (simp add: status_of_def later_of_def)
  next
    case (Some cs)
    obtain c s where cs: "reported code mods h e = Some (c, s)" using Some by (cases cs) simp
    let ?st = "EmplaceOrUpdateConnection c s st"
    have c: "c \<in> raw_conns" using GetConnection_raw reported_SomeD(1) [OF cs] .
    have "tracker_inv (fst ?st)" using tracker_inv_emplace_conn [OF Cons.prems(1) c] .
    then obtain st' where st': "network_run code mods h evts ?st = Inr st'" "tracker_inv (fst st')"
      "\<forall>x \<in> raw_conns. um_lookup Connection_eq x (conn_state (fst st')) =
         foldl later_of (um_lookup Connection_eq x (conn_state (fst ?st))) (map (status_of code mods h x) evts)"
      using Cons.IH [of ?st] Cons.prems(2) by auto
    have "um_lookup Connection_eq x (conn_state (fst ?st)) =
        later_of (um_lookup Connection_eq x (conn_state (fst st))) (status_of code mods h x e)" if "x \<in> raw_conns" for x
      using conn_keys.emplace_laws [of c "\<lambda>_. True" "\<lambda>_. True" "conn_state (fst st)" s] Cons.prems(1) c that
      by (simp add: EmplaceOrUpdateConnection_state status_of_def later_of_def cs tracker_inv_def)
    then show ?thesis using st' Cons.prems(2) eq cs by simp
  qed
qed simp

lemma later_of_keeps:
  assumes "\<forall>s' \<in> set ss. \<forall>t. s' = Some t \<longrightarrow> LastActiveTime t < LastActiveTime s"
  shows "foldl later_of (Some s) ss = Some s"
  using assms by (induction ss) (auto simp: later_of_def later_status_def split: option.splits)

lemma later_of_below:
  assumes "\<forall>s' \<in> set ss. \<forall>t. s' = Some t \<longrightarrow> LastActiveTime t < m" "\<forall>t. v = Some t \<longrightarrow> LastActiveTime t < m"
  shows "\<forall>t. foldl later_of v ss = Some t \<longrightarrow> LastActiveTime t < m"
  using assms
proof (induction ss arbitrary: v)
  case (Cons a ss)
  have "\<forall>t. later_of v a = Some t \<longrightarrow> LastActiveTime t < m"
    using Cons.prems by (cases a; cases v) (simp_all add: later_of_def later_status_def)
  then show ?case using Cons.IH [of "later_of v a"] Cons.prems(1) by simp
qed simp

lemma later_of_decides:
  assumes "\<forall>s' \<in> set (ss @ ss'). \<forall>t. s' = Some t \<longrightarrow> LastActiveTime t < LastActiveTime s"
  shows "foldl later_of None (ss @ Some s # ss') = Some s"
proof -
  have "\<forall>t. foldl later_of None ss = Some t \<longrightarrow> LastActiveTime t < LastActiveTime s"
    using later_of_below [of ss "LastActiveTime s" None] assms by auto
  then have "later_of (foldl later_of None ss) (Some s) = Some s"
    by (cases "foldl later_of None ss") (simp_all add: later_of_def later_status_def)
  then show ?thesis using later_of_keeps [of ss' s] assms by auto
qed

section \<open>Properties\<close>

text \<open>
  C33: When libscap knows the names that the handler lists, its table of modifiers is built without an
  exception, and every event it asked for has a modifier: the events that close or shut down a connection
  remove it, all the others add it. Events with other names have none.
\<close>

theorem network_modifiers:
  assumes "EventNames_new names is_enter syscalls = Inr en"
    "\<forall>n \<in> set (map fst modifier_entries). \<exists>i < length names. event_called names is_enter i n"
  shows "\<exists>mods. modifiers en (length names) = Inr mods \<and> length mods = length names \<and>
    (\<forall>i < length names. mods ! i = INVALID \<longleftrightarrow> (\<forall>n \<in> set (map fst modifier_entries). \<not> event_called names is_enter i n)) \<and>
    (\<forall>i < length names. mods ! i = REMOVE \<longleftrightarrow> (\<exists>n \<in> {''close<'', ''shutdown<''}. event_called names is_enter i n)) \<and>
    (\<forall>n \<in> set (GetRelevantEvents h). \<exists>ids. GetEventIDs en n = Inr ids \<and> ids \<noteq> [] \<and> (\<forall>i \<in> set ids. mods ! i \<noteq> INVALID))"
proof -
  let ?P = "event_called names is_enter"
  obtain mods where m: "modifiers en (length names) = Inr mods" "length mods = length names"
    and v: "\<And>k. k < length names \<Longrightarrow> mods ! k = foldl (\<lambda>v (n, w). if ?P k n then w else v) INVALID modifier_entries"
    using EventMap_init_values [OF assms, of "replicate (length names) INVALID"] by (auto simp: modifiers_def)
  have w: "mods ! k = w" if "k < length names" "(n, w) \<in> set modifier_entries" "?P k n" for k n w
    using v [OF that(1)] modifiers_entry [OF that(2, 3)] by simp
  have none: "mods ! k = INVALID" if "k < length names" "\<forall>n \<in> set (map fst modifier_entries). \<not> ?P k n" for k
    using v [OF that(1)] no_entry [of modifier_entries "?P k" INVALID] that(2) by fastforce
  note valid = modifier_entry_kinds(1) and rem = modifier_entry_kinds(2)
  have i: "mods ! k = INVALID \<longleftrightarrow> (\<forall>n \<in> set (map fst modifier_entries). \<not> ?P k n)" if "k < length names" for k
    using none [OF that] w [OF that] valid by fastforce
  have r: "mods ! k = REMOVE \<longleftrightarrow> (\<exists>n \<in> {''close<'', ''shutdown<''}. ?P k n)" if k: "k < length names" for k
  proof
    assume "mods ! k = REMOVE"
    then obtain n x where n: "(n, x) \<in> set modifier_entries" "?P k n" using none [OF k] by fastforce
    have "x = REMOVE" using w [OF k n] \<open>mods ! k = REMOVE\<close> by simp
    then have "n \<in> {''close<'', ''shutdown<''}" using n(1) rem [of n] by simp
    then show "\<exists>n \<in> {''close<'', ''shutdown<''}. ?P k n" using n(2) by (rule bexI [rotated])
  next
    assume "\<exists>n \<in> {''close<'', ''shutdown<''}. ?P k n"
    then obtain n where n: "n \<in> {''close<'', ''shutdown<''}" "?P k n" ..
    then have "(n, REMOVE) \<in> set modifier_entries" using rem [of n] by simp
    then show "mods ! k = REMOVE" using n(2) by (rule w [OF k])
  qed
  have sub: "set (GetRelevantEvents h) \<subseteq> set (map fst modifier_entries)"
    by (cases "nh_track_send_recv h") (simp_all add: GetRelevantEvents_def modifier_entries_def)
  have "\<exists>ids. GetEventIDs en n = Inr ids \<and> ids \<noteq> [] \<and> (\<forall>i \<in> set ids. mods ! i \<noteq> INVALID)"
    if "n \<in> set (GetRelevantEvents h)" for n
  proof -
    have n: "n \<in> set (map fst modifier_entries)" using that sub by blast
    then have "\<exists>i < length names. ?P i n" using assms(2) by blast
    then show ?thesis using i n by (auto simp: GetEventIDs_new [OF assms(1)] filter_empty_conv)
  qed
  then show ?thesis using m i r by blast
qed

text \<open>
  C32: Of all the network events that report a connection which the tracker does not have, the latest one
  decides, in whatever order the events arrive: the connection is active when that event added it and
  inactive when it removed it, with the time of that event. No event raises an exception.
\<close>

theorem latest_event_decides:
  assumes "tracker_inv (fst st)" "\<forall>e \<in> set (before @ evt # after). ne_type e < length mods"
    "GetConnection code h evt = Some c" "IsRelevantConnection c" "mods ! ne_type evt \<noteq> INVALID"
    "um_lookup Connection_eq c (conn_state (fst st)) = None"
    "\<forall>e \<in> set (before @ after). \<forall>c'. GetConnection code h e = Some c' \<longrightarrow> Connection_eq c c' \<longrightarrow> event_time e < event_time evt"
  shows "\<exists>st' s. network_run code mods h (before @ evt # after) st = Inr st' \<and>
    um_lookup Connection_eq c (conn_state (fst st')) = Some s \<and>
    IsActive s = (mods ! ne_type evt = ADD) \<and> LastActiveTime s = event_time evt"
proof -
  let ?s = "ConnStatus_mk (event_time evt) (mods ! ne_type evt = ADD)"
  let ?f = "status_of code mods h c"
  have evt: "?f evt = Some ?s" using assms(3-5) by (simp add: status_of_def reported_def)
  have "LastActiveTime t < LastActiveTime ?s" if e: "e \<in> set (before @ after)" and t: "?f e = Some t" for e t
  proof -
    obtain c' where c': "reported code mods h e = Some (c', t)" "Connection_eq c c'"
      using t by (auto simp: status_of_def split: option.splits if_splits)
    then have "event_time e < event_time evt" using reported_SomeD(1) [OF c'(1)] assms(7) e by blast
    then show ?thesis using reported_SomeD(2) [OF c'(1)] by (simp add: event_time_LastActiveTime)
  qed
  then have "\<forall>s' \<in> set (map ?f before @ map ?f after). \<forall>t. s' = Some t \<longrightarrow> LastActiveTime t < LastActiveTime ?s"
    by fastforce
  then have "foldl later_of None (map ?f before @ Some ?s # map ?f after) = Some ?s" by (rule later_of_decides)
  then have f: "foldl later_of None (map ?f (before @ evt # after)) = Some ?s" by (simp add: evt)
  obtain st' where st': "network_run code mods h (before @ evt # after) st = Inr st'"
    "\<forall>x \<in> raw_conns. um_lookup Connection_eq x (conn_state (fst st')) =
       foldl later_of (um_lookup Connection_eq x (conn_state (fst st))) (map (status_of code mods h x) (before @ evt # after))"
    using network_run_state [OF assms(1, 2)] by blast
  have "um_lookup Connection_eq c (conn_state (fst st')) = Some ?s"
    using st'(2) GetConnection_raw [OF assms(3)] f assms(6) by simp
  then show ?thesis using st'(1) by (simp add: event_time_LastActiveTime)
qed

definition example_names :: "string list" where
  "example_names =
     [''close'', ''shutdown'', ''connect'', ''accept'', ''accept4'', ''getsockopt'', ''sendto'', ''sendmsg'', ''sendmmsg'',
      ''recvfrom'', ''recvmsg'', ''recvmmsg'', ''sendto'', ''sendmsg'', ''recvfrom'', ''recvmsg'', ''recvmmsg'']"

definition example_enter :: "nat \<Rightarrow> bool" where
  "example_enter i \<longleftrightarrow> 12 \<le> i"

theorem network_modifiers_witness:
  "\<exists>mods. modifiers \<lparr>en_events_by_name = foldl (add_event example_names example_enter) [] [0..<17],
       en_names_by_id = example_names, en_syscall_by_id = replicate 17 0\<rparr> 17 = Inr mods \<and> mods ! 0 = REMOVE"
proof -
  let ?en = "\<lparr>en_events_by_name = foldl (add_event example_names example_enter) [] [0..<17],
    en_names_by_id = example_names, en_syscall_by_id = replicate 17 0\<rparr>"
  have l: "length example_names = 17" by (simp add: example_names_def)
  have c: "event_called example_names example_enter 0 ''close<''"
    by (simp add: event_called_def example_names_def example_enter_def)
  have a: "EventNames_new example_names example_enter [] = Inr ?en" by (simp add: EventNames_new_def l)
  have b: "\<forall>n \<in> set (map fst modifier_entries). \<exists>i < length example_names. event_called example_names example_enter i n"
    by code_simp
  obtain mods where "modifiers ?en (length example_names) = Inr mods"
    "\<forall>i < length example_names. mods ! i = REMOVE \<longleftrightarrow> (\<exists>n \<in> {''close<'', ''shutdown<''}. event_called example_names example_enter i n)"
    using network_modifiers [OF a b, of "\<lparr>nh_collect_connection_status = True, nh_track_send_recv = True\<rparr>"]
    by (elim exE conjE) (rule that)
  then show ?thesis using c by (simp add: l)
qed

definition example_event :: "nat \<Rightarrow> u64 \<Rightarrow> NetEvent" where
  "example_event type ts =
     \<lparr>ne_event = \<lparr>ev_name = [], ev_comm = None, ev_exepath = None, ev_args = None, ev_pid = None, ev_uid = None,
        ev_gid = None, ev_ts = ts,
        ev_tinfo = Some (example_thread\<lparr>ti_cgroups := [(''memory'', ''/docker/'' @ replicate 64 CHR ''a'')]\<rparr>)\<rparr>,
      ne_type = type,
      ne_fd = Some \<lparr>fd_socket_failed = False, fd_socket_pending = False, fd_role_server = False, fd_role_client = True,
        fd_l4proto = SCAP_L4_TCP, fd_sockinfo = SCAP_FD_IPV4_SOCK 0 40000 0 80\<rparr>,
      ne_rawres = Some 0, ne_exe = None, ne_server_port = Some 80, ne_client_port = Some 40000\<rparr>"

definition example_reported :: Connection where
  "example_reported = Connection_mk (replicate 12 CHR ''a'') (Endpoint_of_address (Address_of_ipv4 0) 40000)
     (Endpoint_of_address (Address_of_ipv4 0) 80) TCP False"

lemma example_event_connection:
  "GetConnection code \<lparr>nh_collect_connection_status = True, nh_track_send_recv = False\<rparr> (example_event type ts) =
    Some example_reported"
proof -
  have "ExtractContainerIDFromCgroup (''/docker/'' @ replicate 64 CHR ''a'') = Some (replicate 12 CHR ''a'')"
    by code_simp
  then show ?thesis
    by (simp add: GetConnection_def example_event_def sock_endpoints_def GetContainerID_event_def example_reported_def)
qed

theorem latest_event_decides_witness:
  "\<exists>st' s. network_run (\<lambda>_. 7) [ADD, REMOVE] \<lparr>nh_collect_connection_status = True, nh_track_send_recv = False\<rparr>
      [example_event 1 5000, example_event 0 3000] (ConnectionTracker_new, CollectorStats_new) = Inr st' \<and>
    um_lookup Connection_eq example_reported (conn_state (fst st')) = Some s \<and> \<not> IsActive s \<and> LastActiveTime s = 5"
proof -
  let ?h = "\<lparr>nh_collect_connection_status = True, nh_track_send_recv = False\<rparr>"
  have "IsRelevantConnection example_reported"
    by (simp add: IsRelevantConnection_def example_reported_def Connection_mk_def Endpoint_of_address_def
        Endpoint_address_def IPNet_of_address_def Address_IsLocal_def Address_of_ipv4_def byte_order
        ntohl_def bswap32_def)
  moreover have "um_lookup Connection_eq example_reported (conn_state ConnectionTracker_new) = None"
    by (simp add: ConnectionTracker_new_def)
  moreover have "event_time (example_event type ts) = uint (ts div 1000)" "ne_type (example_event type ts) = type" for type ts
    by (simp_all add: event_time_def example_event_def)
  ultimately show ?thesis
    using latest_event_decides [of "(ConnectionTracker_new, CollectorStats_new)" "[]" "example_event 1 5000"
        "[example_event 0 3000]" "[ADD, REMOVE]" "\<lambda>_. 7" ?h example_reported]
    by (simp add: tracker_inv_new example_event_connection)
qed

end
