(* ===== verification/Inspector.thy ===== *)
theory Inspector
  imports NetworkSignals ProcessStore
begin

text \<open>
  The inspector service (\<open>system-inspector/Service.cpp\<close>) and the handlers that check the collector itself
  (\<open>SelfCheckHandler.cpp\<close>).

  A handler is one of the four classes. The inspector of libsinsp is its thread table and the results of
  its \<open>next\<close>. What changes between calls, the clocks and the answers of the client, is an environment for
  each call: \<open>calls n\<close> is the environment of the n-th call of a handler.
\<close>

section \<open>Self checks\<close>

record SelfCheckHandler =
  sh_start :: int
  sh_timeout :: int

definition isSelfCheckEvent :: "NetEvent \<Rightarrow> bool" where
  "isSelfCheckEvent evt =
     (case (ev_comm (ne_event evt), ne_exe evt) of
        (Some name, Some exe) \<Rightarrow> name = ''self-checks'' \<and> exe = ''/usr/local/bin/self-checks''
      | _ \<Rightarrow> False)"

definition hasTimedOut :: "int \<Rightarrow> SelfCheckHandler \<Rightarrow> bool" where
  "hasTimedOut now h = (now > sh_start h + sh_timeout h)"

definition SelfCheckProcess_HandleSignal :: "int \<Rightarrow> NetEvent \<Rightarrow> SelfCheckHandler \<Rightarrow> SignalResult" where
  "SelfCheckProcess_HandleSignal now evt h =
     (if hasTimedOut now h then FINISHED
      else if isSelfCheckEvent evt then FINISHED
      else IGNORED)"

definition SelfCheckNetwork_HandleSignal :: "int \<Rightarrow> NetEvent \<Rightarrow> SelfCheckHandler \<Rightarrow> SignalResult" where
  "SelfCheckNetwork_HandleSignal now evt h =
     (if hasTimedOut now h then FINISHED
      else if \<not> isSelfCheckEvent evt then IGNORED
      else
        (case (ne_server_port evt, ne_client_port evt) of
           (Some server_port, Some client_port) \<Rightarrow>
             if server_port = 13037 \<and> client_port \<noteq> -1 then FINISHED else IGNORED
         | _ \<Rightarrow> IGNORED))"

section \<open>Handlers\<close>

datatype 'c SigHandler =
    SelfCheckProcessHandler SelfCheckHandler
  | SelfCheckNetworkHandler SelfCheckHandler
  | ProcessHandler "'c ProcessSignalHandler"
  | NetworkHandler NetworkSignalHandler "ConnectionTracker \<times> CollectorStats"

datatype inspect_fault = Null_dereference | Collector_exception string | Fatal string

record ('t, 'c) CallEnv =
  ce_now :: int
  ce_clock :: Clock
  ce_push :: "'t ProcessSignal \<Rightarrow> 'c \<Rightarrow> ('c \<times> SignalResult) option"

record 't InspectEnv =
  ie_format :: "'t FormatEnv"
  ie_code :: "PpmSocket \<Rightarrow> nat"
  ie_modifiers :: "Modifier list"

definition of_option :: "'a option \<Rightarrow> inspect_fault + 'a" where
  "of_option x = (case x of None \<Rightarrow> Inl Null_dereference | Some v \<Rightarrow> Inr v)"

definition of_exception :: "string + 'a \<Rightarrow> inspect_fault + 'a" where
  "of_exception x = (case x of Inl m \<Rightarrow> Inl (Collector_exception m) | Inr v \<Rightarrow> Inr v)"

definition handle_signal ::
  "'t InspectEnv \<Rightarrow> ('t, 'c) CallEnv \<Rightarrow> NetEvent \<Rightarrow> 'c SigHandler \<Rightarrow> inspect_fault + ('c SigHandler \<times> SignalResult)" where
  "handle_signal env call evt handler =
     (case handler of
        SelfCheckProcessHandler h \<Rightarrow> Inr (handler, SelfCheckProcess_HandleSignal (ce_now call) evt h)
      | SelfCheckNetworkHandler h \<Rightarrow> Inr (handler, SelfCheckNetwork_HandleSignal (ce_now call) evt h)
      | ProcessHandler h \<Rightarrow>
          res_bind (of_option (HandleSignal (ie_format env) (ce_push call) (ce_clock call) (ne_event evt) h))
            (\<lambda>(h', r). Inr (ProcessHandler h', r))
      | NetworkHandler h st \<Rightarrow>
          res_bind (of_exception (NetworkHandleSignal (ie_code env) (ie_modifiers env) h evt st))
            (\<lambda>(st', r). Inr (NetworkHandler h st', r)))"

definition handle_existing ::
  "'t InspectEnv \<Rightarrow> ('t, 'c) CallEnv \<Rightarrow> ThreadInfo \<Rightarrow> 'c SigHandler \<Rightarrow> inspect_fault + ('c SigHandler \<times> SignalResult)" where
  "handle_existing env call tinfo handler =
     (case handler of
        ProcessHandler h \<Rightarrow>
          res_bind (of_option (HandleExistingProcess (ie_format env) (ce_push call) (ce_clock call) (Some tinfo) h))
            (\<lambda>(h', r). Inr (ProcessHandler h', r))
      | _ \<Rightarrow> Inr (handler, IGNORED))"

section \<open>The service\<close>

record Sinsp =
  si_threads :: "ThreadInfo list option"
  si_get_thread :: "u64 \<Rightarrow> ThreadInfo option"

record 'c Service =
  sv_inspector :: "Sinsp option"
  sv_handlers :: "('c SigHandler \<times> (nat \<Rightarrow> bool)) list"
  sv_nUserspaceEvents :: "nat \<Rightarrow> u64"
  sv_nFilteredEvents :: "nat \<Rightarrow> u64"
  sv_event_parse_micros :: "nat \<Rightarrow> u64"
  sv_event_process_micros :: "nat \<Rightarrow> u64"
  sv_global_event_filter :: "nat \<Rightarrow> bool"
  sv_running :: bool
  sv_collector_stats :: CollectorStats
  sv_store :: StoreState

definition FilterEvent :: "ThreadInfo option \<Rightarrow> bool" where
  "FilterEvent ptr =
     (case ptr of
        None \<Rightarrow> False
      | Some tinfo \<Rightarrow>
          if GetContainerID (ti_cgroups tinfo) = [] then False
          else
            (let exepath = (case rfind_str '':'' (ti_exepath tinfo) of
                              None \<Rightarrow> ti_exepath tinfo
                            | Some marker \<Rightarrow> drop (marker + 1) (ti_exepath tinfo))
             in \<not> is_prefix ''/proc/self'' exepath))"

text \<open>The outcome of \<open>next\<close>: whether it succeeded, the event, and whether it is an internal one.\<close>

record NextResult =
  nr_success :: bool
  nr_event :: "NetEvent option"
  nr_internal :: bool

definition GetNext :: "bool \<Rightarrow> NextResult \<Rightarrow> u64 \<Rightarrow> 'c Service \<Rightarrow> NetEvent option \<times> 'c Service" where
  "GetNext is_rhel76 res parse_micros s =
     (if \<not> nr_success res then (None, s)
      else
        (case nr_event res of
           None \<Rightarrow> (None, s)
         | Some event \<Rightarrow>
             if nr_internal res then (None, s)
             else if is_rhel76 \<and> \<not> sv_global_event_filter s (ne_type event) then (None, s)
             else
               (let t = ne_type event;
                    s1 = s\<lparr>sv_event_parse_micros := (sv_event_parse_micros s)(t := sv_event_parse_micros s t + parse_micros),
                           sv_nUserspaceEvents := (sv_nUserspaceEvents s)(t := sv_nUserspaceEvents s t + 1)\<rparr>
                in if \<not> FilterEvent (ev_tinfo (ne_event event)) then (None, s1)
                   else (Some event, s1\<lparr>sv_nFilteredEvents := (sv_nFilteredEvents s1)(t := sv_nFilteredEvents s1 t + 1)\<rparr>))))"

definition LogUnreasonableEventTime :: "int \<Rightarrow> NetEvent \<Rightarrow> CollectorStats \<Rightarrow> CollectorStats" where
  "LogUnreasonableEventTime time_micros evt stats =
     (let time_diff = time_micros - event_time evt;
          stats1 = if time_diff > 3600000000 then COUNTER_INC event_timestamp_distant_past stats else stats
      in if time_diff < - 5000000 then COUNTER_INC event_timestamp_future stats1 else stats1)"

fun existing_loop ::
  "'t InspectEnv \<Rightarrow> (nat \<Rightarrow> ('t, 'c) CallEnv) \<Rightarrow> nat \<Rightarrow> ThreadInfo list \<Rightarrow> 'c SigHandler \<Rightarrow>
     inspect_fault + (bool \<times> 'c SigHandler \<times> nat)" where
  "existing_loop env calls n [] handler = Inr (True, handler, n)"
| "existing_loop env calls n (tinfo # rest) handler =
     (if GetContainerID (ti_cgroups tinfo) \<noteq> [] \<and> ti_is_main tinfo then
        res_bind (handle_existing env (calls n) tinfo handler) (\<lambda>(handler', result).
          if result = ERROR \<or> result = NEEDS_REFRESH then Inr (False, handler', Suc n)
          else existing_loop env calls (Suc n) rest handler')
      else existing_loop env calls n rest handler)"

definition SendExistingProcesses ::
  "'t InspectEnv \<Rightarrow> (nat \<Rightarrow> ('t, 'c) CallEnv) \<Rightarrow> nat \<Rightarrow> Sinsp option \<Rightarrow> 'c SigHandler \<Rightarrow>
     inspect_fault + (bool \<times> 'c SigHandler \<times> nat)" where
  "SendExistingProcesses env calls n inspector handler =
     (case inspector of
        None \<Rightarrow> Inl (Collector_exception ''Invalid state: system inspector was not initialized'')
      | Some i \<Rightarrow>
          (case si_threads i of
             None \<Rightarrow> Inr (False, handler, n)
           | Some threads \<Rightarrow> existing_loop env calls n threads handler))"

text \<open>
  One event for the handlers, in their order. A handler that needs a refresh gets the existing processes
  and then the event again. A handler that has finished is erased, and that ends the iteration.
\<close>

fun dispatch ::
  "'t InspectEnv \<Rightarrow> (nat \<Rightarrow> ('t, 'c) CallEnv) \<Rightarrow> Sinsp option \<Rightarrow> int \<Rightarrow> NetEvent \<Rightarrow> nat \<Rightarrow> CollectorStats \<Rightarrow>
     ('c SigHandler \<times> (nat \<Rightarrow> bool)) list \<Rightarrow> inspect_fault + (CollectorStats \<times> ('c SigHandler \<times> (nat \<Rightarrow> bool)) list)" where
  "dispatch env calls inspector process_start evt n stats [] = Inr (stats, [])"
| "dispatch env calls inspector process_start evt n stats ((handler, event_filter) # rest) =
     (if \<not> event_filter (ne_type evt) then
        res_bind (dispatch env calls inspector process_start evt n stats rest)
          (\<lambda>(stats', rest'). Inr (stats', (handler, event_filter) # rest'))
      else
        (let stats1 = LogUnreasonableEventTime process_start evt stats
         in res_bind (handle_signal env (calls n) evt handler) (\<lambda>(handler1, result).
              if result = NEEDS_REFRESH then
                res_bind (SendExistingProcesses env calls (Suc n) inspector handler1) (\<lambda>(sent, handler2, n2).
                  if \<not> sent then
                    res_bind (dispatch env calls inspector process_start evt n2 stats1 rest)
                      (\<lambda>(stats', rest'). Inr (stats', (handler2, event_filter) # rest'))
                  else
                    res_bind (handle_signal env (calls n2) evt handler2) (\<lambda>(handler3, _).
                      res_bind (dispatch env calls inspector process_start evt (Suc n2) stats1 rest)
                        (\<lambda>(stats', rest'). Inr (stats', (handler3, event_filter) # rest'))))
              else if result = FINISHED then Inr (stats1, rest)
              else
                res_bind (dispatch env calls inspector process_start evt (Suc n) stats1 rest)
                  (\<lambda>(stats', rest'). Inr (stats', (handler1, event_filter) # rest')))))"

text \<open>What an iteration of the main loop gets from outside.\<close>

record ('t, 'c) RunInput =
  ri_next :: NextResult
  ri_parse_micros :: u64
  ri_process_start :: int
  ri_process_micros :: u64
  ri_calls :: "nat \<Rightarrow> ('t, 'c) CallEnv"

definition Run_iteration ::
  "'t InspectEnv \<Rightarrow> bool \<Rightarrow> ('t, 'c) RunInput \<Rightarrow> 'c Service \<Rightarrow> inspect_fault + 'c Service" where
  "Run_iteration env is_rhel76 input s =
     (case sv_inspector s of
        None \<Rightarrow> Inl Null_dereference
      | Some i \<Rightarrow>
          (let s1 = s\<lparr>sv_store := ServePendingProcessRequests (si_get_thread i) (sv_store s)\<rparr>;
               (evt, s2) = GetNext is_rhel76 (ri_next input) (ri_parse_micros input) s1
           in case evt of
                None \<Rightarrow> Inr s2
              | Some event \<Rightarrow>
                  res_bind (dispatch env (ri_calls input) (sv_inspector s2) (ri_process_start input) event 0
                              (sv_collector_stats s2) (sv_handlers s2)) (\<lambda>(stats, handlers).
                    Inr (s2\<lparr>sv_collector_stats := stats, sv_handlers := handlers,
                            sv_event_process_micros := (sv_event_process_micros s2)
                              (ne_type event := sv_event_process_micros s2 (ne_type event) + ri_process_micros input)\<rparr>))))"

fun Run_loop ::
  "'t InspectEnv \<Rightarrow> bool \<Rightarrow> ('t, 'c) RunInput list \<Rightarrow> 'c Service \<Rightarrow> inspect_fault + 'c Service" where
  "Run_loop env is_rhel76 [] s = Inr s"
| "Run_loop env is_rhel76 (input # inputs) s =
     res_bind (Run_iteration env is_rhel76 input s) (Run_loop env is_rhel76 inputs)"

text \<open>The inputs are those of the iterations before the control value says stop.\<close>

definition Run :: "'t InspectEnv \<Rightarrow> bool \<Rightarrow> ('t, 'c) RunInput list \<Rightarrow> 'c Service \<Rightarrow> inspect_fault + 'c Service" where
  "Run env is_rhel76 inputs s =
     (if sv_inspector s = None then Inl (Collector_exception ''Invalid state: system inspector was not initialized'')
      else Run_loop env is_rhel76 inputs s)"

text \<open>Starting and stopping a handler only concerns the client of the process handler.\<close>

definition handler_start :: "('c \<Rightarrow> 'c) \<Rightarrow> 'c SigHandler \<Rightarrow> 'c SigHandler" where
  "handler_start start_client handler =
     (case handler of
        ProcessHandler h \<Rightarrow> ProcessHandler (h\<lparr>ph_client := start_client (ph_client h)\<rparr>)
      | _ \<Rightarrow> handler)"

definition Service_Start :: "('c \<Rightarrow> 'c) \<Rightarrow> 'c Service \<Rightarrow> inspect_fault + 'c Service" where
  "Service_Start start_client s =
     (if sv_inspector s = None then Inl (Collector_exception ''Invalid state: system inspector was not initialized'')
      else Inr (s\<lparr>sv_handlers := map (\<lambda>(h, f). (handler_start start_client h, f)) (sv_handlers s), sv_running := True\<rparr>))"

definition handler_stop :: "('c \<Rightarrow> 'c) \<Rightarrow> 'c SigHandler \<Rightarrow> 'c SigHandler" where
  "handler_stop stop_client handler =
     (case handler of
        ProcessHandler h \<Rightarrow> ProcessHandler (fst (Handler_Stop stop_client h))
      | _ \<Rightarrow> handler)"

text \<open>The second component has the handlers as they are when they are stopped and destroyed.\<close>

definition CleanUp :: "('c \<Rightarrow> 'c) \<Rightarrow> 'c Service \<Rightarrow> inspect_fault + ('c Service \<times> 'c SigHandler list)" where
  "CleanUp stop_client s =
     (if sv_inspector s = None then Inl Null_dereference
      else Inr (s\<lparr>sv_running := False, sv_inspector := None, sv_handlers := [], sv_store := cancel_requests (sv_store s)\<rparr>,
                map (handler_stop stop_client \<circ> fst) (sv_handlers s)))"

text \<open>The counters that come from the service itself; those of the kernel are copied from libsinsp.\<close>

definition GetStats :: "'c Service \<Rightarrow> ((nat \<Rightarrow> u64) \<times> (nat \<Rightarrow> u64) \<times> (nat \<Rightarrow> u64) \<times> (nat \<Rightarrow> u64)) option" where
  "GetStats s =
     (if \<not> sv_running s \<or> sv_inspector s = None then None
      else Some (sv_nUserspaceEvents s, sv_nFilteredEvents s, sv_event_parse_micros s, sv_event_process_micros s))"

fun filter_loop ::
  "EventNames \<Rightarrow> string list \<Rightarrow> (nat \<Rightarrow> bool) \<times> (nat \<Rightarrow> bool) \<Rightarrow> string + ((nat \<Rightarrow> bool) \<times> (nat \<Rightarrow> bool))" where
  "filter_loop en [] (event_filter, global) = Inr (event_filter, global)"
| "filter_loop en (event_name # rest) (event_filter, global) =
     res_bind (GetEventIDs en event_name) (\<lambda>ids.
       filter_loop en rest ((\<lambda>i. i \<in> set ids \<or> event_filter i), (\<lambda>i. i \<in> set ids \<or> global i)))"

definition AddSignalHandler ::
  "EventNames \<Rightarrow> string list \<Rightarrow> 'c SigHandler \<Rightarrow> 'c Service \<Rightarrow> string + 'c Service" where
  "AddSignalHandler en relevant_events handler s =
     (if relevant_events = [] then Inr (s\<lparr>sv_handlers := sv_handlers s @ [(handler, \<lambda>_. True)]\<rparr>)
      else
        res_bind (filter_loop en relevant_events (\<lambda>_. False, sv_global_event_filter s)) (\<lambda>(event_filter, global).
          Inr (s\<lparr>sv_global_event_filter := global, sv_handlers := sv_handlers s @ [(handler, event_filter)]\<rparr>)))"

section \<open>Results\<close>

lemma process_not_finished:
  assumes "HandleSignal fmt (\<lambda>_. PushSignals ok) clock evt h = Some (h', r)"
  shows "r \<noteq> FINISHED"
proof -
  have s: "send_signal (\<lambda>_. PushSignals ok) clock sig h0 = Some (h', r) \<Longrightarrow> r \<noteq> FINISHED" for sig h0
    using PushSignals_results
    by (auto simp: send_signal_def Let_def split: prod.splits option.splits bool.splits if_splits)
  show ?thesis using assms s by (auto simp: HandleSignal_def Let_def split: prod.splits option.splits)
qed

fun class_of :: "'c SigHandler \<Rightarrow> nat" where
  "class_of (SelfCheckProcessHandler h) = 0"
| "class_of (SelfCheckNetworkHandler h) = 1"
| "class_of (ProcessHandler h) = 2"
| "class_of (NetworkHandler h st) = 3"

definition self_check :: "'c SigHandler \<Rightarrow> bool" where
  "self_check h = (class_of h < 2)"

lemma handle_signal_laws:
  assumes "handle_signal env call evt h = Inr (h', r)" "ce_push call = (\<lambda>_. PushSignals ok)"
  shows "class_of h' = class_of h" "r = FINISHED \<Longrightarrow> self_check h"
proof -
  show "class_of h' = class_of h"
    using assms(1) by (cases h) (auto simp: handle_signal_def res_bind_Inr_iff)
  show "self_check h" if "r = FINISHED"
  proof (cases h)
    case (ProcessHandler p)
    then show ?thesis
      using assms that
      by (auto simp: handle_signal_def res_bind_Inr_iff of_option_def dest: process_not_finished split: option.splits)
  next
    case (NetworkHandler p st)
    then show ?thesis
      using assms that
      by (auto simp: handle_signal_def res_bind_Inr_iff of_exception_def NetworkHandleSignal_def
          split: sum.splits option.splits if_splits)
  qed (simp_all add: self_check_def)
qed

lemma handle_existing_class: "handle_existing env call t h = Inr (h', r) \<Longrightarrow> class_of h' = class_of h"
  by (cases h) (auto simp: handle_existing_def res_bind_Inr_iff)

lemma existing_loop_class: "existing_loop env calls n ts h = Inr (sent, h', n') \<Longrightarrow> class_of h' = class_of h"
proof (induction ts arbitrary: n h)
  case (Cons t ts)
  show ?case
  proof (cases "GetContainerID (ti_cgroups t) \<noteq> [] \<and> ti_is_main t")
    case True
    then obtain h1 r where h1: "handle_existing env (calls n) t h = Inr (h1, r)"
      "(if r = ERROR \<or> r = NEEDS_REFRESH then Inr (False, h1, Suc n) else existing_loop env calls (Suc n) ts h1) =
        Inr (sent, h', n')"
      using Cons.prems by (auto simp: res_bind_Inr_iff)
    then show ?thesis
      using Cons.IH [of "Suc n" h1] handle_existing_class [OF h1(1)] by (simp split: if_splits)
  qed (use Cons in auto)
qed simp

lemma SendExistingProcesses_class:
  "SendExistingProcesses env calls n i h = Inr (sent, h', n') \<Longrightarrow> class_of h' = class_of h"
  by (auto simp: SendExistingProcesses_def existing_loop_class split: option.splits)

text \<open>
  The handlers stay, with their filters and in their order, or exactly one of them has gone, a self check
  that wanted the event; then those behind it have not been called.
\<close>

definition entry :: "'c SigHandler \<times> (nat \<Rightarrow> bool) \<Rightarrow> nat \<times> (nat \<Rightarrow> bool)" where
  "entry e = (class_of (fst e), snd e)"

definition handlers_kept ::
  "nat \<Rightarrow> ('c SigHandler \<times> (nat \<Rightarrow> bool)) list \<Rightarrow> ('c SigHandler \<times> (nat \<Rightarrow> bool)) list \<Rightarrow> bool" where
  "handlers_kept type hs hs' \<longleftrightarrow>
     map entry hs' = map entry hs \<or>
     (\<exists>before before' h f behind. hs = before @ (h, f) # behind \<and> hs' = before' @ behind \<and>
        map entry before' = map entry before \<and> self_check h \<and> f type)"

lemma handlers_kept_Cons:
  assumes "handlers_kept type hs hs'" "class_of h' = class_of h"
  shows "handlers_kept type ((h, f) # hs) ((h', f) # hs')"
  using assms(1) unfolding handlers_kept_def
proof (elim disjE exE conjE)
  fix before before' x g behind
  assume "hs = before @ (x, g) # behind" "hs' = before' @ behind" "map entry before' = map entry before" "self_check x" "g type"
  then have "(h, f) # hs = ((h, f) # before) @ (x, g) # behind" "(h', f) # hs' = ((h', f) # before') @ behind"
    "map entry ((h', f) # before') = map entry ((h, f) # before)"
    using assms(2) by (simp_all add: entry_def)
  then show "map entry ((h', f) # hs') = map entry ((h, f) # hs) \<or>
     (\<exists>before before' x g behind. (h, f) # hs = before @ (x, g) # behind \<and> (h', f) # hs' = before' @ behind \<and>
        map entry before' = map entry before \<and> self_check x \<and> g type)"
    using \<open>self_check x\<close> \<open>g type\<close> by blast
qed (simp add: entry_def assms(2))

lemma dispatch_kept:
  assumes "\<And>n. ce_push (calls n) = (\<lambda>_. PushSignals (oks n))"
    "dispatch env calls insp start evt n stats hs = Inr (stats', hs')"
  shows "handlers_kept (ne_type evt) hs hs'"
  using assms(2)
proof (induction hs arbitrary: n stats stats' hs')
  case Nil
  then show ?case by (simp add: handlers_kept_def)
next
  case (Cons e hs)
  obtain h f where e: "e = (h, f)" by (cases e)
  let ?d = "dispatch env calls insp start evt"
  have step: "handlers_kept (ne_type evt) (e # hs) hs'"
    if r: "res_bind (?d m t hs) (\<lambda>(stats', rest'). Inr (stats', (x, f) # rest')) = Inr (stats', hs')"
      and c: "class_of x = class_of h" for m t x
  proof -
    obtain p where p: "?d m t hs = Inr p" "hs' = (x, f) # snd p"
      using r by (cases "?d m t hs") (auto simp: case_prod_beta)
    then have "?d m t hs = Inr (fst p, snd p)" by simp
    then have "handlers_kept (ne_type evt) hs (snd p)" by (rule Cons.IH)
    then show ?thesis using handlers_kept_Cons c p(2) e by simp
  qed
  show ?case
  proof (cases "f (ne_type evt)")
    case False
    then show ?thesis using step [of n stats h] Cons.prems by (simp add: e)
  next
    case True
    then obtain h1 r where h1: "handle_signal env (calls n) evt h = Inr (h1, r)"
      using Cons.prems by (auto simp: e Let_def res_bind_Inr_iff)
    note laws = handle_signal_laws [OF h1 assms(1)]
    note prems = Cons.prems [unfolded e, simplified, simplified True h1 Let_def, simplified]
    consider "r = NEEDS_REFRESH" | "r = FINISHED" | "r \<noteq> NEEDS_REFRESH" "r \<noteq> FINISHED" by blast
    then show ?thesis
    proof cases
      case 1
      then obtain sent h2 n2 where h2: "SendExistingProcesses env calls (Suc n) insp h1 = Inr (sent, h2, n2)"
        using prems by (auto simp: res_bind_Inr_iff)
      have c: "class_of h2 = class_of h" using SendExistingProcesses_class [OF h2] laws(1) by simp
      show ?thesis
      proof (cases sent)
        case False
        then show ?thesis using step [OF _ c] prems 1 h2 by simp
      next
        case True
        then obtain h3 r3 where h3: "handle_signal env (calls n2) evt h2 = Inr (h3, r3)"
          using prems 1 h2 by (auto simp: res_bind_Inr_iff)
        have "class_of h3 = class_of h" using handle_signal_laws(1) [OF h3 assms(1)] c by simp
        then show ?thesis using step [of _ _ h3] prems 1 h2 h3 True by simp
      qed
    next
      case 2
      then have "hs' = hs" "self_check h" using prems laws(2) by simp_all
      then have "e # hs = [] @ (h, f) # hs \<and> hs' = [] @ hs \<and> map entry [] = map entry [] \<and> self_check h \<and> f (ne_type evt)"
        using True e by simp
      then show ?thesis unfolding handlers_kept_def by blast
    next
      case 3
      then show ?thesis using step [OF _ laws(1)] prems by simp
    qed
  qed
qed

text \<open>The entries of the handlers that report to Sensor.\<close>

definition reporting :: "('c SigHandler \<times> (nat \<Rightarrow> bool)) list \<Rightarrow> (nat \<times> (nat \<Rightarrow> bool)) list" where
  "reporting hs = filter (\<lambda>e. 2 \<le> fst e) (map entry hs)"

lemma reporting_simps [simp]:
  "reporting [] = []" "reporting (hs @ hs') = reporting hs @ reporting hs'"
  "reporting ((h, f) # hs) = (if self_check h then reporting hs else (class_of h, f) # reporting hs)"
  by (simp_all add: reporting_def entry_def self_check_def)

lemma reporting_cong: "map entry hs' = map entry hs \<Longrightarrow> reporting hs' = reporting hs"
  by (simp add: reporting_def)

lemma handlers_kept_reporting:
  assumes "handlers_kept type hs hs'"
  shows "reporting hs' = reporting hs \<and> length hs \<le> Suc (length hs') \<and> length hs' \<le> length hs"
  using assms unfolding handlers_kept_def
proof (elim disjE exE conjE)
  assume a: "map entry hs' = map entry hs"
  then show ?thesis using reporting_cong [OF a] map_eq_imp_length_eq [OF a] by simp
next
  fix before before' h f behind
  assume a: "hs = before @ (h, f) # behind" "hs' = before' @ behind" "map entry before' = map entry before" "self_check h"
  have "length before' = length before" using map_eq_imp_length_eq [OF a(3)] .
  then show ?thesis using a reporting_cong [OF a(3)] by simp
qed

lemma GetNext_frame:
  "sv_handlers (snd (GetNext r res m s)) = sv_handlers s" "sv_inspector (snd (GetNext r res m s)) = sv_inspector s"
  by (simp_all add: GetNext_def Let_def split: option.split)

lemma Run_iteration_reporting:
  assumes "\<And>n. ce_push (ri_calls input n) = (\<lambda>_. PushSignals (oks n))" "Run_iteration env rhel input s = Inr s'"
  shows "reporting (sv_handlers s') = reporting (sv_handlers s) \<and> length (sv_handlers s') \<le> length (sv_handlers s) \<and>
    sv_inspector s' = sv_inspector s"
proof -
  obtain i where i: "sv_inspector s = Some i" using assms(2) by (cases "sv_inspector s") (simp_all add: Run_iteration_def)
  let ?s1 = "s\<lparr>sv_store := ServePendingProcessRequests (si_get_thread i) (sv_store s)\<rparr>"
  obtain evt s2 where g: "GetNext rhel (ri_next input) (ri_parse_micros input) ?s1 = (evt, s2)" by fastforce
  have f: "sv_handlers s2 = sv_handlers s" "sv_inspector s2 = sv_inspector s"
    using GetNext_frame [of rhel "ri_next input" "ri_parse_micros input" ?s1] g by simp_all
  show ?thesis
  proof (cases evt)
    case None
    then show ?thesis using assms(2) i g f by (simp add: Run_iteration_def)
  next
    case (Some event)
    let ?d = "dispatch env (ri_calls input) (sv_inspector s2) (ri_process_start input) event 0 (sv_collector_stats s2) (sv_handlers s2)"
    obtain p where p: "?d = Inr p" using assms(2) i g Some by (cases ?d) (simp_all add: Run_iteration_def)
    have "?d = Inr (fst p, snd p)" using p by simp
    then have "handlers_kept (ne_type event) (sv_handlers s2) (snd p)" by (rule dispatch_kept [OF assms(1)])
    moreover have "sv_handlers s' = snd p" "sv_inspector s' = sv_inspector s2"
      using assms(2) i g Some p by (auto simp: Run_iteration_def case_prod_beta)
    ultimately show ?thesis using handlers_kept_reporting f by auto
  qed
qed

lemma Run_loop_reporting:
  assumes "\<forall>input \<in> set inputs. \<exists>oks. \<forall>n. ce_push (ri_calls input n) = (\<lambda>_. PushSignals (oks n))"
    "Run_loop env rhel inputs s = Inr s'"
  shows "reporting (sv_handlers s') = reporting (sv_handlers s) \<and> length (sv_handlers s') \<le> length (sv_handlers s) \<and>
    sv_inspector s' = sv_inspector s"
  using assms
proof (induction inputs arbitrary: s)
  case (Cons input inputs)
  obtain oks where oks: "\<And>n. ce_push (ri_calls input n) = (\<lambda>_. PushSignals (oks n))" using Cons.prems(1) by auto
  obtain s1 where s1: "Run_iteration env rhel input s = Inr s1" "Run_loop env rhel inputs s1 = Inr s'"
    using Cons.prems(2) by (auto simp: res_bind_Inr_iff)
  show ?case using Run_iteration_reporting [OF oks s1(1)] Cons.IH [OF _ s1(2)] Cons.prems(1) by auto
qed simp

section \<open>Properties\<close>

text \<open>
  C34: However long the service runs, it keeps its inspector and the handlers that report to Sensor, each
  with its filter and in the same order; only handlers of self checks are ever removed.
\<close>

theorem reporting_handlers_stay:
  assumes "\<forall>input \<in> set inputs. \<exists>oks. \<forall>n. ce_push (ri_calls input n) = (\<lambda>_. PushSignals (oks n))"
    "Run env rhel inputs s = Inr s'"
  shows "reporting (sv_handlers s') = reporting (sv_handlers s) \<and> length (sv_handlers s') \<le> length (sv_handlers s) \<and>
    sv_inspector s' = sv_inspector s"
  using Run_loop_reporting [OF assms(1)] assms(2) by (simp add: Run_def split: if_splits)

text \<open>
  C35: A self check that has timed out takes the next event it wants away from the handlers behind it, even
  when the event has nothing to do with self checks: they are left as they were. While it has not timed out
  it passes the events of other processes on unchanged.
\<close>

theorem timed_out_check_swallows_event:
  assumes "f (ne_type evt)" "h \<in> {SelfCheckProcessHandler sh, SelfCheckNetworkHandler sh}"
  shows "(hasTimedOut (ce_now (calls n)) sh \<longrightarrow>
      dispatch env calls insp start evt n stats ((h, f) # rest) = Inr (LogUnreasonableEventTime start evt stats, rest)) \<and>
    (\<not> hasTimedOut (ce_now (calls n)) sh \<and> \<not> isSelfCheckEvent evt \<longrightarrow>
      dispatch env calls insp start evt n stats ((h, f) # rest) =
        res_bind (dispatch env calls insp start evt (Suc n) (LogUnreasonableEventTime start evt stats) rest)
          (\<lambda>(stats', rest'). Inr (stats', (h, f) # rest')))"
  using assms
  by (auto simp: handle_signal_def SelfCheckProcess_HandleSignal_def SelfCheckNetwork_HandleSignal_def Let_def)

definition example_service :: "SignalServiceClient Service" where
  "example_service =
     \<lparr>sv_inspector = Some \<lparr>si_threads = Some [], si_get_thread = (\<lambda>_. None)\<rparr>,
      sv_handlers = [(SelfCheckProcessHandler \<lparr>sh_start = 0, sh_timeout = 5\<rparr>, \<lambda>_. True),
                     (ProcessHandler example_handler, \<lambda>_. True)],
      sv_nUserspaceEvents = (\<lambda>_. 0), sv_nFilteredEvents = (\<lambda>_. 0), sv_event_parse_micros = (\<lambda>_. 0),
      sv_event_process_micros = (\<lambda>_. 0), sv_global_event_filter = (\<lambda>_. True), sv_running = True,
      sv_collector_stats = CollectorStats_new, sv_store = ProcessStore_new True\<rparr>"

definition example_call :: "(unit, SignalServiceClient) CallEnv" where
  "example_call = \<lparr>ce_now = 9, ce_clock = \<lparr>now_fill = 1, now_refill = 1, now_cap = 1\<rparr>, ce_push = (\<lambda>_. PushSignals True)\<rparr>"

definition example_input :: "(unit, SignalServiceClient) RunInput" where
  "example_input =
     \<lparr>ri_next = \<lparr>nr_success = True, nr_event = Some (example_event 3 1000), nr_internal = False\<rparr>, ri_parse_micros = 1,
      ri_process_start = 7, ri_process_micros = 2, ri_calls = (\<lambda>_. example_call)\<rparr>"

theorem timed_out_check_swallows_event_witness:
  "dispatch (\<lparr>ie_format = example_env, ie_code = (\<lambda>_. 0), ie_modifiers = []\<rparr>) (\<lambda>_. example_call) None 0 (example_event 3 1000) 0
      CollectorStats_new (sv_handlers example_service) =
    Inr (LogUnreasonableEventTime 0 (example_event 3 1000) CollectorStats_new, [(ProcessHandler example_handler, \<lambda>_. True)])"
  using timed_out_check_swallows_event [of "\<lambda>_. True" "example_event 3 1000"
      "SelfCheckProcessHandler \<lparr>sh_start = 0, sh_timeout = 5\<rparr>" "\<lparr>sh_start = 0, sh_timeout = 5\<rparr>" "\<lambda>_. example_call" 0
      "\<lparr>ie_format = example_env, ie_code = (\<lambda>_. 0), ie_modifiers = []\<rparr>" None 0 CollectorStats_new
      "[(ProcessHandler example_handler, \<lambda>_. True)]"]
  by (simp add: example_service_def hasTimedOut_def example_call_def)

theorem reporting_handlers_stay_witness:
  "\<exists>s'. Run \<lparr>ie_format = example_env, ie_code = (\<lambda>_. 0), ie_modifiers = []\<rparr> False [example_input] example_service = Inr s' \<and>
    reporting (sv_handlers s') = [(2, \<lambda>_. True)]"
proof -
  let ?env = "\<lparr>ie_format = example_env, ie_code = (\<lambda>_. 0), ie_modifiers = []\<rparr>"
  have "\<exists>s'. Run ?env False [example_input] example_service = Inr s'"
    by (simp add: Run_def Run_iteration_def example_service_def example_input_def example_call_def GetNext_def
        handle_signal_def SelfCheckProcess_HandleSignal_def hasTimedOut_def Let_def)
  then obtain s' where s': "Run ?env False [example_input] example_service = Inr s'" ..
  have "ce_push (ri_calls example_input n) = (\<lambda>_. PushSignals True)" for n
    by (simp add: example_input_def example_call_def)
  then have "\<forall>input \<in> set [example_input]. \<exists>oks. \<forall>n. ce_push (ri_calls input n) = (\<lambda>_. PushSignals (oks n))"
    by (auto intro!: exI [of _ "\<lambda>_. True"])
  then have "reporting (sv_handlers s') = reporting (sv_handlers example_service)"
    using reporting_handlers_stay [of "[example_input]" ?env False example_service s'] s' by blast
  then show ?thesis using s' by (simp add: example_service_def self_check_def)
qed

end
