(* ===== verification/ConfigParser.thy ===== *)
theory ConfigParser
  imports CxxLib "HOL-Library.AList"
begin

text \<open>
  The parser of the runtime configuration (\<open>ConfigLoader.cpp\<close>): it walks the descriptor of a message and
  fills the message from a YAML document.

  The YAML library and the reflection of protobuf are arguments: the conversions of a node, the C++ type of
  a field type, and the operation that sets a field, which is told the C++ type of the value. Descriptors,
  messages and documents are trees; a null node, a scalar, a sequence and a map are the defined nodes.
\<close>

section \<open>Documents, descriptors and messages\<close>

datatype Yaml =
    Y_null
  | Y_scalar string
  | Y_sequence "Yaml list"
  | Y_map "(string \<times> Yaml) list"

datatype FieldType =
    TYPE_DOUBLE | TYPE_FLOAT | TYPE_INT64 | TYPE_UINT64 | TYPE_INT32 | TYPE_FIXED64 | TYPE_FIXED32 | TYPE_BOOL
  | TYPE_STRING | TYPE_GROUP | TYPE_MESSAGE | TYPE_BYTES | TYPE_UINT32 | TYPE_ENUM | TYPE_SFIXED32 | TYPE_SFIXED64
  | TYPE_SINT32 | TYPE_SINT64

datatype CppType =
    CPPTYPE_INT32 | CPPTYPE_INT64 | CPPTYPE_UINT32 | CPPTYPE_UINT64 | CPPTYPE_DOUBLE | CPPTYPE_FLOAT
  | CPPTYPE_BOOL | CPPTYPE_ENUM | CPPTYPE_STRING | CPPTYPE_MESSAGE

datatype Field =
  Field (fd_name: string) (fd_repeated: bool) (fd_type: FieldType) (fd_enum: "(string \<times> int) list") (fd_fields: "Field list")

datatype 'd Value =
    V_double 'd
  | V_float 'd
  | V_int64 u64
  | V_uint64 u64
  | V_int32 u32
  | V_uint32 u32
  | V_bool bool
  | V_string string
  | V_enum int
  | V_message "(string \<times> 'd Value) list"
  | V_repeated "'d Value list"

type_synonym 'd Msg = "(string \<times> 'd Value) list"

text \<open>A usage error of the reflection ends the process; an exception of the YAML library is not caught.\<close>

datatype parse_fault = Reflection_misuse | Yaml_exception

record 'd Libraries =
  lb_double :: "Yaml \<Rightarrow> string + 'd"
  lb_float :: "Yaml \<Rightarrow> string + 'd"
  lb_int64 :: "Yaml \<Rightarrow> string + u64"
  lb_uint64 :: "Yaml \<Rightarrow> string + u64"
  lb_int32 :: "Yaml \<Rightarrow> string + u32"
  lb_uint32 :: "Yaml \<Rightarrow> string + u32"
  lb_bool :: "Yaml \<Rightarrow> string + bool"
  lb_string :: "Yaml \<Rightarrow> string + string"
  lb_cpp_type :: "FieldType \<Rightarrow> CppType"
  lb_type_name :: "FieldType \<Rightarrow> string"
  lb_set :: "CppType \<Rightarrow> Field \<Rightarrow> 'd Value \<Rightarrow> 'd Msg \<Rightarrow> parse_fault + 'd Msg"

section \<open>The parser\<close>

datatype ValidationMode = STRICT | PERMISSIVE | UNKNOWN_FIELDS_ONLY

text \<open>The file is kept as it is printed in messages.\<close>

record ParserYaml =
  py_file :: string
  py_read_camelcase :: bool
  py_validation_mode :: ValidationMode

definition NodeTypeToString :: "Yaml \<Rightarrow> string" where
  "NodeTypeToString node =
     (case node of
        Y_null \<Rightarrow> ''Null''
      | Y_scalar _ \<Rightarrow> ''Scalar''
      | Y_sequence _ \<Rightarrow> ''Sequence''
      | Y_map _ \<Rightarrow> ''Map'')"

definition ConcatPath :: "string \<Rightarrow> string \<Rightarrow> string" where
  "ConcatPath path name = path @ (if path \<noteq> [] then ''.'' else []) @ name"

fun snake_loop :: "bool \<Rightarrow> string \<Rightarrow> string" where
  "snake_loop capitalize [] = []"
| "snake_loop capitalize (c # s) =
     (if c = CHR ''_'' then snake_loop True s
      else (if capitalize then c_toupper c else c) # snake_loop False s)"

definition SnakeCaseToCamel :: "string \<Rightarrow> string" where
  "SnakeCaseToCamel s = snake_loop False s"

fun camel_loop :: "bool \<Rightarrow> string \<Rightarrow> string" where
  "camel_loop first [] = []"
| "camel_loop first (c # s) =
     (if \<not> first \<and> c_isupper c then ''_'' else []) @ [c_tolower c] @ camel_loop False s"

definition CamelCaseToSnake :: "string \<Rightarrow> string" where
  "CamelCaseToSnake s = camel_loop True s"

definition quoted :: "string \<Rightarrow> string" where
  "quoted s = [CHR 0x27] @ s @ [CHR 0x27]"

text \<open>\<open>node[name]\<close>; what is not a map has no such key.\<close>

definition yaml_at :: "string \<Rightarrow> Yaml \<Rightarrow> Yaml option" where
  "yaml_at name node = (case node of Y_map m \<Rightarrow> map_of m name | _ \<Rightarrow> None)"

definition WrapError :: "ParserYaml \<Rightarrow> string \<Rightarrow> string" where
  "WrapError p what = py_file p @ '': '' @ what"

definition TryConvert :: "ParserYaml \<Rightarrow> (Yaml \<Rightarrow> string + 'v) \<Rightarrow> Yaml \<Rightarrow> string + 'v" where
  "TryConvert p conv node = (case conv node of Inl what \<Rightarrow> Inl (WrapError p what) | Inr v \<Rightarrow> Inr v)"

text \<open>A conversion whose value is wrapped for the message.\<close>

definition conv_as :: "('v \<Rightarrow> 'd Value) \<Rightarrow> (Yaml \<Rightarrow> string + 'v) \<Rightarrow> Yaml \<Rightarrow> string + 'd Value" where
  "conv_as wrap conv node = (case conv node of Inl what \<Rightarrow> Inl what | Inr v \<Rightarrow> Inr (wrap v))"

definition field_label :: "ParserYaml \<Rightarrow> Field \<Rightarrow> string" where
  "field_label p field = (if py_read_camelcase p then SnakeCaseToCamel (fd_name field) else fd_name field)"

fun array_loop :: "ParserYaml \<Rightarrow> (Yaml \<Rightarrow> string + 'd Value) \<Rightarrow> Yaml list \<Rightarrow> 'd Value list \<times> string list" where
  "array_loop p conv [] = ([], [])"
| "array_loop p conv (n # rest) =
     (let (values, errors) = array_loop p conv rest
      in case TryConvert p conv n of
           Inl e \<Rightarrow> (values, e # errors)
         | Inr v \<Rightarrow> (v # values, errors))"

definition ParseArrayInner ::
  "'d Libraries \<Rightarrow> ParserYaml \<Rightarrow> CppType \<Rightarrow> (Yaml \<Rightarrow> string + 'd Value) \<Rightarrow> Yaml list \<Rightarrow> Field \<Rightarrow> 'd Msg \<Rightarrow>
     parse_fault + ('d Msg \<times> string list)" where
  "ParseArrayInner lb p ct conv nodes field msg =
     (let (values, errors) = array_loop p conv nodes
      in res_bind (lb_set lb ct field (V_repeated values) msg) (\<lambda>msg'. Inr (msg', errors)))"

definition enum_value :: "ParserYaml \<Rightarrow> Field \<Rightarrow> string \<Rightarrow> string \<Rightarrow> string + 'd Value" where
  "enum_value p field label name =
     (let enum_name = map c_toupper name
      in case map_of (fd_enum field) enum_name of
           None \<Rightarrow> Inl (py_file p @ '': Invalid enum value '' @ quoted enum_name @ '' for field '' @ label)
         | Some number \<Rightarrow> Inr (V_enum number))"

fun enum_loop :: "'d Libraries \<Rightarrow> ParserYaml \<Rightarrow> Field \<Rightarrow> Yaml list \<Rightarrow> 'd Value list \<times> string list" where
  "enum_loop lb p field [] = ([], [])"
| "enum_loop lb p field (n # rest) =
     (let (values, errors) = enum_loop lb p field rest
      in case res_bind (TryConvert p (lb_string lb) n) (enum_value p field (field_label p field)) of
           Inl e \<Rightarrow> (values, e # errors)
         | Inr v \<Rightarrow> (v # values, errors))"

definition ParseArrayEnum ::
  "'d Libraries \<Rightarrow> ParserYaml \<Rightarrow> Yaml list \<Rightarrow> Field \<Rightarrow> 'd Msg \<Rightarrow> parse_fault + ('d Msg \<times> string list)" where
  "ParseArrayEnum lb p nodes field msg =
     (let (values, errors) = enum_loop lb p field nodes
      in res_bind (lb_set lb CPPTYPE_ENUM field (V_repeated values) msg) (\<lambda>msg'. Inr (msg', errors)))"

definition ParseArray ::
  "'d Libraries \<Rightarrow> ParserYaml \<Rightarrow> Yaml list \<Rightarrow> Field \<Rightarrow> 'd Msg \<Rightarrow> parse_fault + ('d Msg \<times> string list)" where
  "ParseArray lb p nodes field msg =
     (case lb_cpp_type lb (fd_type field) of
        CPPTYPE_INT32 \<Rightarrow> ParseArrayInner lb p CPPTYPE_INT32 (conv_as V_int32 (lb_int32 lb)) nodes field msg
      | CPPTYPE_UINT32 \<Rightarrow> ParseArrayInner lb p CPPTYPE_UINT32 (conv_as V_uint32 (lb_uint32 lb)) nodes field msg
      | CPPTYPE_INT64 \<Rightarrow> ParseArrayInner lb p CPPTYPE_INT64 (conv_as V_int64 (lb_int64 lb)) nodes field msg
      | CPPTYPE_UINT64 \<Rightarrow> ParseArrayInner lb p CPPTYPE_UINT64 (conv_as V_uint64 (lb_uint64 lb)) nodes field msg
      | CPPTYPE_DOUBLE \<Rightarrow> ParseArrayInner lb p CPPTYPE_DOUBLE (conv_as V_double (lb_double lb)) nodes field msg
      | CPPTYPE_FLOAT \<Rightarrow> ParseArrayInner lb p CPPTYPE_FLOAT (conv_as V_float (lb_float lb)) nodes field msg
      | CPPTYPE_BOOL \<Rightarrow> ParseArrayInner lb p CPPTYPE_BOOL (conv_as V_bool (lb_bool lb)) nodes field msg
      | CPPTYPE_ENUM \<Rightarrow> ParseArrayEnum lb p nodes field msg
      | CPPTYPE_STRING \<Rightarrow> ParseArrayInner lb p CPPTYPE_STRING (conv_as V_string (lb_string lb)) nodes field msg
      | CPPTYPE_MESSAGE \<Rightarrow> Inr (msg, [''Unsupport repeated type MESSAGE'']))"

text \<open>The common shape of the scalar cases: convert, and either report or set.\<close>

definition set_scalar ::
  "'d Libraries \<Rightarrow> ParserYaml \<Rightarrow> CppType \<Rightarrow> (Yaml \<Rightarrow> string + 'd Value) \<Rightarrow> Yaml \<Rightarrow> Field \<Rightarrow> 'd Msg \<Rightarrow>
     parse_fault + ('d Msg \<times> string list)" where
  "set_scalar lb p ct conv node field msg =
     (case TryConvert p conv node of
        Inl e \<Rightarrow> Inr (msg, [e])
      | Inr v \<Rightarrow> res_bind (lb_set lb ct field v msg) (\<lambda>msg'. Inr (msg', [])))"

definition ParseScalar ::
  "'d Libraries \<Rightarrow> ParserYaml \<Rightarrow> Yaml \<Rightarrow> Field \<Rightarrow> string \<Rightarrow> 'd Msg \<Rightarrow> parse_fault + ('d Msg \<times> string list)" where
  "ParseScalar lb p node field name msg =
     (case fd_type field of
        TYPE_DOUBLE \<Rightarrow> set_scalar lb p CPPTYPE_DOUBLE (conv_as V_double (lb_double lb)) node field msg
      | TYPE_FLOAT \<Rightarrow> set_scalar lb p CPPTYPE_FLOAT (conv_as V_float (lb_float lb)) node field msg
      | TYPE_SFIXED64 \<Rightarrow> set_scalar lb p CPPTYPE_INT64 (conv_as V_int64 (lb_int64 lb)) node field msg
      | TYPE_INT64 \<Rightarrow> set_scalar lb p CPPTYPE_INT64 (conv_as V_int64 (lb_int64 lb)) node field msg
      | TYPE_SINT64 \<Rightarrow> set_scalar lb p CPPTYPE_UINT64 (conv_as V_uint64 (lb_uint64 lb)) node field msg
      | TYPE_FIXED64 \<Rightarrow> set_scalar lb p CPPTYPE_UINT64 (conv_as V_uint64 (lb_uint64 lb)) node field msg
      | TYPE_UINT64 \<Rightarrow> set_scalar lb p CPPTYPE_UINT64 (conv_as V_uint64 (lb_uint64 lb)) node field msg
      | TYPE_FIXED32 \<Rightarrow> set_scalar lb p CPPTYPE_UINT32 (conv_as V_uint32 (lb_uint32 lb)) node field msg
      | TYPE_UINT32 \<Rightarrow> set_scalar lb p CPPTYPE_UINT32 (conv_as V_uint32 (lb_uint32 lb)) node field msg
      | TYPE_SINT32 \<Rightarrow> set_scalar lb p CPPTYPE_INT32 (conv_as V_int32 (lb_int32 lb)) node field msg
      | TYPE_SFIXED32 \<Rightarrow> set_scalar lb p CPPTYPE_INT32 (conv_as V_int32 (lb_int32 lb)) node field msg
      | TYPE_INT32 \<Rightarrow> set_scalar lb p CPPTYPE_INT32 (conv_as V_int32 (lb_int32 lb)) node field msg
      | TYPE_BOOL \<Rightarrow> set_scalar lb p CPPTYPE_BOOL (conv_as V_bool (lb_bool lb)) node field msg
      | TYPE_STRING \<Rightarrow> set_scalar lb p CPPTYPE_STRING (conv_as V_string (lb_string lb)) node field msg
      | TYPE_BYTES \<Rightarrow> Inr (msg, [''Unexpected type BYTES''])
      | TYPE_ENUM \<Rightarrow>
          (case lb_string lb node of
             Inl _ \<Rightarrow> Inl Yaml_exception
           | Inr enum_name \<Rightarrow>
               (case enum_value p field name enum_name of
                  Inl e \<Rightarrow> Inr (msg, [e])
                | Inr v \<Rightarrow> res_bind (lb_set lb CPPTYPE_ENUM field v msg) (\<lambda>msg'. Inr (msg', []))))
      | TYPE_MESSAGE \<Rightarrow> Inr (msg, [''Unexpected type: '' @ lb_type_name lb (fd_type field)])
      | TYPE_GROUP \<Rightarrow> Inr (msg, [''Unexpected type: '' @ lb_type_name lb (fd_type field)]))"

text \<open>The message in a field, which is created when it is not there, and its change in place.\<close>

definition mutable_message :: "Field \<Rightarrow> 'd Msg \<Rightarrow> 'd Msg" where
  "mutable_message field msg = (case map_of msg (fd_name field) of Some (V_message m) \<Rightarrow> m | _ \<Rightarrow> [])"

definition msg_put :: "string \<Rightarrow> 'd Value \<Rightarrow> 'd Msg \<Rightarrow> 'd Msg" where
  "msg_put name v msg = AList.update name v msg"

fun parse_field ::
    "'d Libraries \<Rightarrow> ParserYaml \<Rightarrow> Yaml \<Rightarrow> string \<Rightarrow> Field \<Rightarrow> 'd Msg \<Rightarrow> parse_fault + ('d Msg \<times> string list)"
  and parse_fields ::
    "'d Libraries \<Rightarrow> ParserYaml \<Rightarrow> Yaml \<Rightarrow> string \<Rightarrow> Field list \<Rightarrow> 'd Msg \<Rightarrow> parse_fault + ('d Msg \<times> string list)" where
  "parse_field lb p node path (Field fname repeated type enums descr) msg =
     (let field = Field fname repeated type enums descr;
          name = field_label p field
      in case yaml_at name node of
           None \<Rightarrow>
             Inr (msg, if py_validation_mode p = STRICT
                       then [py_file p @ '': Missing field '' @ quoted (ConcatPath path name)] else [])
         | Some sub \<Rightarrow>
             if repeated then
               (case sub of
                  Y_sequence nodes \<Rightarrow> ParseArray lb p nodes field msg
                | _ \<Rightarrow> Inr (msg, [py_file p @ '': Type mismatch for '' @ quoted name @ '' - expected Sequence, got '' @
                                  NodeTypeToString sub]))
             else if type = TYPE_MESSAGE then
               (case sub of
                  Y_null \<Rightarrow> Inr (msg, [])
                | Y_map _ \<Rightarrow>
                    res_bind (parse_fields lb p sub (ConcatPath path name) descr (mutable_message field msg))
                      (\<lambda>(m, errors). Inr (msg_put fname (V_message m) msg, errors))
                | _ \<Rightarrow> Inr (msg, [py_file p @ '': Type mismatch for '' @ quoted name @ '' - expected Map, got '' @
                                  NodeTypeToString sub]))
             else
               (case sub of
                  Y_scalar _ \<Rightarrow> ParseScalar lb p sub field name msg
                | _ \<Rightarrow> Inr (msg, [py_file p @ '': Attempting to parse non-scalar field as scalar''])))"
| "parse_fields lb p node path [] msg = Inr (msg, [])"
| "parse_fields lb p node path (f # fs) msg =
     res_bind (parse_field lb p node path f msg) (\<lambda>(msg1, errors1).
       res_bind (parse_fields lb p node path fs msg1) (\<lambda>(msg2, errors2). Inr (msg2, errors1 @ errors2)))"

lemma yaml_map_size: "size_list (\<lambda>e. size (snd e)) m \<le> size_list (size_prod (\<lambda>x. 0) size) (m :: (string \<times> Yaml) list)"
  by (induction m) auto

function find_unknown :: "'d Libraries \<Rightarrow> ParserYaml \<Rightarrow> Field list \<Rightarrow> (string \<times> Yaml) list \<Rightarrow> parse_fault + string list" where
  "find_unknown lb p descr [] = Inr []"
| "find_unknown lb p descr ((key, value) # rest) =
     (let name = if py_read_camelcase p then CamelCaseToSnake key else key
      in res_bind
           (case find (\<lambda>f. fd_name f = name) descr of
              None \<Rightarrow> Inr [py_file p @ '': Unknown field '' @ quoted name]
            | Some field \<Rightarrow>
                (case value of
                   Y_map sub \<Rightarrow>
                     if fd_type field \<noteq> TYPE_MESSAGE then
                       Inr [py_file p @ '': Invalid type '' @ quoted (NodeTypeToString value) @ '' for field '' @ key @
                            '', expected '' @ quoted (lb_type_name lb (fd_type field))]
                     else if fd_repeated field then Inl Reflection_misuse
                     else find_unknown lb p (fd_fields field) sub
                 | _ \<Rightarrow> Inr []))
           (\<lambda>errors. res_bind (find_unknown lb p descr rest) (\<lambda>errors'. Inr (errors @ errors'))))"
  by pat_completeness auto

termination find_unknown
  by (relation "measure (\<lambda>(lb, p, descr, m). size_list (\<lambda>e. size (snd e)) m)")
     (auto intro: le_less_trans [OF yaml_map_size])

text \<open>The walk over a sequence asks its elements for their keys.\<close>

definition FindUnknownFields :: "'d Libraries \<Rightarrow> ParserYaml \<Rightarrow> Field list \<Rightarrow> Yaml \<Rightarrow> parse_fault + string list" where
  "FindUnknownFields lb p descr node =
     (case node of
        Y_map m \<Rightarrow> find_unknown lb p descr m
      | Y_sequence (_ # _) \<Rightarrow> Inl Yaml_exception
      | _ \<Rightarrow> Inr [])"

text \<open>No errors is the empty optional of the code.\<close>

definition Parse_node ::
  "'d Libraries \<Rightarrow> ParserYaml \<Rightarrow> Field list \<Rightarrow> Yaml \<Rightarrow> 'd Msg \<Rightarrow> parse_fault + ('d Msg \<times> string list)" where
  "Parse_node lb p descr node msg =
     (case node of
        Y_scalar _ \<Rightarrow> Inr (msg, [''Invalid configuration''])
      | Y_null \<Rightarrow> Inr (msg, [''Invalid configuration''])
      | _ \<Rightarrow>
          res_bind (parse_fields lb p node [] descr msg) (\<lambda>(msg', errors).
            if py_validation_mode p \<noteq> PERMISSIVE then
              res_bind (FindUnknownFields lb p descr node) (\<lambda>errors'. Inr (msg', errors @ errors'))
            else Inr (msg', errors)))"

text \<open>The outcome of loading the file is the message of the exception or the document.\<close>

definition Parse_file ::
  "'d Libraries \<Rightarrow> ParserYaml \<Rightarrow> Field list \<Rightarrow> string + Yaml \<Rightarrow> 'd Msg \<Rightarrow> parse_fault + ('d Msg \<times> string list)" where
  "Parse_file lb p descr load msg =
     (case load of
        Inl what \<Rightarrow> Inr (msg, [WrapError p what])
      | Inr node \<Rightarrow> Parse_node lb p descr node msg)"

section \<open>Types\<close>

text \<open>The C++ type of a value, and the values that belong to a descriptor.\<close>

fun cpp_of :: "'d Value \<Rightarrow> CppType option" where
  "cpp_of (V_double _) = Some CPPTYPE_DOUBLE"
| "cpp_of (V_float _) = Some CPPTYPE_FLOAT"
| "cpp_of (V_int64 _) = Some CPPTYPE_INT64"
| "cpp_of (V_uint64 _) = Some CPPTYPE_UINT64"
| "cpp_of (V_int32 _) = Some CPPTYPE_INT32"
| "cpp_of (V_uint32 _) = Some CPPTYPE_UINT32"
| "cpp_of (V_bool _) = Some CPPTYPE_BOOL"
| "cpp_of (V_string _) = Some CPPTYPE_STRING"
| "cpp_of (V_enum _) = Some CPPTYPE_ENUM"
| "cpp_of (V_message _) = Some CPPTYPE_MESSAGE"
| "cpp_of (V_repeated _) = None"

fun value_ok :: "(FieldType \<Rightarrow> CppType) \<Rightarrow> Field \<Rightarrow> 'd Value \<Rightarrow> bool"
  and message_ok :: "(FieldType \<Rightarrow> CppType) \<Rightarrow> Field list \<Rightarrow> 'd Msg \<Rightarrow> bool" where
  "value_ok ct (Field n repeated type enums descr) v =
     (if repeated then (case v of V_repeated vs \<Rightarrow> \<forall>x \<in> set vs. cpp_of x = Some (ct type) \<and> ct type \<noteq> CPPTYPE_MESSAGE | _ \<Rightarrow> False)
      else if type = TYPE_MESSAGE then (case v of V_message m \<Rightarrow> message_ok ct descr m | _ \<Rightarrow> False)
      else cpp_of v = Some (ct type))"
| "message_ok ct [] msg = True"
| "message_ok ct (f # fs) msg =
     ((case map_of msg (fd_name f) of None \<Rightarrow> True | Some v \<Rightarrow> value_ok ct f v) \<and> message_ok ct fs msg)"

text \<open>What protobuf documents of its types and of its reflection, and the YAML library of its scalars.\<close>

definition documented_types :: "(FieldType \<Rightarrow> CppType) \<Rightarrow> bool" where
  "documented_types ct \<longleftrightarrow>
     ct TYPE_DOUBLE = CPPTYPE_DOUBLE \<and> ct TYPE_FLOAT = CPPTYPE_FLOAT \<and> ct TYPE_INT64 = CPPTYPE_INT64 \<and>
     ct TYPE_UINT64 = CPPTYPE_UINT64 \<and> ct TYPE_INT32 = CPPTYPE_INT32 \<and> ct TYPE_FIXED64 = CPPTYPE_UINT64 \<and>
     ct TYPE_FIXED32 = CPPTYPE_UINT32 \<and> ct TYPE_BOOL = CPPTYPE_BOOL \<and> ct TYPE_STRING = CPPTYPE_STRING \<and>
     ct TYPE_GROUP = CPPTYPE_MESSAGE \<and> ct TYPE_MESSAGE = CPPTYPE_MESSAGE \<and> ct TYPE_BYTES = CPPTYPE_STRING \<and>
     ct TYPE_UINT32 = CPPTYPE_UINT32 \<and> ct TYPE_ENUM = CPPTYPE_ENUM \<and> ct TYPE_SFIXED32 = CPPTYPE_INT32 \<and>
     ct TYPE_SFIXED64 = CPPTYPE_INT64 \<and> ct TYPE_SINT32 = CPPTYPE_INT32 \<and> ct TYPE_SINT64 = CPPTYPE_INT64"

definition documented :: "'d Libraries \<Rightarrow> bool" where
  "documented lb \<longleftrightarrow>
     documented_types (lb_cpp_type lb) \<and>
     (\<forall>ct f v msg. lb_set lb ct f v msg =
        (if ct = lb_cpp_type lb (fd_type f) then Inr (msg_put (fd_name f) v msg) else Inl Reflection_misuse)) \<and>
     (\<forall>s. lb_string lb (Y_scalar s) = Inr s)"

text \<open>No scalar field has the type whose setter is the wrong one, in the whole tree.\<close>

fun no_sint64 :: "Field \<Rightarrow> bool" where
  "no_sint64 (Field n repeated type enums descr) =
     ((repeated \<or> type \<noteq> TYPE_SINT64) \<and> (\<forall>f \<in> set descr. no_sint64 f))"

fun distinct_names :: "Field \<Rightarrow> bool" where
  "distinct_names (Field n repeated type enums descr) = (distinct (map fd_name descr) \<and> (\<forall>f \<in> set descr. distinct_names f))"

lemma map_of_msg_put: "map_of (msg_put n v msg) k = (if k = n then Some v else map_of msg k)"
  by (simp add: msg_put_def update_conv')

lemma message_ok_iff:
  "message_ok ct fs msg \<longleftrightarrow> (\<forall>f \<in> set fs. \<forall>v. map_of msg (fd_name f) = Some v \<longrightarrow> value_ok ct f v)"
  by (induction fs) (auto split: option.splits)

lemma message_ok_put:
  assumes "message_ok ct fs msg" "distinct (map fd_name fs)" "f \<in> set fs" "value_ok ct f v"
  shows "message_ok ct fs (msg_put (fd_name f) v msg)"
  using assms by (auto simp: message_ok_iff map_of_msg_put distinct_map inj_on_def)

definition parsed_ok :: "(FieldType \<Rightarrow> CppType) \<Rightarrow> Field list \<Rightarrow> parse_fault + ('d Msg \<times> string list) \<Rightarrow> bool" where
  "parsed_ok ct fs r = (case r of Inl _ \<Rightarrow> False | Inr (msg, errors) \<Rightarrow> message_ok ct fs msg)"

lemma parsed_ok_Inr [simp]: "parsed_ok ct fs (Inr (msg, errors)) = message_ok ct fs msg"
  by (simp add: parsed_ok_def)

lemma parsed_ok_bind:
  assumes "parsed_ok ct fs r" "\<And>msg e. message_ok ct fs msg \<Longrightarrow> parsed_ok ct fs' (k (msg, e))"
  shows "parsed_ok ct fs' (res_bind r k)"
proof (cases r)
  case (Inl f)
  then show ?thesis using assms(1) by (simp add: parsed_ok_def)
next
  case (Inr q)
  then show ?thesis using assms by (cases q) simp
qed

lemma set_ok:
  assumes "documented lb" "message_ok (lb_cpp_type lb) fs msg" "distinct (map fd_name fs)" "f \<in> set fs"
    "value_ok (lb_cpp_type lb) f v" "ct = lb_cpp_type lb (fd_type f)"
  shows "parsed_ok (lb_cpp_type lb) fs (res_bind (lb_set lb ct f v msg) (\<lambda>msg'. Inr (msg', errors)))"
  using assms message_ok_put [OF assms(2-5)] by (simp add: documented_def)

lemma scalar_value_ok:
  "\<not> fd_repeated f \<Longrightarrow> fd_type f \<noteq> TYPE_MESSAGE \<Longrightarrow> value_ok ct f v \<longleftrightarrow> cpp_of v = Some (ct (fd_type f))"
  by (cases f) simp

lemma set_scalar_ok:
  assumes "documented lb" "message_ok (lb_cpp_type lb) fs msg" "distinct (map fd_name fs)" "f \<in> set fs"
    "\<not> fd_repeated f" "fd_type f \<noteq> TYPE_MESSAGE" "ct = lb_cpp_type lb (fd_type f)"
    "\<And>n v. conv n = Inr v \<Longrightarrow> cpp_of v = Some ct"
  shows "parsed_ok (lb_cpp_type lb) fs (set_scalar lb p ct conv node f msg)"
proof (cases "conv node")
  case (Inl e)
  then show ?thesis using assms(2) by (simp add: set_scalar_def TryConvert_def)
next
  case (Inr v)
  have "value_ok (lb_cpp_type lb) f v" using assms(5-8) Inr by (simp add: scalar_value_ok)
  from set_ok [OF assms(1-4) this assms(7)] show ?thesis using Inr by (simp add: set_scalar_def TryConvert_def)
qed

lemma conv_as_cpp: "conv_as wrap conv n = Inr v \<Longrightarrow> (\<And>x. cpp_of (wrap x) = Some ct) \<Longrightarrow> cpp_of v = Some ct"
  by (auto simp: conv_as_def split: sum.splits)

lemma enum_value_cpp: "enum_value p f l n = Inr v \<Longrightarrow> cpp_of v = Some CPPTYPE_ENUM"
  by (auto simp: enum_value_def Let_def split: option.splits)

lemma ParseScalar_ok:
  fixes lb :: "'d Libraries"
  assumes "documented lb" "message_ok (lb_cpp_type lb) fs msg" "distinct (map fd_name fs)" "f \<in> set fs"
    "\<not> fd_repeated f" "fd_type f \<noteq> TYPE_MESSAGE" "fd_type f \<noteq> TYPE_SINT64"
  shows "parsed_ok (lb_cpp_type lb) fs (ParseScalar lb p (Y_scalar s) f name msg)"
proof -
  note set = set_scalar_ok [OF assms(1-6)]
  have t: "documented_types (lb_cpp_type lb)" using assms(1) by (simp add: documented_def)
  show ?thesis
  proof (cases "fd_type f = TYPE_ENUM")
    case True
    have str: "lb_string lb (Y_scalar s) = Inr s" using assms(1) by (simp add: documented_def)
    show ?thesis
    proof (cases "enum_value p f name s :: string + 'd Value")
      case (Inl e)
      then show ?thesis using assms(2) True str by (simp add: ParseScalar_def)
    next
      case (Inr v)
      have c: "CPPTYPE_ENUM = lb_cpp_type lb (fd_type f)" using t True by (simp add: documented_types_def)
      then have "value_ok (lb_cpp_type lb) f v" using enum_value_cpp [OF Inr] assms(5, 6) by (simp add: scalar_value_ok)
      from set_ok [OF assms(1-4) this c] show ?thesis using True str Inr by (simp add: ParseScalar_def)
    qed
  next
    case False
    then show ?thesis
      using t assms(2, 6, 7) unfolding ParseScalar_def documented_types_def
      by (cases "fd_type f") (auto intro!: set elim!: conv_as_cpp)
  qed
qed

lemma array_loop_values:
  "(values, errors) = array_loop p conv nodes \<Longrightarrow> x \<in> set values \<Longrightarrow> \<exists>n. conv n = Inr x"
  by (induction nodes arbitrary: "values" errors)
     (auto simp: Let_def TryConvert_def split: prod.splits sum.splits)

lemma enum_loop_values:
  "(values, errors) = enum_loop lb p f nodes \<Longrightarrow> x \<in> set values \<Longrightarrow> cpp_of x = Some CPPTYPE_ENUM"
  by (induction nodes arbitrary: "values" errors)
     (auto simp: Let_def res_bind_Inr_iff dest: enum_value_cpp split: prod.splits sum.splits)

lemma repeated_value_ok:
  "fd_repeated f \<Longrightarrow> value_ok ct f (V_repeated vs) \<longleftrightarrow>
    (\<forall>x \<in> set vs. cpp_of x = Some (ct (fd_type f)) \<and> ct (fd_type f) \<noteq> CPPTYPE_MESSAGE)"
  by (cases f) simp

lemma ParseArrayInner_ok:
  assumes "documented lb" "message_ok (lb_cpp_type lb) fs msg" "distinct (map fd_name fs)" "f \<in> set fs" "fd_repeated f"
    "ct = lb_cpp_type lb (fd_type f)" "ct \<noteq> CPPTYPE_MESSAGE" "\<And>n v. conv n = Inr v \<Longrightarrow> cpp_of v = Some ct"
  shows "parsed_ok (lb_cpp_type lb) fs (ParseArrayInner lb p ct conv nodes f msg)"
proof -
  obtain vs errors where vs: "(vs, errors) = array_loop p conv nodes" by (metis surj_pair)
  have "cpp_of x = Some ct" if "x \<in> set vs" for x using array_loop_values [OF vs that] assms(8) by blast
  then have "value_ok (lb_cpp_type lb) f (V_repeated vs)"
    using assms(5-7) by (simp add: repeated_value_ok)
  from set_ok [OF assms(1-4) this assms(6)] show ?thesis by (simp add: ParseArrayInner_def vs [symmetric])
qed

lemma ParseArray_ok:
  assumes "documented lb" "message_ok (lb_cpp_type lb) fs msg" "distinct (map fd_name fs)" "f \<in> set fs" "fd_repeated f"
  shows "parsed_ok (lb_cpp_type lb) fs (ParseArray lb p nodes f msg)"
proof -
  note inner = ParseArrayInner_ok [OF assms]
  show ?thesis
  proof (cases "lb_cpp_type lb (fd_type f) = CPPTYPE_ENUM")
    case True
    obtain vs errors where vs: "(vs, errors) = enum_loop lb p f nodes" by (metis surj_pair)
    have "value_ok (lb_cpp_type lb) f (V_repeated vs)"
      using True assms(5) enum_loop_values [OF vs] by (auto simp: repeated_value_ok)
    from set_ok [OF assms(1-4) this] show ?thesis
      using True by (simp add: ParseArray_def ParseArrayEnum_def vs [symmetric])
  next
    case False
    then show ?thesis
      using assms(2) unfolding ParseArray_def
      by (cases "lb_cpp_type lb (fd_type f)") (auto intro!: inner elim!: conv_as_cpp)
  qed
qed

lemma mutable_message_ok:
  assumes "message_ok ct fs msg" "f \<in> set fs" "\<not> fd_repeated f" "fd_type f = TYPE_MESSAGE"
  shows "message_ok ct (fd_fields f) (mutable_message f msg)"
proof (cases "map_of msg (fd_name f)")
  case None
  then show ?thesis by (simp add: mutable_message_def message_ok_iff)
next
  case (Some v)
  then have "value_ok ct f v" using assms(1, 2) by (auto simp: message_ok_iff)
  then show ?thesis using assms(3, 4) Some by (cases f) (simp add: mutable_message_def split: Value.splits)
qed

lemma parse_field_ok:
  assumes "documented lb"
  shows "f \<in> set fs \<Longrightarrow> distinct (map fd_name fs) \<Longrightarrow> no_sint64 f \<Longrightarrow> distinct_names f \<Longrightarrow>
      message_ok (lb_cpp_type lb) fs msg \<Longrightarrow> parsed_ok (lb_cpp_type lb) fs (parse_field lb p node path f msg)"
    and "set gs \<subseteq> set fs \<Longrightarrow> distinct (map fd_name fs) \<Longrightarrow> \<forall>g \<in> set gs. no_sint64 g \<and> distinct_names g \<Longrightarrow>
      message_ok (lb_cpp_type lb) fs msg \<Longrightarrow> parsed_ok (lb_cpp_type lb) fs (parse_fields lb p node path gs msg)"
  using assms
proof (induction lb p node path f msg and lb p node path gs msg arbitrary: fs and fs rule: parse_field_parse_fields.induct)
  case (1 lb p node path fname repeated type enums descr msg)
  let ?f = "Field fname repeated type enums descr"
  let ?ct = "lb_cpp_type lb"
  show ?case
  proof (cases "yaml_at (field_label p ?f) node")
    case None
    then show ?thesis using 1 by (simp add: Let_def)
  next
    case (Some sub)
    consider "repeated" | "\<not> repeated" "type = TYPE_MESSAGE" | "\<not> repeated" "type \<noteq> TYPE_MESSAGE" by blast
    then show ?thesis
    proof cases
      case 1
      then show ?thesis
        using ParseArray_ok [of lb fs msg ?f p] "1.prems" Some by (cases sub) (simp_all add: Let_def)
    next
      case 2
      have r: "parsed_ok ?ct descr (parse_fields lb p sub (ConcatPath path (field_label p ?f)) descr (mutable_message ?f msg))"
        if "sub = Y_map m" for m
        using "1.IH" [OF refl refl Some _ _ that, of descr] "1.prems" 2 mutable_message_ok [of ?ct fs msg ?f]
        by simp
      have put: "message_ok ?ct fs (msg_put fname (V_message m) msg)" if "message_ok ?ct descr m" for m
        using message_ok_put [of ?ct fs msg ?f "V_message m"] "1.prems" 2 that by simp
      show ?thesis
      proof (cases sub)
        case (Y_map m)
        have "parsed_ok ?ct fs (res_bind (parse_fields lb p sub (ConcatPath path (field_label p ?f)) descr (mutable_message ?f msg))
            (\<lambda>(m, errors). Inr (msg_put fname (V_message m) msg, errors)))"
          by (rule parsed_ok_bind [OF r [OF Y_map]]) (simp add: put)
        then show ?thesis using Some 2 Y_map by (simp add: Let_def)
      qed (use Some 2 "1.prems" in \<open>simp_all add: Let_def\<close>)
    next
      case 3
      then show ?thesis
        using ParseScalar_ok [of lb fs msg ?f p] "1.prems" Some by (cases sub) (simp_all add: Let_def)
    qed
  qed
next
  case (2 lb p node path msg)
  then show ?case by simp
next
  case (3 lb p node path f gs msg)
  have a: "parsed_ok (lb_cpp_type lb) fs (parse_field lb p node path f msg)" using 3 by simp
  then obtain msg1 e where m: "parse_field lb p node path f msg = Inr (msg1, e)" "message_ok (lb_cpp_type lb) fs msg1"
    by (auto simp: parsed_ok_def split: sum.splits)
  then have "parsed_ok (lb_cpp_type lb) fs (parse_fields lb p node path gs msg1)"
    using "3.IH"(2) "3.prems" by simp
  then show ?case
    using m by (auto simp: parsed_ok_def res_bind_def split: sum.splits)
qed

section \<open>Names\<close>

text \<open>
  A field name in snake case: words of lower case letters and digits, joined by underscores, where every
  word but the first begins with a letter.
\<close>

definition word_char :: "char \<Rightarrow> bool" where
  "word_char c = (c_islower c \<or> c_isdigit c)"

fun snake_tail :: "string list \<Rightarrow> string" where
  "snake_tail [] = []"
| "snake_tail (w # ws) = CHR ''_'' # w @ snake_tail ws"

definition snake_name :: "string \<Rightarrow> bool" where
  "snake_name s \<longleftrightarrow>
     (\<exists>w ws. s = w @ snake_tail ws \<and> w \<noteq> [] \<and> list_all word_char w \<and>
        (\<forall>v \<in> set ws. v \<noteq> [] \<and> c_islower (hd v) \<and> list_all word_char v))"

lemma case_laws:
  "c_islower c \<Longrightarrow> c_isupper (c_toupper c) \<and> c_tolower (c_toupper c) = c"
  "word_char c \<Longrightarrow> \<not> c_isupper c \<and> c_tolower c = c \<and> c \<noteq> CHR ''_''"
proof -
  assume a: "c_islower c"
  then have n: "97 \<le> cc c" "cc c \<le> 122" by (simp_all add: c_islower_def)
  have "cc (char_of (cc c - 32)) = cc c - 32" using n by (simp add: cc_def)
  moreover have "char_of (cc c) = c" by (simp add: cc_def)
  moreover have "65 \<le> cc c - 32" "cc c - 32 \<le> 90" using n by linarith+
  ultimately show "c_isupper (c_toupper c) \<and> c_tolower (c_toupper c) = c"
    using a n by (simp add: c_toupper_def c_tolower_def c_isupper_def)
next
  assume "word_char c"
  then show "\<not> c_isupper c \<and> c_tolower c = c \<and> c \<noteq> CHR ''_''"
    by (auto simp: word_char_def c_islower_def c_isdigit_def c_isupper_def c_tolower_def cc_def)
qed

lemma snake_loop_word: "list_all word_char w \<Longrightarrow> snake_loop False (w @ s) = w @ snake_loop False s"
  by (induction w) (auto dest: case_laws(2))

lemma camel_loop_word: "list_all word_char w \<Longrightarrow> w \<noteq> [] \<Longrightarrow> camel_loop first (w @ s) = w @ camel_loop False s"
proof (induction w arbitrary: first)
  case (Cons c w)
  then show ?case using case_laws(2) [of c] by (cases "w = []") auto
qed simp

lemma camel_snake_tail:
  assumes "\<forall>v \<in> set ws. v \<noteq> [] \<and> c_islower (hd v) \<and> list_all word_char v"
  shows "camel_loop False (snake_loop False (snake_tail ws)) = snake_tail ws"
  using assms
proof (induction ws)
  case (Cons v ws)
  obtain c w where v: "v = c # w" using Cons.prems by (cases v) auto
  have c: "c_islower c" "c \<noteq> CHR ''_''" "list_all word_char w"
    using Cons.prems case_laws(2) [of c] by (auto simp: v)
  have "camel_loop False (w @ snake_loop False (snake_tail ws)) = w @ camel_loop False (snake_loop False (snake_tail ws))"
    using camel_loop_word [OF c(3)] by (cases "w = []") auto
  then show ?case
    using Cons c case_laws(1) [OF c(1)] by (simp add: v snake_loop_word)
qed simp

lemma camel_of_snake: "snake_name s \<Longrightarrow> CamelCaseToSnake (SnakeCaseToCamel s) = s"
  by (auto simp: snake_name_def CamelCaseToSnake_def SnakeCaseToCamel_def snake_loop_word camel_loop_word camel_snake_tail)

text \<open>The keys of a document that belong to the descriptor, in the case that the parser reads.\<close>

function keys_known :: "ParserYaml \<Rightarrow> Field list \<Rightarrow> (string \<times> Yaml) list \<Rightarrow> bool" where
  "keys_known p descr [] = True"
| "keys_known p descr ((key, value) # rest) =
     ((\<exists>f \<in> set descr. key = field_label p f \<and>
         (case value of Y_map sub \<Rightarrow> fd_type f = TYPE_MESSAGE \<and> \<not> fd_repeated f \<and> keys_known p (fd_fields f) sub | _ \<Rightarrow> True)) \<and>
      keys_known p descr rest)"
  by pat_completeness auto

termination keys_known
  by (relation "measure (\<lambda>(p, descr, m). size_list (\<lambda>e. size (snd e)) m)")
     (auto intro: le_less_trans [OF yaml_map_size])

fun snake_fields :: "Field \<Rightarrow> bool" where
  "snake_fields (Field n repeated type enums descr) = (snake_name n \<and> (\<forall>f \<in> set descr. snake_fields f))"

lemma find_distinct:
  assumes "distinct (map fd_name descr)" "f \<in> set descr"
  shows "find (\<lambda>g. fd_name g = fd_name f) descr = Some f"
  using assms by (induction descr) auto

lemma known_keys_accepted:
  assumes "keys_known p descr m" "\<forall>f \<in> set descr. snake_fields f \<and> distinct_names f" "distinct (map fd_name descr)"
  shows "find_unknown lb p descr m = Inr []"
  using assms
proof (induction p descr m rule: keys_known.induct)
  case (2 p descr key val rest)
  obtain f where f: "f \<in> set descr" "key = field_label p f"
    "case val of Y_map sub \<Rightarrow> fd_type f = TYPE_MESSAGE \<and> \<not> fd_repeated f \<and> keys_known p (fd_fields f) sub | _ \<Rightarrow> True"
    using "2.prems"(1) by auto
  have "snake_name (fd_name f)" "\<forall>g \<in> set (fd_fields f). snake_fields g \<and> distinct_names g" "distinct (map fd_name (fd_fields f))"
    using "2.prems"(2) f(1) by (cases f; auto)+
  then have n: "(if py_read_camelcase p then CamelCaseToSnake key else key) = fd_name f"
    and sub: "val = Y_map sub \<Longrightarrow> find_unknown lb p (fd_fields f) sub = Inr []" for sub
    using f "2.IH"(1) by (auto simp: field_label_def camel_of_snake)
  have "find_unknown lb p descr rest = Inr []" using "2.IH"(2) "2.prems" by simp
  then show ?case
    using f(3) find_distinct [OF "2.prems"(3) f(1)] sub
    by (cases "val"; cases "py_read_camelcase p") (use n in \<open>simp_all add: Let_def\<close>)
qed simp

section \<open>Properties\<close>


text \<open>
  C37: A field name in snake case survives the translation to camel case and back, so that a document whose
  keys are the names of fields in the case that the parser reads, at every level, has no unknown field.
\<close>

theorem known_keys_round_trip:
  assumes "\<forall>f \<in> set descr. snake_fields f \<and> distinct_names f" "distinct (map fd_name descr)"
  shows "(\<forall>f \<in> set descr. CamelCaseToSnake (SnakeCaseToCamel (fd_name f)) = fd_name f) \<and>
    (keys_known p descr m \<longrightarrow> FindUnknownFields lb p descr (Y_map m) = Inr [])"
proof -
  have "snake_name (fd_name f)" if "f \<in> set descr" for f using assms(1) that by (cases f) auto
  then show ?thesis by (simp add: camel_of_snake FindUnknownFields_def known_keys_accepted [OF _ assms])
qed

definition example_cpp :: "FieldType \<Rightarrow> CppType" where
  "example_cpp t =
     (case t of
        TYPE_DOUBLE \<Rightarrow> CPPTYPE_DOUBLE | TYPE_FLOAT \<Rightarrow> CPPTYPE_FLOAT | TYPE_INT64 \<Rightarrow> CPPTYPE_INT64
      | TYPE_UINT64 \<Rightarrow> CPPTYPE_UINT64 | TYPE_INT32 \<Rightarrow> CPPTYPE_INT32 | TYPE_FIXED64 \<Rightarrow> CPPTYPE_UINT64
      | TYPE_FIXED32 \<Rightarrow> CPPTYPE_UINT32 | TYPE_BOOL \<Rightarrow> CPPTYPE_BOOL | TYPE_STRING \<Rightarrow> CPPTYPE_STRING
      | TYPE_GROUP \<Rightarrow> CPPTYPE_MESSAGE | TYPE_MESSAGE \<Rightarrow> CPPTYPE_MESSAGE | TYPE_BYTES \<Rightarrow> CPPTYPE_STRING
      | TYPE_UINT32 \<Rightarrow> CPPTYPE_UINT32 | TYPE_ENUM \<Rightarrow> CPPTYPE_ENUM | TYPE_SFIXED32 \<Rightarrow> CPPTYPE_INT32
      | TYPE_SFIXED64 \<Rightarrow> CPPTYPE_INT64 | TYPE_SINT32 \<Rightarrow> CPPTYPE_INT32 | TYPE_SINT64 \<Rightarrow> CPPTYPE_INT64)"

text \<open>Libraries that convert every scalar to the same number, for examples.\<close>

definition example_libs :: "nat Libraries" where
  "example_libs =
     \<lparr>lb_double = (\<lambda>_. Inr 0), lb_float = (\<lambda>_. Inr 0), lb_int64 = (\<lambda>_. Inr 5), lb_uint64 = (\<lambda>_. Inr 5),
      lb_int32 = (\<lambda>_. Inr 5), lb_uint32 = (\<lambda>_. Inr 5), lb_bool = (\<lambda>_. Inl ''bad conversion''),
      lb_string = (\<lambda>n. case n of Y_scalar s \<Rightarrow> Inr s | _ \<Rightarrow> Inl ''bad conversion''),
      lb_cpp_type = example_cpp, lb_type_name = (\<lambda>_. ''type''),
      lb_set = (\<lambda>ct f v msg. if ct = example_cpp (fd_type f) then Inr (msg_put (fd_name f) v msg) else Inl Reflection_misuse)\<rparr>"

definition example_descr :: "Field list" where
  "example_descr = [Field ''networking'' False TYPE_MESSAGE [] [Field ''max_connections'' False TYPE_INT64 [] []]]"

definition example_parser :: ParserYaml where
  "example_parser = \<lparr>py_file = ''f'', py_read_camelcase = True, py_validation_mode = PERMISSIVE\<rparr>"

lemma example_libs_documented: "documented example_libs" "lb_cpp_type example_libs = example_cpp"
  by (simp_all add: documented_def documented_types_def example_libs_def example_cpp_def)


lemma example_snake: "snake_name ''networking''" "snake_name ''max_connections''"
proof -
  have "''networking'' = ''networking'' @ snake_tail []" "''max_connections'' = ''max'' @ snake_tail [''connections'']"
    by simp_all
  moreover have "list_all word_char ''networking''" "list_all word_char ''max''" "list_all word_char ''connections''"
    "c_islower (hd ''connections'')"
    by (simp_all add: word_char_def c_islower_def cc_def)
  ultimately show "snake_name ''networking''" "snake_name ''max_connections''"
    unfolding snake_name_def by fastforce+
qed

theorem known_keys_round_trip_witness:
  "FindUnknownFields example_libs example_parser example_descr
     (Y_map [(''networking'', Y_map [(''maxConnections'', Y_scalar ''5'')])]) = Inr []"
proof -
  have "field_label example_parser (Field ''networking'' False TYPE_MESSAGE [] fs) = ''networking''"
    "field_label example_parser (Field ''max_connections'' False TYPE_INT64 [] []) = ''maxConnections''" for fs
    by (simp_all add: field_label_def example_parser_def SnakeCaseToCamel_def c_toupper_def c_islower_def cc_def char_of_def
        bit_Suc_0_iff)
  then show ?thesis
    using known_keys_round_trip [of example_descr example_parser
        "[(''networking'', Y_map [(''maxConnections'', Y_scalar ''5'')])]" example_libs] example_snake
    by (simp add: example_descr_def)
qed

end
