(* ===== verification/ConfigWatch.thy ===== *)
theory ConfigWatch
  imports ConfigParser ConfigProps
begin

unbundle bit_operations_syntax

text \<open>
  Watching the runtime configuration: the wrapper of inotify (\<open>Inotify.cpp\<close>) and the loader that follows
  its events (\<open>ConfigLoader.cpp\<close>).

  The buffer of events is the array of bytes that the kernel fills. The results of the system calls, the
  file system and the generated message type are arguments; an event is handled against one state of the
  file system. Iterators of the watchers are positions.
\<close>

section \<open>Inotify\<close>

definition IN_MODIFY :: u32 where "IN_MODIFY = 0x2"
definition IN_MOVED_FROM :: u32 where "IN_MOVED_FROM = 0x40"
definition IN_MOVED_TO :: u32 where "IN_MOVED_TO = 0x80"
definition IN_CREATE :: u32 where "IN_CREATE = 0x100"
definition IN_DELETE :: u32 where "IN_DELETE = 0x200"
definition IN_DELETE_SELF :: u32 where "IN_DELETE_SELF = 0x400"
definition IN_MOVE_SELF :: u32 where "IN_MOVE_SELF = 0x800"
definition IN_DONT_FOLLOW :: u32 where "IN_DONT_FOLLOW = 0x2000000"

record InotifyEvent =
  nv_wd :: u32
  nv_mask :: u32
  nv_len :: u32
  nv_name :: string

datatype InotifyResult = INOTIFY_OK InotifyEvent | INOTIFY_ERROR | INOTIFY_TIMEOUT

record Watcher =
  w_wd :: u32
  w_path :: string
  w_tag :: nat

record Inotify =
  in_buffer :: "u8 list"
  in_curr_byte :: u64
  in_read_data :: u64
  in_watchers :: "Watcher list"

text \<open>The position of the first watcher that fits, or the end.\<close>

fun find_watcher :: "(Watcher \<Rightarrow> bool) \<Rightarrow> Watcher list \<Rightarrow> nat" where
  "find_watcher fits [] = 0"
| "find_watcher fits (w # ws) = (if fits w then 0 else Suc (find_watcher fits ws))"

definition FindWatcher_path :: "string \<Rightarrow> Inotify \<Rightarrow> nat" where
  "FindWatcher_path needle i = find_watcher (\<lambda>w. w_path w = needle) (in_watchers i)"

definition FindWatcher_wd :: "u32 \<Rightarrow> Inotify \<Rightarrow> nat" where
  "FindWatcher_wd needle i = find_watcher (\<lambda>w. w_wd w = needle) (in_watchers i)"

definition WatcherNotFound :: "nat \<Rightarrow> Inotify \<Rightarrow> bool" where
  "WatcherNotFound it i = (it = length (in_watchers i))"

text \<open>\<open>add_watch\<close> is the system call, a descriptor or an error.\<close>

definition AddWatcher :: "(string \<Rightarrow> u32 \<Rightarrow> u32 option) \<Rightarrow> string \<Rightarrow> u32 \<Rightarrow> nat \<Rightarrow> Inotify \<Rightarrow> u32 option \<times> Inotify" where
  "AddWatcher add_watch path flags tag i =
     (case add_watch path flags of
        None \<Rightarrow> (None, i)
      | Some wd \<Rightarrow>
          (let it = FindWatcher_path path i
           in (Some wd,
               if WatcherNotFound it i
               then i\<lparr>in_watchers := in_watchers i @ [\<lparr>w_wd = wd, w_path = path, w_tag = tag\<rparr>]\<rparr>
               else i\<lparr>in_watchers := (in_watchers i)[it := (in_watchers i ! it)\<lparr>w_wd := wd, w_tag := tag\<rparr>]\<rparr>)))"

definition AddFileWatcher :: "(string \<Rightarrow> u32 \<Rightarrow> u32 option) \<Rightarrow> string \<Rightarrow> nat \<Rightarrow> Inotify \<Rightarrow> u32 option \<times> Inotify" where
  "AddFileWatcher add_watch path tag i =
     AddWatcher add_watch path (IN_MODIFY OR IN_MOVE_SELF OR IN_DELETE_SELF OR IN_DONT_FOLLOW) tag i"

definition AddDirectoryWatcher :: "(string \<Rightarrow> u32 \<Rightarrow> u32 option) \<Rightarrow> string \<Rightarrow> nat \<Rightarrow> Inotify \<Rightarrow> u32 option \<times> Inotify" where
  "AddDirectoryWatcher add_watch path tag i =
     AddWatcher add_watch path (IN_CREATE OR IN_DELETE OR IN_MOVE_SELF OR IN_DELETE_SELF OR IN_DONT_FOLLOW) tag i"

definition RemoveWatcher :: "nat \<Rightarrow> Inotify \<Rightarrow> Inotify" where
  "RemoveWatcher it i =
     (if WatcherNotFound it i then i
      else i\<lparr>in_watchers := take it (in_watchers i) @ drop (Suc it) (in_watchers i)\<rparr>)"

definition u32_at :: "u8 list \<Rightarrow> nat \<Rightarrow> u32" where
  "u32_at buffer pos = ucast (le_word (take 4 (drop pos buffer)))"

text \<open>
  The event at a position. The position is checked by \<open>at\<close>; the header behind it has 16 bytes, and reading
  beyond the array is undefined.
\<close>

definition event_at :: "u8 list \<Rightarrow> u64 \<Rightarrow> cxx_fault + InotifyEvent" where
  "event_at buffer pos =
     (let i = unat pos
      in if i \<ge> length buffer then Inl (Throws Out_of_range)
         else if i + 16 > length buffer then Inl Undefined_behaviour
         else
           (let len = u32_at buffer (i + 12)
            in Inr \<lparr>nv_wd = u32_at buffer i, nv_mask = u32_at buffer (i + 4), nv_len = len,
                    nv_name = takeWhile (\<lambda>c. c \<noteq> nul) (map (\<lambda>b. char_of (unat b)) (take (unat len) (drop (i + 16) buffer)))\<rparr>))"

text \<open>What the system calls of one call give: the result of \<open>select\<close>, the result of \<open>read\<close> and the bytes.\<close>

record InotifyIO =
  io_select :: int
  io_read :: int
  io_bytes :: "u8 list"

definition Inotify_GetNext :: "InotifyIO \<Rightarrow> Inotify \<Rightarrow> cxx_fault + (InotifyResult \<times> Inotify)" where
  "Inotify_GetNext io i =
     (if in_curr_byte i < in_read_data i then
        res_bind (event_at (in_buffer i) (in_curr_byte i)) (\<lambda>event.
          Inr (INOTIFY_OK event, i\<lparr>in_curr_byte := in_curr_byte i + (16 + ucast (nv_len event))\<rparr>))
      else if io_select io < 0 then Inr (INOTIFY_ERROR, i)
      else if io_select io = 0 then Inr (INOTIFY_TIMEOUT, i)
      else
        (let i1 = i\<lparr>in_read_data := word_of_int (io_read io), in_buffer := io_bytes io\<rparr>
         in if uint (in_read_data i1) < 0 then Inr (INOTIFY_ERROR, i1)
            else
              res_bind (event_at (in_buffer i1) 0) (\<lambda>event.
                Inr (INOTIFY_OK event, i1\<lparr>in_curr_byte := 16 + ucast (nv_len event)\<rparr>))))"

fun get_all :: "InotifyIO list \<Rightarrow> Inotify \<Rightarrow> cxx_fault + Inotify" where
  "get_all [] i = Inr i"
| "get_all (io # ios) i = res_bind (Inotify_GetNext io i) (\<lambda>(r, i'). get_all ios i')"

section \<open>The loader\<close>

datatype LoadResult = LOAD_SUCCESS | LOAD_PARSE_ERROR | LOAD_FILE_NOT_FOUND

datatype loader_fault = Filesystem_error | Parser_fault parse_fault

record 'd LoaderEnv =
  le_libs :: "'d Libraries"
  le_descr :: "Field list"
  le_typed :: "'d Msg \<Rightarrow> RuntimeConfig"
  le_exists :: "string \<Rightarrow> bool"
  le_is_symlink :: "string \<Rightarrow> bool"
  le_canonical :: "string \<Rightarrow> string option"
  le_load :: "string + Yaml"
  le_add_watch :: "string \<Rightarrow> u32 \<Rightarrow> u32 option"

record ConfigLoader =
  cl_config :: CollectorConfig
  cl_inotify :: Inotify
  cl_parser :: ParserYaml
  cl_file :: string
  cl_parent_path :: string
  cl_filename :: string

definition LOADER_PARENT_PATH :: nat where "LOADER_PARENT_PATH = 1"
definition LOADER_CONFIG_FILE :: nat where "LOADER_CONFIG_FILE = 2"
definition LOADER_CONFIG_REALPATH :: nat where "LOADER_CONFIG_REALPATH = 3"

definition NewRuntimeConfig :: "'d Msg" where
  "NewRuntimeConfig =
     [(''networking'', V_message [(''max_connections_per_minute'', V_int64 (word_of_int kMaxConnectionsPerMinute))])]"

definition LoadConfiguration ::
  "'d LoaderEnv \<Rightarrow> Yaml option \<Rightarrow> ConfigLoader \<Rightarrow> loader_fault + (LoadResult \<times> ConfigLoader)" where
  "LoadConfiguration env node cl =
     (case (case node of
              None \<Rightarrow>
                if \<not> le_exists env (cl_file cl) then None
                else Some (Parse_file (le_libs env) (cl_parser cl) (le_descr env) (le_load env) NewRuntimeConfig)
            | Some n \<Rightarrow> Some (Parse_node (le_libs env) (cl_parser cl) (le_descr env) n NewRuntimeConfig)) of
        None \<Rightarrow> Inr (LOAD_FILE_NOT_FOUND, cl)
      | Some (Inl f) \<Rightarrow> Inl (Parser_fault f)
      | Some (Inr (runtime_config, errors)) \<Rightarrow>
          if errors \<noteq> [] then Inr (LOAD_PARSE_ERROR, cl)
          else Inr (LOAD_SUCCESS, cl\<lparr>cl_config := SetRuntimeConfig (le_typed env runtime_config) (cl_config cl)\<rparr>))"

definition reload :: "'d LoaderEnv \<Rightarrow> ConfigLoader \<Rightarrow> loader_fault + ConfigLoader" where
  "reload env cl = res_bind (LoadConfiguration env None cl) (\<lambda>(r, cl'). Inr cl')"

definition watch_file :: "'d LoaderEnv \<Rightarrow> string \<Rightarrow> nat \<Rightarrow> ConfigLoader \<Rightarrow> ConfigLoader" where
  "watch_file env path tag cl = cl\<lparr>cl_inotify := snd (AddFileWatcher (le_add_watch env) path tag (cl_inotify cl))\<rparr>"

text \<open>\<open>AddFileWatcher(canonical(path), LOADER_CONFIG_REALPATH)\<close> when the path is a symbolic link.\<close>

definition watch_target :: "'d LoaderEnv \<Rightarrow> string \<Rightarrow> ConfigLoader \<Rightarrow> loader_fault + ConfigLoader" where
  "watch_target env path cl =
     (if \<not> le_is_symlink env path then Inr cl
      else case le_canonical env path of
             None \<Rightarrow> Inl Filesystem_error
           | Some target \<Rightarrow> Inr (watch_file env target LOADER_CONFIG_REALPATH cl))"

definition drop_watcher :: "nat \<Rightarrow> ConfigLoader \<Rightarrow> ConfigLoader" where
  "drop_watcher it cl =
     cl\<lparr>cl_inotify := RemoveWatcher it (cl_inotify cl), cl_config := ResetRuntimeConfig (cl_config cl)\<rparr>"

definition HandleConfigDirectoryEvent ::
  "'d LoaderEnv \<Rightarrow> InotifyEvent \<Rightarrow> ConfigLoader \<Rightarrow> loader_fault + (bool \<times> ConfigLoader)" where
  "HandleConfigDirectoryEvent env event cl =
     (if nv_mask event AND (IN_MOVE_SELF OR IN_DELETE_SELF) \<noteq> 0 then Inr (False, cl)
      else if cl_filename cl \<noteq> nv_name event then Inr (True, cl)
      else if nv_mask event AND (IN_CREATE OR IN_MOVED_TO) \<noteq> 0 then
        res_bind (reload env (watch_file env (cl_file cl) LOADER_CONFIG_FILE cl)) (\<lambda>cl1.
          res_bind (watch_target env (cl_file cl) cl1) (\<lambda>cl2. Inr (True, cl2)))
      else if nv_mask event AND (IN_DELETE OR IN_MOVED_FROM) \<noteq> 0 then
        Inr (True, drop_watcher (FindWatcher_path (cl_file cl) (cl_inotify cl)) cl)
      else Inr (True, cl))"

definition HandleConfigFileEvent ::
  "'d LoaderEnv \<Rightarrow> InotifyEvent \<Rightarrow> nat \<Rightarrow> ConfigLoader \<Rightarrow> loader_fault + ConfigLoader" where
  "HandleConfigFileEvent env event it cl =
     (let path = w_path (in_watchers (cl_inotify cl) ! it)
      in if nv_mask event AND IN_MODIFY \<noteq> 0 then res_bind (watch_target env path cl) (reload env)
         else if nv_mask event AND (IN_MOVE_SELF OR IN_DELETE_SELF) \<noteq> 0 then
           (if le_exists env path then
              res_bind (watch_target env path (watch_file env path LOADER_CONFIG_FILE cl)) (reload env)
            else Inr (drop_watcher it cl))
         else Inr cl)"

definition HandleConfigRealpathEvent ::
  "'d LoaderEnv \<Rightarrow> InotifyEvent \<Rightarrow> nat \<Rightarrow> ConfigLoader \<Rightarrow> loader_fault + ConfigLoader" where
  "HandleConfigRealpathEvent env event it cl =
     (if nv_mask event AND IN_MODIFY \<noteq> 0 then reload env cl
      else if nv_mask event AND (IN_DELETE_SELF OR IN_MOVE_SELF) \<noteq> 0 then
        (if le_is_symlink env (cl_file cl) then res_bind (watch_target env (cl_file cl) cl) (reload env)
         else Inr (drop_watcher it cl))
      else Inr cl)"

definition HandleEvent ::
  "'d LoaderEnv \<Rightarrow> InotifyEvent \<Rightarrow> ConfigLoader \<Rightarrow> loader_fault + (bool \<times> ConfigLoader)" where
  "HandleEvent env event cl =
     (let it = FindWatcher_wd (nv_wd event) (cl_inotify cl)
      in if WatcherNotFound it (cl_inotify cl) then Inr (True, cl)
         else
           (let tag = w_tag (in_watchers (cl_inotify cl) ! it)
            in if tag = LOADER_PARENT_PATH then HandleConfigDirectoryEvent env event cl
               else if tag = LOADER_CONFIG_FILE then
                 res_bind (HandleConfigFileEvent env event it cl) (\<lambda>cl'. Inr (True, cl'))
               else if tag = LOADER_CONFIG_REALPATH then
                 res_bind (HandleConfigRealpathEvent env event it cl) (\<lambda>cl'. Inr (True, cl'))
               else Inr (True, cl)))"

text \<open>The set-up of the thread: whether it goes on to the loop.\<close>

definition WatchFile_begin :: "'d LoaderEnv \<Rightarrow> bool \<Rightarrow> ConfigLoader \<Rightarrow> loader_fault + (bool \<times> ConfigLoader)" where
  "WatchFile_begin env valid cl =
     (if \<not> valid then Inr (False, cl)
      else
        (let (wd, inotify1) = AddDirectoryWatcher (le_add_watch env) (cl_parent_path cl) LOADER_PARENT_PATH (cl_inotify cl);
             cl1 = cl\<lparr>cl_inotify := inotify1\<rparr>
         in if wd = None then Inr (False, cl1)
            else if le_exists env (cl_file cl) then
              res_bind (watch_target env (cl_file cl) (watch_file env (cl_file cl) LOADER_CONFIG_FILE cl1)) (\<lambda>cl2.
                res_bind (reload env cl2) (\<lambda>cl3. Inr (True, cl3)))
            else Inr (True, cl1)))"

text \<open>The loop, over what it gets before it is told to stop.\<close>

fun WatchFile_loop :: "('d LoaderEnv \<times> InotifyResult) list \<Rightarrow> ConfigLoader \<Rightarrow> loader_fault + ConfigLoader" where
  "WatchFile_loop [] cl = Inr cl"
| "WatchFile_loop ((env, res) # rest) cl =
     (case res of
        INOTIFY_OK event \<Rightarrow>
          res_bind (HandleEvent env event cl) (\<lambda>(going, cl'). if \<not> going then Inr cl' else WatchFile_loop rest cl')
      | _ \<Rightarrow> WatchFile_loop rest cl)"

section \<open>A failed read\<close>

lemma event_at_start: "length buffer = 1024 \<Longrightarrow> \<exists>e. event_at buffer 0 = Inr e"
  by (simp add: event_at_def Let_def)

text \<open>With the size that a failed read leaves, the buffer is walked without end.\<close>

lemma GetNext_after_failure:
  assumes "length (in_buffer i) = 1024" "in_read_data i = - 1" "in_curr_byte i < - 1"
    "Inotify_GetNext io i = Inr (r, i')"
  shows "length (in_buffer i') = 1024 \<and> in_read_data i' = - 1 \<and> in_curr_byte i' < - 1 \<and>
    unat (in_curr_byte i) + 16 \<le> 1024 \<and> unat (in_curr_byte i) + 16 \<le> unat (in_curr_byte i')"
proof -
  obtain e where e: "event_at (in_buffer i) (in_curr_byte i) = Inr e"
    "i' = i\<lparr>in_curr_byte := in_curr_byte i + (16 + ucast (nv_len e))\<rparr>"
    using assms by (auto simp: Inotify_GetNext_def res_bind_Inr_iff)
  have b: "unat (in_curr_byte i) + 16 \<le> 1024"
    using e(1) assms(1) by (auto simp: event_at_def Let_def split: if_splits)
  have l: "unat (ucast (nv_len e) :: u64) < 2 ^ 32"
    using unsigned_less [where 'a = nat, of "nv_len e"] by (simp add: unsigned_ucast_eq take_bit_eq_mod)
  have "unat (16 + ucast (nv_len e) :: u64) = 16 + unat (ucast (nv_len e) :: u64)"
    using l by (simp add: unat_word_ariths)
  then have c: "unat (in_curr_byte i') = unat (in_curr_byte i) + (16 + unat (ucast (nv_len e) :: u64))"
    using l b by (simp add: e(2) unat_word_ariths)
  have "unat (in_curr_byte i') < unat (- 1 :: u64)" using c l b by (simp add: unsigned_minus_1_eq_mask mask_eq_exp_minus_1)
  then show ?thesis using assms(1, 2) b c e(2) by (simp add: word_less_nat_alt)
qed

lemma get_all_after_failure:
  assumes "length (in_buffer i) = 1024" "in_read_data i = - 1" "in_curr_byte i < - 1" "get_all ios i = Inr i'"
  shows "unat (in_curr_byte i) + 16 * length ios \<le> 1024 \<or> ios = []"
  using assms
proof (induction ios arbitrary: i)
  case (Cons io ios)
  obtain r i1 where i1: "Inotify_GetNext io i = Inr (r, i1)" "get_all ios i1 = Inr i'"
    using Cons.prems(4) by (auto simp: res_bind_Inr_iff)
  note step = GetNext_after_failure [OF Cons.prems(1-3) i1(1)]
  then show ?case using Cons.IH [of i1] i1(2) by auto
qed simp

section \<open>The configuration\<close>

text \<open>What a step may do to the configuration: keep it, drop it, or install a document that parsed.\<close>

definition config_step :: "'d LoaderEnv \<Rightarrow> ConfigLoader \<Rightarrow> ConfigLoader \<Rightarrow> bool" where
  "config_step env cl cl' \<longleftrightarrow>
     cl_config cl' = cl_config cl \<or>
     cl_config cl' = ResetRuntimeConfig (cl_config cl) \<or>
     (\<exists>msg. Parse_file (le_libs env) (cl_parser cl) (le_descr env) (le_load env) NewRuntimeConfig = Inr (msg, []) \<and>
        le_exists env (cl_file cl) \<and> cl_config cl' = SetRuntimeConfig (le_typed env msg) (cl_config cl))"

definition same_loader :: "ConfigLoader \<Rightarrow> ConfigLoader \<Rightarrow> bool" where
  "same_loader cl cl' \<longleftrightarrow> cl_config cl' = cl_config cl \<and> cl_parser cl' = cl_parser cl \<and> cl_file cl' = cl_file cl"

lemma watch_same: "same_loader cl (watch_file env path tag cl)"
  by (simp add: same_loader_def watch_file_def)

lemma watch_target_same: "watch_target env path cl = Inr cl' \<Longrightarrow> same_loader cl cl'"
  by (auto simp: watch_target_def same_loader_def watch_file_def split: if_splits option.splits)

lemma same_loader_trans: "same_loader a b \<Longrightarrow> same_loader b c \<Longrightarrow> same_loader a c"
  by (simp add: same_loader_def)

lemma reload_step: "same_loader cl cl1 \<Longrightarrow> reload env cl1 = Inr cl' \<Longrightarrow> config_step env cl cl'"
  by (auto simp: reload_def LoadConfiguration_def config_step_def same_loader_def res_bind_Inr_iff
      split: option.splits sum.splits if_splits)

lemma config_step_same: "config_step env cl cl1 \<Longrightarrow> same_loader cl1 cl2 \<Longrightarrow> config_step env cl cl2"
  by (simp add: config_step_def same_loader_def)

lemma config_step_refl: "config_step env cl cl"
  by (simp add: config_step_def)

lemma drop_watcher_step: "config_step env cl (drop_watcher it cl)"
  by (simp add: config_step_def drop_watcher_def)

lemma HandleConfigDirectoryEvent_step:
  assumes "HandleConfigDirectoryEvent env event cl = Inr (going, cl')"
  shows "config_step env cl cl'"
proof -
  consider (load) cl1 where "reload env (watch_file env (cl_file cl) LOADER_CONFIG_FILE cl) = Inr cl1"
      "watch_target env (cl_file cl) cl1 = Inr cl'"
    | (other) "cl' = cl \<or> (\<exists>it. cl' = drop_watcher it cl)"
    using assms by (auto simp: HandleConfigDirectoryEvent_def res_bind_Inr_iff split: if_splits)
  then show ?thesis
  proof cases
    case load
    then show ?thesis using reload_step [OF watch_same] watch_target_same config_step_same by blast
  next
    case other
    then show ?thesis using config_step_refl drop_watcher_step by blast
  qed
qed

lemma HandleConfigFileEvent_step:
  assumes "HandleConfigFileEvent env event it cl = Inr cl'"
  shows "config_step env cl cl'"
proof -
  consider (load) path cl1 where "reload env cl1 = Inr cl'"
      "watch_target env path cl = Inr cl1 \<or> watch_target env path (watch_file env path LOADER_CONFIG_FILE cl) = Inr cl1"
    | (other) "cl' = cl \<or> (\<exists>it. cl' = drop_watcher it cl)"
    using assms by (auto simp: HandleConfigFileEvent_def Let_def res_bind_Inr_iff split: if_splits)
  then show ?thesis
  proof cases
    case load
    then have "same_loader cl cl1" using watch_same same_loader_trans watch_target_same by blast
    then show ?thesis using load(1) by (rule reload_step)
  next
    case other
    then show ?thesis using config_step_refl drop_watcher_step by blast
  qed
qed

lemma HandleConfigRealpathEvent_step:
  assumes "HandleConfigRealpathEvent env event it cl = Inr cl'"
  shows "config_step env cl cl'"
proof -
  consider (load) cl1 where "reload env cl1 = Inr cl'" "cl1 = cl \<or> watch_target env (cl_file cl) cl = Inr cl1"
    | (other) "cl' = cl \<or> (\<exists>it. cl' = drop_watcher it cl)"
    using assms by (auto simp: HandleConfigRealpathEvent_def res_bind_Inr_iff split: if_splits)
  then show ?thesis
  proof cases
    case load
    then have "same_loader cl cl1" using watch_target_same same_loader_def by blast
    then show ?thesis using load(1) by (rule reload_step)
  next
    case other
    then show ?thesis using config_step_refl drop_watcher_step by blast
  qed
qed

lemma HandleEvent_step: "HandleEvent env event cl = Inr (going, cl') \<Longrightarrow> config_step env cl cl'"
  using HandleConfigDirectoryEvent_step HandleConfigFileEvent_step HandleConfigRealpathEvent_step config_step_refl
  by (auto simp: HandleEvent_def Let_def res_bind_Inr_iff split: if_splits)

section \<open>Properties\<close>

text \<open>
  C38: Whatever event arrives, the runtime configuration is kept, dropped, or replaced by a document that was
  parsed to its end without an error: a document with an error never changes it, not even in part.
\<close>

theorem configuration_is_never_partial:
  assumes "HandleEvent env event cl = Inr (going, cl')"
  shows "cl_config cl' = cl_config cl \<or> cl_config cl' = ResetRuntimeConfig (cl_config cl) \<or>
    (\<exists>msg. Parse_file (le_libs env) (cl_parser cl) (le_descr env) (le_load env) NewRuntimeConfig = Inr (msg, []) \<and>
       le_exists env (cl_file cl) \<and> cl_config cl' = SetRuntimeConfig (le_typed env msg) (cl_config cl))"
  using HandleEvent_step [OF assms] by (simp add: config_step_def)

text \<open>
  C39: A read of events that fails is not reported as an error, since its result is kept unsigned: the stale
  bytes of the buffer are taken for an event, and after at most 64 further calls the walk over the buffer
  leaves it, with an exception or with undefined behaviour, without another read.
\<close>

theorem failed_read_runs_off_the_buffer:
  assumes "length (in_buffer i) = 1024" "in_read_data i \<le> in_curr_byte i" "0 < io_select io" "io_read io = - 1"
    "io_bytes io = in_buffer i"
  shows "\<exists>event i'. Inotify_GetNext io i = Inr (INOTIFY_OK event, i') \<and>
    (\<forall>ios. 64 \<le> length ios \<longrightarrow> (\<exists>fault. get_all ios i' = Inl fault))"
proof -
  obtain e where e: "event_at (in_buffer i) 0 = Inr e" using event_at_start [OF assms(1)] by blast
  let ?i = "i\<lparr>in_read_data := - 1, in_buffer := io_bytes io, in_curr_byte := 16 + ucast (nv_len e)\<rparr>"
  have "\<not> in_curr_byte i < in_read_data i" using assms(2) by (simp add: not_less)
  then have n: "Inotify_GetNext io i = Inr (INOTIFY_OK e, ?i)"
    using assms(3-5) e by (simp add: Inotify_GetNext_def Let_def)
  have l: "unat (ucast (nv_len e) :: u64) < 2 ^ 32"
    using unsigned_less [where 'a = nat, of "nv_len e"] by (simp add: unsigned_ucast_eq take_bit_eq_mod)
  then have u: "unat (16 + ucast (nv_len e) :: u64) = 16 + unat (ucast (nv_len e) :: u64)"
    by (simp add: unat_word_ariths)
  then have c: "in_curr_byte ?i < - 1"
    using l by (simp add: word_less_nat_alt unsigned_minus_1_eq_mask mask_eq_exp_minus_1)
  have "\<exists>fault. get_all ios ?i = Inl fault" if "64 \<le> length ios" for ios
  proof (cases "get_all ios ?i")
    case (Inr i')
    then have "unat (in_curr_byte ?i) + 16 * length ios \<le> 1024 \<or> ios = []"
      using get_all_after_failure [OF _ _ c] assms(1, 5) by simp
    then show ?thesis using u that by auto
  qed simp
  then show ?thesis using n by blast
qed


section \<open>Examples\<close>

definition example_inotify :: Inotify where
  "example_inotify =
     \<lparr>in_buffer = replicate 1024 0, in_curr_byte = 0, in_read_data = 0,
      in_watchers = [\<lparr>w_wd = 1, w_path = ''/etc/stackrox'', w_tag = LOADER_PARENT_PATH\<rparr>,
                     \<lparr>w_wd = 2, w_path = ''/etc/stackrox/c.yaml'', w_tag = LOADER_CONFIG_FILE\<rparr>]\<rparr>"

definition example_loader :: ConfigLoader where
  "example_loader =
     \<lparr>cl_config = example_config, cl_inotify = example_inotify, cl_parser = example_parser,
      cl_file = ''/etc/stackrox/c.yaml'', cl_parent_path = ''/etc/stackrox'', cl_filename = ''c.yaml''\<rparr>"

definition example_loader_env :: "bool \<Rightarrow> nat LoaderEnv" where
  "example_loader_env dangling =
     \<lparr>le_libs = example_libs, le_descr = example_descr,
      le_typed = (\<lambda>_. \<lparr>rc_external_ips_enabled = ExternalIps_ENABLED, rc_external_ips_direction = ExtDir_BOTH,
                         rc_max_connections_per_minute = 5\<rparr>),
      le_exists = (\<lambda>_. \<not> dangling), le_is_symlink = (\<lambda>_. dangling), le_canonical = (\<lambda>p. if dangling then None else Some p),
      le_load = Inr (Y_scalar ''broken''), le_add_watch = (\<lambda>_ _. Some 3)\<rparr>"

theorem configuration_is_never_partial_witness:
  "\<exists>cl'. HandleEvent (example_loader_env False) \<lparr>nv_wd = 2, nv_mask = IN_MODIFY, nv_len = 0, nv_name = []\<rparr> example_loader =
      Inr (True, cl') \<and> (cl_config cl' = example_config \<or> cl_config cl' = ResetRuntimeConfig example_config)"
proof -
  let ?e = "\<lparr>nv_wd = 2, nv_mask = IN_MODIFY, nv_len = 0, nv_name = []\<rparr>"
  let ?env = "example_loader_env False"
  have p: "Parse_file (le_libs ?env) (cl_parser example_loader) (le_descr ?env) (le_load ?env) NewRuntimeConfig =
      Inr (NewRuntimeConfig, [''Invalid configuration''])"
    by (simp add: example_loader_env_def Parse_file_def Parse_node_def)
  have "HandleEvent ?env ?e example_loader = Inr (True, example_loader)"
    using p
    by (simp add: HandleEvent_def example_loader_def example_inotify_def FindWatcher_wd_def WatcherNotFound_def
        HandleConfigFileEvent_def watch_target_def reload_def LoadConfiguration_def Let_def IN_MODIFY_def
        LOADER_PARENT_PATH_def LOADER_CONFIG_FILE_def LOADER_CONFIG_REALPATH_def example_loader_env_def)
  then show ?thesis
    using configuration_is_never_partial [of ?env ?e example_loader True example_loader] p
    by (auto simp: example_loader_def)
qed

theorem failed_read_runs_off_the_buffer_witness:
  "\<exists>event i'. Inotify_GetNext \<lparr>io_select = 1, io_read = - 1, io_bytes = replicate 1024 0\<rparr> example_inotify =
      Inr (INOTIFY_OK event, i') \<and>
    (\<exists>fault. get_all (replicate 64 \<lparr>io_select = 0, io_read = 0, io_bytes = []\<rparr>) i' = Inl fault)"
  using failed_read_runs_off_the_buffer [of example_inotify "\<lparr>io_select = 1, io_read = - 1, io_bytes = replicate 1024 0\<rparr>"]
  by (fastforce simp: example_inotify_def)


end
