(* ===== verification/Spec2Isabelle.thy ===== *)
theory Spec2Isabelle
  imports Prelude CxxLib NetworkConnection NRadix CollectorStats RateLimit ExternalIPs ConnStatus
    ConnDelta ConnTracker ConnTrackerLaws ConnTrackerProps Utility
    Logging HostInfo HostHeuristics CxxFloat CollectorConfig ConfigProps
    Notifier NotifierProps NotifierView DuplexGRPC DuplexProps ProcText ProcfsScraper ProcfsProps SignalService ProcessSignals ProcessStore NetworkSignals Inspector ConfigParser ConfigWatch
begin

text \<open>
  A verification library for the StackRox collector (\<open>src/collector\<close>).
\<close>

end
